(* ===== verification/Prelude.thy ===== *)
theory Prelude imports Main "HOL-Library.Word" begin

unbundle bit_operations_syntax

text \<open>
  Shared vocabulary of the development: Rust's machine integers, results with panics,
  little-endian byte strings, UTF-8 validation as \<^verbatim>\<open>String::from_utf8\<close> and
  \<^verbatim>\<open>String::from_utf8_lossy\<close> perform it, and the generic lemmas the components share.

  Conventions. A Rust \<^verbatim>\<open>String\<close> or \<^verbatim>\<open>&str\<close> is a HOL \<^typ>\<open>string\<close> whose
  characters are its UTF-8 bytes; a \<^verbatim>\<open>Vec<u8>\<close> is a list of 8-bit words. Fixed-width
  arithmetic is the release profile's, which wraps around; what panics in both
  profiles (a division by zero, an index out of range) is \<open>Panic\<close>.
\<close>

named_theorems framed_intros \<open>rules that show a reader consumes what it returns and nothing else\<close>
named_theorems layout_simps \<open>arithmetic of buffer offsets and sizes\<close>

section \<open>Machine integers\<close>

type_synonym u8 = "8 word"
type_synonym u16 = "16 word"
type_synonym u32 = "32 word"
type_synonym u64 = "64 word"
type_synonym usize = "64 word"
type_synonym i32 = "32 word"
type_synonym i64 = "64 word"

section \<open>Results and panics\<close>

text \<open>
  \<open>Ret\<close> is \<^verbatim>\<open>Ok\<close>, \<open>Fail\<close> is \<^verbatim>\<open>Err\<close>, and \<open>Panic\<close> is a call that unwinds or aborts
  instead of returning.
\<close>

datatype ('a, 'e) outcome = Ret 'a | Fail 'e | Panic

fun res_bind :: "('a, 'e) outcome \<Rightarrow> ('a \<Rightarrow> ('b, 'e) outcome) \<Rightarrow> ('b, 'e) outcome" where
  "res_bind (Ret x) f = f x"
| "res_bind (Fail e) f = Fail e"
| "res_bind Panic f = Panic"

fun res_map_err :: "('e \<Rightarrow> 'f) \<Rightarrow> ('a, 'e) outcome \<Rightarrow> ('a, 'f) outcome" where
  "res_map_err g (Ret x) = Ret x"
| "res_map_err g (Fail e) = Fail (g e)"
| "res_map_err g Panic = Panic"

text \<open>A \<^verbatim>\<open>for\<close> loop over a slice whose body may leave the function.\<close>

fun res_fold :: "('s \<Rightarrow> 'a \<Rightarrow> ('s, 'e) outcome) \<Rightarrow> 's \<Rightarrow> 'a list \<Rightarrow> ('s, 'e) outcome" where
  "res_fold f s [] = Ret s"
| "res_fold f s (x # xs) = res_bind (f s x) (\<lambda>s'. res_fold f s' xs)"

lemma res_bind_Ret_iff [simp]:
  "res_bind m f = Ret y \<longleftrightarrow> (\<exists>x. m = Ret x \<and> f x = Ret y)"
  by (cases m) auto

lemma res_bind_Fail_iff:
  "res_bind m f = Fail e \<longleftrightarrow> m = Fail e \<or> (\<exists>x. m = Ret x \<and> f x = Fail e)"
  by (cases m) auto

lemma res_bind_Panic_iff:
  "res_bind m f = Panic \<longleftrightarrow> m = Panic \<or> (\<exists>x. m = Ret x \<and> f x = Panic)"
  by (cases m) auto

lemma res_bind_assoc:
  "res_bind (res_bind m f) g = res_bind m (\<lambda>x. res_bind (f x) g)"
  by (cases m) auto

lemma res_map_err_Ret_iff [simp]: "res_map_err g m = Ret x \<longleftrightarrow> m = Ret x"
  by (cases m) auto

lemma res_map_err_Panic_iff [simp]: "res_map_err g m = Panic \<longleftrightarrow> m = Panic"
  by (cases m) auto

text \<open>An invariant that every body keeps holds after the loop.\<close>

lemma res_fold_invariant:
  assumes "res_fold f s xs = Ret s'" and "I s"
    and "\<And>s x t. I s \<Longrightarrow> x \<in> set xs \<Longrightarrow> f s x = Ret t \<Longrightarrow> I t"
  shows "I s'"
  using assms
proof (induction xs arbitrary: s)
  case Nil
  then show ?case by simp
next
  case (Cons x xs)
  from Cons.prems(1) obtain t where t: "f s x = Ret t" "res_fold f t xs = Ret s'"
    by auto
  have "I t" using Cons.prems(3)[OF Cons.prems(2) _ t(1)] by simp
  then show ?case
  proof (rule Cons.IH[OF t(2)])
    fix s y t assume "I s" "y \<in> set xs" "f s y = Ret t"
    then show "I t" by (intro Cons.prems(3)[of s y t]) simp_all
  qed
qed

lemma res_fold_append:
  "res_fold f s (xs @ ys) = res_bind (res_fold f s xs) (\<lambda>t. res_fold f t ys)"
  by (induction xs arbitrary: s) (auto simp: res_bind_assoc)

section \<open>Stateful code\<close>

text \<open>
  A method on \<^verbatim>\<open>&mut self\<close>, or code that owns resources: the state it leaves is there on
  every outcome, errors included.
\<close>

type_synonym ('s, 'a, 'e) sm = "'s \<Rightarrow> ('a, 'e) outcome \<times> 's"

definition ret :: "'a \<Rightarrow> ('s, 'a, 'e) sm" where
  "ret x s = (Ret x, s)"

definition fail :: "'e \<Rightarrow> ('s, 'a, 'e) sm" where
  "fail e s = (Fail e, s)"

definition abort :: "('s, 'a, 'e) sm" where
  "abort s = (Panic, s)"

definition bnd :: "('s, 'a, 'e) sm \<Rightarrow> ('a \<Rightarrow> ('s, 'b, 'e) sm) \<Rightarrow> ('s, 'b, 'e) sm" where
  "bnd m f s =
     (case m s of
        (Ret x, s') \<Rightarrow> f x s'
      | (Fail e, s') \<Rightarrow> (Fail e, s')
      | (Panic, s') \<Rightarrow> (Panic, s'))"

text \<open>\<^verbatim>\<open>Option::ok_or\<close> with \<^verbatim>\<open>?\<close>, and \<^verbatim>\<open>map_err\<close>.\<close>

definition ok_or :: "'e \<Rightarrow> 'a option \<Rightarrow> ('s, 'a, 'e) sm" where
  "ok_or e m = (case m of Some x \<Rightarrow> ret x | None \<Rightarrow> fail e)"

definition map_err :: "('e \<Rightarrow> 'f) \<Rightarrow> ('s, 'a, 'e) sm \<Rightarrow> ('s, 'a, 'f) sm" where
  "map_err g m s = (case m s of (r, s') \<Rightarrow> (res_map_err g r, s'))"

definition lift_outcome :: "('a, 'e) outcome \<Rightarrow> ('s, 'a, 'e) sm" where
  "lift_outcome r s = (r, s)"

text \<open>A \<^verbatim>\<open>for\<close> loop.\<close>

fun loop :: "('x \<Rightarrow> 'a \<Rightarrow> ('s, 'x, 'e) sm) \<Rightarrow> 'x \<Rightarrow> 'a list \<Rightarrow> ('s, 'x, 'e) sm" where
  "loop f x [] = ret x"
| "loop f x (a # as) = bnd (f x a) (\<lambda>x'. loop f x' as)"

lemma sm_simps [simp]:
  "ret x s = (Ret x, s)" "fail e s = (Fail e, s)" "abort s = (Panic, s)" "lift_outcome r s = (r, s)"
  by (simp_all add: ret_def fail_def abort_def lift_outcome_def)

lemma bnd_simps [simp]:
  "m s = (Ret x, s') \<Longrightarrow> bnd m f s = f x s'"
  "m s = (Fail e, s') \<Longrightarrow> bnd m f s = (Fail e, s')"
  "m s = (Panic, s') \<Longrightarrow> bnd m f s = (Panic, s')"
  by (simp_all add: bnd_def)

lemma bnd_RetE:
  assumes "bnd m f s = (Ret y, t)"
  obtains x s' where "m s = (Ret x, s')" "f x s' = (Ret y, t)"
  using assms by (auto simp: bnd_def split: prod.splits outcome.splits)

lemma bnd_cases:
  assumes "bnd m f s = (r, t)"
  obtains (ok) x s' where "m s = (Ret x, s')" "f x s' = (r, t)"
  | (err) e where "m s = (Fail e, t)" "r = Fail e"
  | (panic) "m s = (Panic, t)" "r = Panic"
  using assms by (auto simp: bnd_def split: prod.splits outcome.splits)

lemma loop_invariant:
  assumes "loop f x as s = (Ret y, s')" and "I x"
    and "\<And>x a s x' s'. a \<in> set as \<Longrightarrow> I x \<Longrightarrow> f x a s = (Ret x', s') \<Longrightarrow> I x'"
  shows "I y"
  using assms
proof (induction as arbitrary: x s)
  case (Cons a as)
  from Cons.prems(1) obtain x' t where "f x a s = (Ret x', t)" "loop f x' as t = (Ret y, s')"
    by (auto elim: bnd_RetE)
  with Cons show ?case by (metis list.set_intros)
qed simp

lemma map_err_simps [simp]:
  "m s = (r, s') \<Longrightarrow> map_err g m s = (res_map_err g r, s')"
  by (simp add: map_err_def)

lemma ok_or_simps [simp]:
  "ok_or e (Some x) = ret x" "ok_or e None = fail e"
  by (simp_all add: ok_or_def)

text \<open>\<^verbatim>\<open>Option::unwrap_or\<close>.\<close>

definition unwrap_or :: "'a option \<Rightarrow> 'a \<Rightarrow> 'a" where
  "unwrap_or m d = (case m of None \<Rightarrow> d | Some x \<Rightarrow> x)"

section \<open>Little-endian bytes\<close>

fun nat_to_le :: "nat \<Rightarrow> nat \<Rightarrow> u8 list" where
  "nat_to_le 0 x = []"
| "nat_to_le (Suc n) x = word_of_nat (x mod 256) # nat_to_le n (x div 256)"

fun le_to_nat :: "u8 list \<Rightarrow> nat" where
  "le_to_nat [] = 0"
| "le_to_nat (b # bs) = unat b + 256 * le_to_nat bs"

definition from_le_bytes :: "u8 list \<Rightarrow> 'a::len word" where
  "from_le_bytes bs = word_of_nat (le_to_nat bs)"

definition to_le_bytes :: "nat \<Rightarrow> 'a::len word \<Rightarrow> u8 list" where
  "to_le_bytes n w = nat_to_le n (unat w)"

lemma length_nat_to_le [simp]: "length (nat_to_le n x) = n"
  by (induction n arbitrary: x) auto

lemma length_to_le_bytes [simp]: "length (to_le_bytes n w) = n"
  by (simp add: to_le_bytes_def)

lemma unat_of_nat_mod_256: "unat (word_of_nat (x mod 256) :: u8) = x mod 256"
  by (simp add: unat_of_nat)

lemma le_to_nat_inverse: "le_to_nat (nat_to_le n x) = x mod 256 ^ n"
proof (induction n arbitrary: x)
  case 0
  then show ?case by simp
next
  case (Suc n)
  have "x mod 256 + 256 * (x div 256 mod 256 ^ n) = x mod (256 * 256 ^ n)"
    by (simp add: mod_mult2_eq)
  then show ?case
    using Suc.IH[of "x div 256"] by (simp add: unat_of_nat)
qed

lemma from_to_le_bytes:
  fixes w :: "'a::len word"
  assumes "8 * n = LENGTH('a)"
  shows "from_le_bytes (to_le_bytes n w) = w"
proof -
  have "(256::nat) ^ n = 2 ^ (8 * n)" by (simp add: power_mult)
  then have "unat w < 256 ^ n"
    using assms unsigned_less[of w] by simp
  then show ?thesis
    by (simp add: from_le_bytes_def to_le_bytes_def le_to_nat_inverse)
qed

section \<open>Strings and UTF-8\<close>

definition byte_of_char :: "char \<Rightarrow> u8" where
  "byte_of_char c = word_of_nat (of_char c)"

definition char_of_byte :: "u8 \<Rightarrow> char" where
  "char_of_byte b = char_of (unat b)"

text \<open>\<^verbatim>\<open>as_bytes\<close> and the unchecked inverse of it.\<close>

definition as_bytes :: "string \<Rightarrow> u8 list" where
  "as_bytes s = map byte_of_char s"

definition of_bytes :: "u8 list \<Rightarrow> string" where
  "of_bytes bs = map char_of_byte bs"

lemma char_of_byte_of_char [simp]: "char_of_byte (byte_of_char c) = c"
proof -
  have "(of_char c :: nat) < 256"
    using of_char_mod_256[of c] mod_less_divisor[of 256 "of_char c"] by simp
  then show ?thesis by (simp add: byte_of_char_def char_of_byte_def unat_of_nat)
qed

lemma byte_of_char_of_byte [simp]: "byte_of_char (char_of_byte b) = b"
proof -
  have "unat b < 256" using unsigned_less[of b] by simp
  then show ?thesis by (simp add: byte_of_char_def char_of_byte_def)
qed

lemma of_bytes_as_bytes [simp]: "of_bytes (as_bytes s) = s"
  by (induction s) (simp_all add: as_bytes_def of_bytes_def)

lemma as_bytes_of_bytes [simp]: "as_bytes (of_bytes bs) = bs"
  by (induction bs) (simp_all add: as_bytes_def of_bytes_def)

lemma length_as_bytes [simp]: "length (as_bytes s) = length s"
  by (simp add: as_bytes_def)

lemma length_of_bytes [simp]: "length (of_bytes bs) = length bs"
  by (simp add: of_bytes_def)

lemma as_bytes_inject [simp]: "as_bytes s = as_bytes t \<longleftrightarrow> s = t"
  by (metis of_bytes_as_bytes)

lemma as_bytes_append [simp]: "as_bytes (s @ t) = as_bytes s @ as_bytes t"
  by (simp add: as_bytes_def)

text \<open>
  One step of the standard library's validator at the head of a byte string:
  \<open>(True, n)\<close> for a well-formed character of \<open>n\<close> bytes, \<open>(False, n)\<close> for an ill-formed
  sequence whose longest valid prefix has \<open>n\<close> bytes (at least one).
\<close>

definition utf8_width :: "u8 \<Rightarrow> nat" where
  "utf8_width b =
     (if b < 0x80 then 1
      else if 0xC2 \<le> b \<and> b \<le> 0xDF then 2
      else if 0xE0 \<le> b \<and> b \<le> 0xEF then 3
      else if 0xF0 \<le> b \<and> b \<le> 0xF4 then 4 else 0)"

definition utf8_cont :: "u8 \<Rightarrow> bool" where
  "utf8_cont b \<longleftrightarrow> 0x80 \<le> b \<and> b \<le> 0xBF"

definition utf8_second :: "u8 \<Rightarrow> u8 \<Rightarrow> bool" where
  "utf8_second lead b \<longleftrightarrow>
     (if lead = 0xE0 then 0xA0 \<le> b \<and> b \<le> 0xBF
      else if lead = 0xED then 0x80 \<le> b \<and> b \<le> 0x9F
      else if lead = 0xF0 then 0x90 \<le> b \<and> b \<le> 0xBF
      else if lead = 0xF4 then 0x80 \<le> b \<and> b \<le> 0x8F
      else utf8_cont b)"

definition byte_at :: "u8 list \<Rightarrow> nat \<Rightarrow> u8" where
  "byte_at bs i = (if i < length bs then bs ! i else 0)"

fun utf8_step :: "u8 list \<Rightarrow> bool \<times> nat" where
  "utf8_step [] = (False, 1)"
| "utf8_step (b # bs) =
     (let w = utf8_width b in
      if w = 1 then (True, 1)
      else if w = 0 then (False, 1)
      else if \<not> utf8_second b (byte_at bs 0) then (False, 1)
      else if w = 2 then (True, 2)
      else if \<not> utf8_cont (byte_at bs 1) then (False, 2)
      else if w = 3 then (True, 3)
      else if \<not> utf8_cont (byte_at bs 2) then (False, 3)
      else (True, 4))"

lemma utf8_width_cases: "utf8_width b \<in> {0, 1, 2, 3, 4}"
  by (simp add: utf8_width_def)

lemma utf8_step_True_iff:
  "utf8_step (b # bs) = (True, n) \<longleftrightarrow>
     n = utf8_width b \<and> 0 < n \<and> (2 \<le> n \<longrightarrow> utf8_second b (byte_at bs 0)) \<and>
     (3 \<le> n \<longrightarrow> utf8_cont (byte_at bs 1)) \<and> (4 \<le> n \<longrightarrow> utf8_cont (byte_at bs 2))"
proof -
  consider "utf8_width b = 0" | "utf8_width b = 1" | "utf8_width b = 2"
    | "utf8_width b = 3" | "utf8_width b = 4"
    using utf8_width_cases[of b] by auto
  then show ?thesis by cases (auto split: if_splits)
qed

lemma utf8_step_pos: "0 < snd (utf8_step bs)"
  by (cases bs) (simp_all add: Let_def)

lemma utf8_second_nonzero: "\<not> utf8_second lead 0"
  by (simp add: utf8_second_def utf8_cont_def)

lemma utf8_cont_nonzero: "\<not> utf8_cont 0"
  by (simp add: utf8_cont_def)

lemma utf8_second_at: "utf8_second lead (byte_at bs i) \<Longrightarrow> i < length bs"
  by (metis byte_at_def utf8_second_nonzero)

lemma utf8_cont_at: "utf8_cont (byte_at bs i) \<Longrightarrow> i < length bs"
  by (metis byte_at_def utf8_cont_nonzero)

lemma byte_at_append: "i < length bs \<Longrightarrow> byte_at (bs @ t) i = byte_at bs i"
  by (simp add: byte_at_def nth_append)

lemma byte_at_take: "i < n \<Longrightarrow> byte_at (take n bs) i = byte_at bs i"
  by (simp add: byte_at_def)

lemma utf8_step_True_length:
  assumes "utf8_step bs = (True, n)"
  shows "n \<le> length bs"
proof (cases bs)
  case Nil
  with assms show ?thesis by simp
next
  case (Cons b r)
  have "n \<in> {0, 1, 2, 3, 4}" and "2 \<le> n \<Longrightarrow> 0 < length r"
    and "3 \<le> n \<Longrightarrow> 1 < length r" and "4 \<le> n \<Longrightarrow> 2 < length r"
    using assms utf8_width_cases[of b] utf8_second_at[of b r 0] utf8_cont_at[of r 1] utf8_cont_at[of r 2]
    unfolding Cons utf8_step_True_iff by simp_all
  then show ?thesis by (auto simp: Cons Suc_le_eq)
qed

lemma utf8_step_True_append:
  assumes "utf8_step bs = (True, n)"
  shows "utf8_step (bs @ t) = (True, n)"
proof (cases bs)
  case Nil
  with assms show ?thesis by simp
next
  case (Cons b r)
  have "n \<le> Suc (length r)" using utf8_step_True_length[OF assms] Cons by simp
  then have "byte_at (r @ t) i = byte_at r i" if "i + 2 \<le> n" for i
    using that by (intro byte_at_append) simp
  from this[of 0] this[of 1] this[of 2] show ?thesis
    using assms unfolding Cons append_Cons utf8_step_True_iff by auto
qed

lemma utf8_step_take:
  assumes "utf8_step bs = (True, n)"
  shows "utf8_step (take n bs) = (True, n)"
proof (cases bs)
  case Nil
  with assms show ?thesis by simp
next
  case (Cons b r)
  from assms have "0 < n" unfolding Cons utf8_step_True_iff by simp
  then obtain m where m: "n = Suc m" by (cases n) auto
  show ?thesis
    using assms unfolding Cons m take_Suc_Cons utf8_step_True_iff by (simp add: byte_at_take)
qed

text \<open>\<^verbatim>\<open>String::from_utf8\<close> accepts exactly the byte strings for which this holds.\<close>

function utf8_valid :: "u8 list \<Rightarrow> bool" where
  "utf8_valid bs =
     (if bs = [] then True
      else if fst (utf8_step bs) then utf8_valid (drop (snd (utf8_step bs)) bs) else False)"
  by pat_completeness auto
termination
  by (relation "measure length") (simp_all add: utf8_step_pos)

text \<open>\<^verbatim>\<open>String::from_utf8_lossy\<close>: each ill-formed sequence becomes U+FFFD.\<close>

function utf8_lossy :: "u8 list \<Rightarrow> u8 list" where
  "utf8_lossy bs =
     (if bs = [] then []
      else (let (ok, n) = utf8_step bs in
            (if ok then take n bs else [0xEF, 0xBF, 0xBD]) @ utf8_lossy (drop n bs)))"
  by pat_completeness auto
termination
proof (relation "measure length")
  fix bs :: "u8 list" and x ok n
  assume "bs \<noteq> []" "x = utf8_step bs" "(ok, n) = x"
  then show "(drop n bs, bs) \<in> measure length"
    using utf8_step_pos[of bs] by (cases "utf8_step bs") simp
qed simp

declare utf8_valid.simps [simp del] utf8_lossy.simps [simp del]

lemma utf8_valid_Nil [simp]: "utf8_valid []"
  by (subst utf8_valid.simps) simp

lemma utf8_lossy_Nil [simp]: "utf8_lossy [] = []"
  by (subst utf8_lossy.simps) simp

lemma utf8_valid_step:
  assumes "utf8_step bs = (True, n)"
  shows "utf8_valid bs = utf8_valid (drop n bs)"
  using assms by (cases "bs = []") (simp_all add: utf8_valid.simps[of bs])

lemma utf8_valid_append:
  "utf8_valid xs \<Longrightarrow> utf8_valid ys \<Longrightarrow> utf8_valid (xs @ ys)"
proof (induction xs rule: utf8_valid.induct)
  case (1 xs)
  show ?case
  proof (cases "xs = []")
    case False
    obtain ok n where step: "utf8_step xs = (ok, n)" by fastforce
    with False "1.prems"(1) have ok: "ok" and rest: "utf8_valid (drop n xs)"
      by (simp_all add: utf8_valid.simps[of xs] split: if_splits)
    from step ok have st: "utf8_step xs = (True, n)" by simp
    have "utf8_valid (drop n xs @ ys)"
      using "1.IH" False st rest "1.prems"(2) by simp
    then show ?thesis
      using utf8_valid_step[OF utf8_step_True_append[OF st, of ys]]
        utf8_step_True_length[OF st] by simp
  qed (use "1.prems" in simp)
qed

lemma utf8_valid_concat: "(\<And>x. x \<in> set xss \<Longrightarrow> utf8_valid x) \<Longrightarrow> utf8_valid (concat xss)"
  by (induction xss) (auto intro: utf8_valid_append)

text \<open>On valid input the lossy conversion changes nothing.\<close>

lemma utf8_lossy_valid: "utf8_valid bs \<Longrightarrow> utf8_lossy bs = bs"
proof (induction bs rule: utf8_valid.induct)
  case (1 bs)
  show ?case
  proof (cases "bs = []")
    case False
    obtain ok n where step: "utf8_step bs = (ok, n)" by fastforce
    with False "1.prems" have ok: "ok" and rest: "utf8_valid (drop n bs)"
      by (simp_all add: utf8_valid.simps[of bs] split: if_splits)
    have "utf8_lossy (drop n bs) = drop n bs"
      using "1.IH" False step ok rest by simp
    then show ?thesis using False step ok by (simp add: utf8_lossy.simps[of bs])
  qed simp
qed

lemma utf8_valid_replacement: "utf8_valid [0xEF, 0xBF, 0xBD]"
proof -
  have "utf8_step [0xEF, 0xBF, 0xBD] = (True, 3)"
    by (simp add: utf8_width_def utf8_second_def utf8_cont_def byte_at_def)
  from utf8_valid_step[OF this] show ?thesis by simp
qed

lemma utf8_valid_lossy: "utf8_valid (utf8_lossy bs)"
proof (induction bs rule: utf8_lossy.induct)
  case (1 bs)
  show ?case
  proof (cases "bs = []")
    case False
    obtain ok n where step: "utf8_step bs = (ok, n)" by fastforce
    have rest: "utf8_valid (utf8_lossy (drop n bs))"
      using "1.IH"[OF False step[symmetric] refl] .
    have head: "utf8_valid (if ok then take n bs else [0xEF, 0xBF, 0xBD])"
    proof (cases ok)
      case True
      with step have "utf8_step (take n bs) = (True, n)" by (simp add: utf8_step_take)
      then have "utf8_valid (take n bs) = utf8_valid (drop n (take n bs))"
        by (rule utf8_valid_step)
      then show ?thesis using True by simp
    qed (simp add: utf8_valid_replacement)
    show ?thesis
      using utf8_valid_append[OF head rest] False step
      by (simp add: utf8_lossy.simps[of bs])
  qed simp
qed

text \<open>ASCII text is valid.\<close>

lemma utf8_valid_ascii: "\<forall>b\<in>set bs. b < 0x80 \<Longrightarrow> utf8_valid bs"
proof (induction bs)
  case (Cons b bs)
  then have "utf8_step (b # bs) = (True, 1)" by (simp add: utf8_width_def)
  from utf8_valid_step[OF this] Cons show ?case by simp
qed simp

section \<open>Decimal numbers\<close>

text \<open>\<^verbatim>\<open>format!("{}", n)\<close> of an unsigned integer.\<close>

fun dec_digits :: "nat \<Rightarrow> string" where
  "dec_digits n =
     (if n < 10 then [char_of (48 + n)] else dec_digits (n div 10) @ [char_of (48 + n mod 10)])"

declare dec_digits.simps [simp del]

end
