(* ===== verification/Ieee_Float.thy ===== *)
theory Ieee_Float imports Prelude begin

text \<open>
  IEEE 754 binary32 and binary64, as Rust's \<^verbatim>\<open>f32\<close> and \<^verbatim>\<open>f64\<close>: a value is its bit
  pattern, arithmetic is exact on naturals and rounded to nearest, ties to even.

  A finite magnitude with bit pattern \<open>m\<close> (the pattern without its sign bit) stands for
  \<open>unit_val fb m\<close> times the smallest subnormal, so every sum, product and quotient is a
  rational \<open>N / D\<close> in that unit and \<open>round_mag\<close> maps it to a bit pattern. Bit
  patterns of magnitudes are ordered as the numbers they stand for. NaN results carry
  the canonical quiet payload; Rust leaves the payload open and nothing below reads it.
  The lemmas show that rounding is monotone and exact on representable values.
\<close>

section \<open>Rounding\<close>

fun bit_len :: "nat \<Rightarrow> nat" where
  "bit_len n = (if n = 0 then 0 else Suc (bit_len (n div 2)))"

declare bit_len.simps [simp del]

definition rne :: "nat \<Rightarrow> nat \<Rightarrow> nat" where
  "rne n d =
     (let q = n div d; r = n mod d in
      if 2 * r < d then q else if d < 2 * r then q + 1 else if even q then q else q + 1)"

definition unit_val :: "nat \<Rightarrow> nat \<Rightarrow> nat" where
  "unit_val fb m =
     (let e = m div 2 ^ fb; f = m mod 2 ^ fb in
      if e = 0 then f else (f + 2 ^ fb) * 2 ^ (e - 1))"

definition inf_mag :: "nat \<Rightarrow> nat \<Rightarrow> nat" where
  "inf_mag fb eb = (2 ^ eb - 1) * 2 ^ fb"

definition round_shift :: "nat \<Rightarrow> nat \<Rightarrow> nat \<Rightarrow> nat" where
  "round_shift fb n d = bit_len (n div d) - (fb + 1)"

definition round_mag :: "nat \<Rightarrow> nat \<Rightarrow> nat \<Rightarrow> nat \<Rightarrow> nat" where
  "round_mag fb eb n d =
     (let s = round_shift fb n d
      in min (inf_mag fb eb) (s * 2 ^ fb + rne n (d * 2 ^ s)))"

text \<open>The exponent of the unit is minus this: 149 for binary32, 1074 for binary64.\<close>

definition unit_exp :: "nat \<Rightarrow> nat \<Rightarrow> nat" where
  "unit_exp fb eb = fb + 2 ^ (eb - 1) - 2"

fun isqrt :: "nat \<Rightarrow> nat" where
  "isqrt n =
     (if n = 0 then 0
      else (let r = 2 * isqrt (n div 4) in if (r + 1) * (r + 1) \<le> n then r + 1 else r))"

declare isqrt.simps [simp del]

subsection \<open>Nearest, ties to even\<close>

lemma rne_bounds: "n div d \<le> rne n d" "rne n d \<le> n div d + 1"
  by (simp_all add: rne_def Let_def)

lemma rne_exact: "0 < k \<Longrightarrow> rne (m * k) k = m"
  by (simp add: rne_def)

lemma rne_mono:
  assumes "0 < d" "0 < d'" and le: "n * d' \<le> n' * d"
  shows "rne n d \<le> rne n' d'"
proof -
  define q r q' r' where qr: "q = n div d" "r = n mod d" "q' = n' div d'" "r' = n' mod d'"
  have n: "n = q * d + r" "n' = q' * d' + r'" and r: "r < d" "r' < d'"
    using assms by (simp_all add: qr)
  have "q * d * d' \<le> n * d'" by (simp add: n algebra_simps)
  also have "\<dots> \<le> n' * d" by (rule le)
  also have "\<dots> < (q' + 1) * d' * d"
    using n r assms by (simp add: algebra_simps)
  finally have "q * (d * d') < (q' + 1) * (d * d')" by (simp only: ac_simps)
  then have "q < q' + 1" using mult_less_cancel2 by blast
  then have "q \<le> q'" by simp
  show ?thesis
  proof (cases "q = q'")
    case True
    with le n have rr: "r * d' \<le> r' * d" by (simp add: algebra_simps)
    have small: "2 * r \<le> d" if "2 * r' \<le> d'"
    proof -
      have "2 * (r * d') \<le> 2 * (r' * d)" using rr by simp
      also have "\<dots> = (2 * r') * d" by simp
      also have "\<dots> \<le> d' * d" using that by (intro mult_right_mono) auto
      finally have "(2 * r) * d' \<le> d * d'" by (simp add: algebra_simps)
      then show ?thesis using assms by simp
    qed
    have strict: "2 * r < d" if "2 * r' < d'"
    proof -
      have "2 * (r * d') \<le> 2 * (r' * d)" using rr by simp
      also have "\<dots> = (2 * r') * d" by simp
      also have "\<dots> < d' * d" using that assms by (intro mult_strict_right_mono) auto
      finally have "(2 * r) * d' < d * d'" by (simp add: algebra_simps)
      then show ?thesis using assms by simp
    qed
    show ?thesis using True small strict
      unfolding rne_def Let_def qr[symmetric] by auto
  next
    case False
    with \<open>q \<le> q'\<close> have "q + 1 \<le> q'" by simp
    then show ?thesis using rne_bounds[of n d] rne_bounds[of n' d'] qr by simp
  qed
qed

subsection \<open>Bit lengths\<close>

lemma bit_len_0 [simp]: "bit_len 0 = 0"
  by (simp add: bit_len.simps)

lemma bit_len_bounds: "0 < n \<Longrightarrow> 2 ^ (bit_len n - 1) \<le> n \<and> n < 2 ^ bit_len n"
proof (induction n rule: bit_len.induct)
  case (1 n)
  show ?case
  proof (cases "n div 2 = 0")
    case True
    with "1.prems" have "n = 1" by simp
    then show ?thesis by (simp add: bit_len.simps)
  next
    case False
    with "1.IH" "1.prems"
    have IH: "2 ^ (bit_len (n div 2) - 1) \<le> n div 2" "n div 2 < 2 ^ bit_len (n div 2)" by auto
    have len: "bit_len n = Suc (bit_len (n div 2))" using "1.prems" by (simp add: bit_len.simps[of n])
    have pos: "0 < bit_len (n div 2)" using False by (simp add: bit_len.simps[of "n div 2"])
    have "(2::nat) ^ bit_len (n div 2) = 2 * 2 ^ (bit_len (n div 2) - 1)"
      using pos by (cases "bit_len (n div 2)") auto
    moreover have "n = 2 * (n div 2) + n mod 2" "n mod 2 < 2" by simp_all
    ultimately have "2 ^ bit_len (n div 2) \<le> n" "n < 2 * 2 ^ bit_len (n div 2)"
      using IH by linarith+
    then show ?thesis unfolding len by simp
  qed
qed

lemma bit_len_mono: "m \<le> n \<Longrightarrow> bit_len m \<le> bit_len n"
proof (induction m arbitrary: n rule: bit_len.induct)
  case (1 m)
  show ?case
  proof (cases "m = 0")
    case False
    then have "bit_len (m div 2) \<le> bit_len (n div 2)"
      using "1.IH" "1.prems" by (simp add: div_le_mono)
    then show ?thesis using False "1.prems" by (simp add: bit_len.simps[of m] bit_len.simps[of n])
  qed simp
qed

lemma bit_len_unique: "2 ^ k \<le> n \<Longrightarrow> n < 2 ^ Suc k \<Longrightarrow> bit_len n = Suc k"
proof -
  assume a: "2 ^ k \<le> n" "n < 2 ^ Suc k"
  then have "0 < n" using gr_zeroI by fastforce
  from bit_len_bounds[OF this]
  have b: "2 ^ (bit_len n - 1) \<le> n" "n < 2 ^ bit_len n" by auto
  have "(2::nat) ^ k < 2 ^ bit_len n" by (rule order.strict_trans1[OF a(1) b(2)])
  then have "k < bit_len n" by simp
  moreover have "(2::nat) ^ (bit_len n - 1) < 2 ^ Suc k" by (rule order.strict_trans1[OF b(1) a(2)])
  then have "bit_len n - 1 < Suc k" by (simp only: power_strict_increasing_iff one_less_numeral_iff semiring_norm(76))
  ultimately show ?thesis by simp
qed

subsection \<open>Rounding is monotone\<close>

lemma div_le_div_cross:
  fixes n d n' d' :: nat
  assumes "0 < d" "0 < d'" "n * d' \<le> n' * d"
  shows "n div d \<le> n' div d'"
proof -
  have "(n div d) * d * d' \<le> n * d'" by (intro mult_right_mono) auto
  also have "\<dots> \<le> n' * d" by (rule assms)
  finally have "(n div d * d') * d \<le> n' * d" by (simp only: ac_simps)
  then have "n div d * d' \<le> n'" using assms(1) by simp
  then show ?thesis using assms(2) by (simp add: less_eq_div_iff_mult_less_eq)
qed

lemma rne_below_shift:
  assumes "0 < d"
  shows "rne n (d * 2 ^ round_shift fb n d) \<le> 2 ^ (fb + 1)"
proof -
  let ?t = "n div d" and ?s = "round_shift fb n d"
  have "?t < 2 ^ bit_len ?t" by (cases "?t = 0") (use bit_len_bounds[of ?t] in auto)
  also have "\<dots> \<le> 2 ^ (?s + (fb + 1))" by (intro power_increasing) (auto simp: round_shift_def)
  finally have "?t div 2 ^ ?s < 2 ^ (fb + 1)"
    by (subst div_less_iff_less_mult) (simp_all add: power_add ac_simps)
  then have "n div (d * 2 ^ ?s) < 2 ^ (fb + 1)" by (simp add: div_mult2_eq)
  then show ?thesis using rne_bounds(2)[of n "d * 2 ^ ?s"] by linarith
qed

lemma rne_above_shift:
  assumes "0 < d" and "0 < round_shift fb n d"
  shows "2 ^ fb \<le> rne n (d * 2 ^ round_shift fb n d)"
proof -
  let ?t = "n div d" and ?s = "round_shift fb n d"
  have "?t \<noteq> 0" using assms(2) unfolding round_shift_def by (intro notI) simp
  then have "2 ^ (bit_len ?t - 1) \<le> ?t" using bit_len_bounds[of ?t] by simp
  moreover have "bit_len ?t - 1 = fb + ?s" using assms(2) by (simp add: round_shift_def)
  ultimately have "2 ^ fb \<le> ?t div 2 ^ ?s"
    by (subst less_eq_div_iff_mult_less_eq) (simp_all add: power_add)
  then have "2 ^ fb \<le> n div (d * 2 ^ ?s)" by (simp add: div_mult2_eq)
  then show ?thesis using rne_bounds(1)[of n "d * 2 ^ ?s"] by linarith
qed

lemma round_mag_mono:
  assumes "0 < d" "0 < d'" and le: "n * d' \<le> n' * d"
  shows "round_mag fb eb n d \<le> round_mag fb eb n' d'"
proof -
  define s s' where s: "s = round_shift fb n d" "s' = round_shift fb n' d'"
  have "s \<le> s'"
    using bit_len_mono[OF div_le_div_cross[OF assms]] by (simp add: s round_shift_def)
  have "s * 2 ^ fb + rne n (d * 2 ^ s) \<le> s' * 2 ^ fb + rne n' (d' * 2 ^ s')"
  proof (cases "s = s'")
    case True
    have "n * (d' * 2 ^ s) = n * d' * 2 ^ s" "n' * d * 2 ^ s = n' * (d * 2 ^ s)"
      by (simp_all only: ac_simps)
    then have "n * (d' * 2 ^ s) \<le> n' * (d * 2 ^ s)"
      using mult_right_mono[OF le, of "2 ^ s"] by simp
    then show ?thesis using rne_mono[of "d * 2 ^ s" "d' * 2 ^ s" n n'] assms True by simp
  next
    case False
    with \<open>s \<le> s'\<close> have "s < s'" by simp
    have "s * 2 ^ fb + rne n (d * 2 ^ s) \<le> (s + 1) * 2 ^ fb + 2 ^ fb"
      using rne_below_shift[OF assms(1), of n fb] by (simp add: s)
    also have "\<dots> \<le> s' * 2 ^ fb + 2 ^ fb"
      using \<open>s < s'\<close> mult_right_mono[of "s + 1" s' "2 ^ fb"] by simp
    also have "\<dots> \<le> s' * 2 ^ fb + rne n' (d' * 2 ^ s')"
      using rne_above_shift[OF assms(2), of fb n'] \<open>s < s'\<close> by (simp add: s)
    finally show ?thesis .
  qed
  then show ?thesis by (auto simp: round_mag_def Let_def s)
qed

lemma round_mag_le_inf: "round_mag fb eb n d \<le> inf_mag fb eb"
  by (simp add: round_mag_def Let_def)

subsection \<open>Rounding is exact on representable magnitudes\<close>

lemma unit_val_small: "m < 2 ^ (fb + 1) \<Longrightarrow> unit_val fb m = m"
proof -
  assume "m < 2 ^ (fb + 1)"
  then have "m div 2 ^ fb < 2" by (simp add: div_less_iff_less_mult)
  then consider "m div 2 ^ fb = 0" | "m div 2 ^ fb = 1" by linarith
  then show ?thesis
  proof cases
    case 1
    then show ?thesis by (simp add: unit_val_def Let_def div_eq_0_iff)
  next
    case 2
    then show ?thesis
      using div_mult_mod_eq[of m "2 ^ fb"] by (simp add: unit_val_def Let_def)
  qed
qed

lemma unit_val_large:
  assumes "2 ^ (fb + 1) \<le> m"
  obtains f s where "m = (s + 1) * 2 ^ fb + f" "f < 2 ^ fb" "0 < s"
    and "unit_val fb m = (f + 2 ^ fb) * 2 ^ s"
proof -
  have e: "2 \<le> m div 2 ^ fb"
    using assms by (subst less_eq_div_iff_mult_less_eq) simp_all
  have "m = (m div 2 ^ fb - 1 + 1) * 2 ^ fb + m mod 2 ^ fb"
    using e div_mult_mod_eq[of m "2 ^ fb"] by simp
  moreover have "unit_val fb m = (m mod 2 ^ fb + 2 ^ fb) * 2 ^ (m div 2 ^ fb - 1)"
    using e by (simp add: unit_val_def Let_def)
  ultimately show thesis using e by (intro that[of "m div 2 ^ fb - 1" "m mod 2 ^ fb"]) auto
qed

lemma round_mag_exact:
  assumes "m \<le> inf_mag fb eb" and "0 < k"
  shows "round_mag fb eb (unit_val fb m * k) k = m"
proof (cases "m < 2 ^ (fb + 1)")
  case True
  have "bit_len m \<le> fb + 1"
  proof (cases "m = 0")
    case False
    then have "2 ^ (bit_len m - 1) \<le> m" using bit_len_bounds[of m] by simp
    then have "(2::nat) ^ (bit_len m - 1) < 2 ^ (fb + 1)" using True by (rule order.strict_trans1)
    then show ?thesis by (simp only: power_strict_increasing_iff one_less_numeral_iff semiring_norm(76))
  qed simp
  then have "round_shift fb (m * k) k = 0" using assms(2) by (simp add: round_shift_def)
  then show ?thesis
    using assms by (simp add: round_mag_def Let_def unit_val_small[OF True] rne_exact)
next
  case False
  then have "2 ^ (fb + 1) \<le> m" by simp
  then obtain f s where m: "m = (s + 1) * 2 ^ fb + f" "f < 2 ^ fb"
    and u: "unit_val fb m = (f + 2 ^ fb) * 2 ^ s"
    by (rule unit_val_large)
  have "bit_len ((f + 2 ^ fb) * 2 ^ s) = Suc (fb + s)"
    by (rule bit_len_unique) (use m(2) in \<open>auto simp: power_add algebra_simps\<close>)
  then have "round_shift fb (unit_val fb m * k) k = s"
    using assms(2) by (simp add: round_shift_def u)
  moreover have "rne (unit_val fb m * k) (k * 2 ^ s) = f + 2 ^ fb"
    using rne_exact[of "k * 2 ^ s" "f + 2 ^ fb"] assms(2) by (simp add: u ac_simps)
  ultimately show ?thesis using assms(1) m(1) by (simp add: round_mag_def Let_def)
qed

text \<open>Magnitude patterns are ordered as their values.\<close>

lemma unit_val_mono_strict:
  assumes "m < m'"
  shows "unit_val fb m < unit_val fb m'"
proof (rule ccontr)
  assume "\<not> unit_val fb m < unit_val fb m'"
  then have le: "unit_val fb m' \<le> unit_val fb m" by simp
  define eb where "eb = Suc m'"
  have "m' \<le> 2 ^ eb - 1" unfolding eb_def using less_exp[of "Suc m'"] by linarith
  then have big: "m' \<le> inf_mag fb eb"
    unfolding inf_mag_def using one_le_power[of "2::nat" fb]
    by (metis le_trans mult.right_neutral mult_le_mono2 one_le_numeral)
  have "round_mag fb eb (unit_val fb m' * 1) 1 \<le> round_mag fb eb (unit_val fb m * 1) 1"
    by (rule round_mag_mono) (use le in simp_all)
  then have "m' \<le> m"
    using big assms by (simp only: round_mag_exact zero_less_one order.strict_implies_order
        order.trans[OF order.strict_implies_order[OF assms] big])
  with assms show False by simp
qed

subsection \<open>Rounding a nearby quotient\<close>

lemma rne_near:
  assumes "0 < D" "2 * (q * D) < 2 * N + D" "2 * N < 2 * (q * D) + D"
  shows "rne N D = q"
proof (cases "q * D \<le> N")
  case True
  then obtain r where r: "N = q * D + r" using le_Suc_ex by blast
  then have "r < D" "2 * r < D" using assms by simp_all
  then show ?thesis using assms(1) r by (simp add: rne_def Let_def)
next
  case False
  then obtain p where p: "q = Suc p" by (cases q) auto
  have "p * D \<le> N" using assms(2) p False by simp
  then obtain r where r: "N = p * D + r" using le_Suc_ex by blast
  then have "r < D" "D < 2 * r" using assms False p by simp_all
  then show ?thesis using assms(1) r p by (simp add: rne_def Let_def)
qed

lemma bit_len_le: "n < 2 ^ k \<Longrightarrow> bit_len n \<le> k"
proof (cases "n = 0")
  case False
  assume "n < 2 ^ k"
  moreover have "2 ^ (bit_len n - 1) \<le> n" using bit_len_bounds[of n] False by simp
  ultimately have "(2::nat) ^ (bit_len n - 1) < 2 ^ k" by (rule order.strict_trans1[rotated])
  then have "bit_len n - 1 < k" by (simp only: power_strict_increasing_iff one_less_numeral_iff semiring_norm(76))
  then show ?thesis by simp
qed simp

text \<open>A quotient within half a unit of a representable magnitude is rounded to it.\<close>

lemma round_near:
  assumes "mag \<le> inf_mag fb eb" "0 < D"
    and lo: "2 * (unit_val fb mag * D) < 2 * N + D" and hi: "2 * N < 2 * (unit_val fb mag * D) + D"
  shows "round_mag fb eb N D = mag"
proof (cases "mag < 2 ^ (fb + 1)")
  case True
  then have u: "unit_val fb mag = mag" by (rule unit_val_small)
  have "N < (mag + 1) * D" using hi u by (simp add: algebra_simps)
  then have "N div D < mag + 1" using assms(2) by (simp add: div_less_iff_less_mult)
  then have "bit_len (N div D) \<le> fb + 1" using True by (intro bit_len_le) simp
  then have "round_shift fb N D = 0" by (simp add: round_shift_def)
  then show ?thesis using rne_near[OF assms(2), of mag N] lo hi u assms(1) by (simp add: round_mag_def)
next
  case False
  then have "2 ^ (fb + 1) \<le> mag" by simp
  then obtain f s where m: "mag = (s + 1) * 2 ^ fb + f" "f < 2 ^ fb" "0 < s"
    and u: "unit_val fb mag = (f + 2 ^ fb) * 2 ^ s" by (rule unit_val_large)
  let ?m = "(f + 2 ^ fb) * 2 ^ s"
  have t: "?m - 1 \<le> N div D" "N div D \<le> ?m"
  proof -
    have "0 < ?m" by simp
    then have "(?m - 1) * D \<le> N" using lo u by (cases ?m) simp_all
    then show "?m - 1 \<le> N div D" using assms(2) by (simp add: less_eq_div_iff_mult_less_eq)
    have "N < (?m + 1) * D" using hi u by (simp add: algebra_simps)
    then have "N div D < ?m + 1" using assms(2) by (simp add: div_less_iff_less_mult)
    then show "N div D \<le> ?m" by simp
  qed
  have below: "?m < 2 ^ Suc (fb + s)" using m(2) by (simp add: power_add)
  have D: "D \<le> D * 2 ^ k" for k by simp
  show ?thesis
  proof (cases "2 ^ (fb + s) \<le> N div D")
    case True
    then have "bit_len (N div D) = Suc (fb + s)" using t(2) below by (intro bit_len_unique) simp_all
    then have s: "round_shift fb N D = s" by (simp add: round_shift_def)
    have e: "(f + 2 ^ fb) * (D * 2 ^ s) = ?m * D" by (simp only: ac_simps)
    have "rne N (D * 2 ^ s) = f + 2 ^ fb"
    proof (rule rne_near; (unfold e)?)
      show "0 < D * 2 ^ s" using assms(2) by simp
    qed (use lo[unfolded u] hi[unfolded u] D[of s] in linarith)+
    then show ?thesis using m(1) s assms(1) by (simp add: round_mag_def Let_def)
  next
    case False
    obtain j where j: "s = Suc j" using m(3) by (cases s) auto
    have ge: "2 ^ (fb + s) \<le> ?m" by (simp add: power_add)
    then have eq: "?m = 2 ^ (fb + s)" "N div D = 2 ^ (fb + s) - 1" using False t by linarith+
    then have f: "f = 0" by (simp add: power_add)
    have "2 ^ (fb + j) \<le> N div D" "N div D < 2 ^ Suc (fb + j)"
      using eq(2) one_le_power[of "2::nat" "fb + j"] by (simp_all add: j)
    then have "bit_len (N div D) = Suc (fb + j)" by (rule bit_len_unique)
    then have s: "round_shift fb N D = j" by (simp add: round_shift_def)
    have e: "2 ^ (fb + 1) * (D * 2 ^ j) = ?m * D" by (simp add: f j ac_simps)
    have "rne N (D * 2 ^ j) = 2 ^ (fb + 1)"
    proof (rule rne_near; (unfold e)?)
      show "0 < D * 2 ^ j" using assms(2) by simp
    qed (use lo[unfolded u] hi[unfolded u] D[of j] in linarith)+
    then show ?thesis using m(1) f j s assms(1) by (simp add: round_mag_def Let_def)
  qed
qed


subsection \<open>Integer square roots\<close>

lemma isqrt_bounds: "isqrt n * isqrt n \<le> n \<and> n < (isqrt n + 1) * (isqrt n + 1)"
proof (induction n rule: isqrt.induct)
  case (1 n)
  show ?case
  proof (cases "n = 0")
    case False
    let ?r = "isqrt (n div 4)"
    have ih: "?r * ?r \<le> n div 4" "n div 4 < (?r + 1) * (?r + 1)" using 1 False by auto
    have q: "4 * (n div 4) \<le> n" "n < 4 * (n div 4 + 1)" by simp_all
    have "4 * (?r * ?r) \<le> n" using ih(1) q(1) by linarith
    moreover have "n div 4 + 1 \<le> (?r + 1) * (?r + 1)" using ih(2) by linarith
    then have "n < 4 * ((?r + 1) * (?r + 1))" using q(2) by linarith
    ultimately have "4 * (?r * ?r) \<le> n \<and> n < 4 * ((?r + 1) * (?r + 1))" ..
    then show ?thesis using False by (simp add: isqrt.simps[of n] Let_def algebra_simps)
  qed (simp add: isqrt.simps)
qed

lemma isqrtI: "t * t \<le> n \<Longrightarrow> n < (t + 1) * (t + 1) \<Longrightarrow> isqrt n = t"
proof -
  assume a: "t * t \<le> n" "n < (t + 1) * (t + 1)"
  have "\<not> isqrt n < t" "\<not> t < isqrt n"
    using a isqrt_bounds[of n] mult_le_mono[of "isqrt n + 1" t "isqrt n + 1" t] mult_le_mono[of "t + 1" "isqrt n" "t + 1" "isqrt n"]
    by fastforce+
  then show ?thesis by simp
qed

section \<open>Values, comparison and arithmetic\<close>

text \<open>
  The operations below are written once for both widths: \<open>fb\<close> fraction bits, \<open>eb\<close>
  exponent bits, and a number as its sign and its magnitude pattern.
\<close>

type_synonym fnum = "bool \<times> nat"

definition fnum_nan :: "nat \<Rightarrow> nat \<Rightarrow> fnum" where
  "fnum_nan fb eb = (False, inf_mag fb eb + 2 ^ (fb - 1))"

definition fnum_is_nan :: "nat \<Rightarrow> nat \<Rightarrow> fnum \<Rightarrow> bool" where
  "fnum_is_nan fb eb x \<longleftrightarrow> inf_mag fb eb < snd x"

definition fnum_is_inf :: "nat \<Rightarrow> nat \<Rightarrow> fnum \<Rightarrow> bool" where
  "fnum_is_inf fb eb x \<longleftrightarrow> snd x = inf_mag fb eb"

definition fnum_key :: "fnum \<Rightarrow> int" where
  "fnum_key x = (if fst x then - int (snd x) else int (snd x))"

definition fnum_int :: "nat \<Rightarrow> fnum \<Rightarrow> int" where
  "fnum_int fb x =
     (if fst x then - int (unit_val fb (snd x)) else int (unit_val fb (snd x)))"

definition fnum_add :: "nat \<Rightarrow> nat \<Rightarrow> fnum \<Rightarrow> fnum \<Rightarrow> fnum" where
  "fnum_add fb eb x y =
     (if fnum_is_nan fb eb x \<or> fnum_is_nan fb eb y then fnum_nan fb eb
      else if fnum_is_inf fb eb x then
        (if fnum_is_inf fb eb y \<and> fst x \<noteq> fst y then fnum_nan fb eb else x)
      else if fnum_is_inf fb eb y then y
      else (let v = fnum_int fb x + fnum_int fb y in
            if v = 0 then (fst x \<and> fst y, 0)
            else (v < 0, round_mag fb eb (nat \<bar>v\<bar>) 1)))"

definition fnum_neg :: "fnum \<Rightarrow> fnum" where
  "fnum_neg x = (\<not> fst x, snd x)"

definition fnum_abs :: "fnum \<Rightarrow> fnum" where
  "fnum_abs x = (False, snd x)"

definition fnum_mul :: "nat \<Rightarrow> nat \<Rightarrow> fnum \<Rightarrow> fnum \<Rightarrow> fnum" where
  "fnum_mul fb eb x y =
     (if fnum_is_nan fb eb x \<or> fnum_is_nan fb eb y then fnum_nan fb eb
      else if fnum_is_inf fb eb x \<or> fnum_is_inf fb eb y then
        (if snd x = 0 \<or> snd y = 0 then fnum_nan fb eb else (fst x \<noteq> fst y, inf_mag fb eb))
      else (fst x \<noteq> fst y,
            round_mag fb eb (unit_val fb (snd x) * unit_val fb (snd y)) (2 ^ unit_exp fb eb)))"

definition fnum_div :: "nat \<Rightarrow> nat \<Rightarrow> fnum \<Rightarrow> fnum \<Rightarrow> fnum" where
  "fnum_div fb eb x y =
     (if fnum_is_nan fb eb x \<or> fnum_is_nan fb eb y then fnum_nan fb eb
      else if fnum_is_inf fb eb x then
        (if fnum_is_inf fb eb y then fnum_nan fb eb else (fst x \<noteq> fst y, inf_mag fb eb))
      else if fnum_is_inf fb eb y then (fst x \<noteq> fst y, 0)
      else if snd y = 0 then
        (if snd x = 0 then fnum_nan fb eb else (fst x \<noteq> fst y, inf_mag fb eb))
      else (fst x \<noteq> fst y,
            round_mag fb eb (unit_val fb (snd x) * 2 ^ unit_exp fb eb) (unit_val fb (snd y))))"

text \<open>
  The square root of \<open>a\<close> units is the square root of \<open>a * 2 ^ unit_exp\<close> units; its
  integer part and a bit that says whether anything is left decide the rounding.
\<close>

definition fnum_sqrt :: "nat \<Rightarrow> nat \<Rightarrow> fnum \<Rightarrow> fnum" where
  "fnum_sqrt fb eb x =
     (if fnum_is_nan fb eb x then fnum_nan fb eb
      else if snd x = 0 then x
      else if fst x then fnum_nan fb eb
      else if fnum_is_inf fb eb x then x
      else (let n = unit_val fb (snd x) * 2 ^ unit_exp fb eb; t = isqrt n
            in (False, round_mag fb eb (2 * t + (if t * t = n then 0 else 1)) 2)))"

text \<open>A nonnegative rational, correctly rounded: literals and integer conversions.\<close>

definition fnum_ratio :: "nat \<Rightarrow> nat \<Rightarrow> nat \<Rightarrow> nat \<Rightarrow> fnum" where
  "fnum_ratio fb eb n d = (False, round_mag fb eb (n * 2 ^ unit_exp fb eb) d)"

subsection \<open>binary32\<close>

datatype f32 = Bits32 (bits32: u32)

definition num32 :: "f32 \<Rightarrow> fnum" where
  "num32 x = (bit (bits32 x) 31, unat (bits32 x) mod 2 ^ 31)"

definition mk32 :: "fnum \<Rightarrow> f32" where
  "mk32 x = Bits32 (word_of_nat ((if fst x then 2 ^ 31 else 0) + snd x))"

definition is_nan32 :: "f32 \<Rightarrow> bool" where
  "is_nan32 x = fnum_is_nan 23 8 (num32 x)"

definition is_finite32 :: "f32 \<Rightarrow> bool" where
  "is_finite32 x \<longleftrightarrow> snd (num32 x) < inf_mag 23 8"

definition key32 :: "f32 \<Rightarrow> int" where
  "key32 x = fnum_key (num32 x)"

text \<open>Rust's \<^verbatim>\<open><\<close> and \<^verbatim>\<open><=\<close> are false when a side is NaN, and \<open>-0.0 = 0.0\<close>.\<close>

instantiation f32 :: "{zero, one, plus, minus, uminus, times, inverse, ord}"
begin

definition zero_f32_def: "0 = Bits32 0"

definition one_f32_def: "1 = Bits32 0x3F800000"

definition plus_f32_def: "x + y = mk32 (fnum_add 23 8 (num32 x) (num32 y))"

definition uminus_f32_def: "- x = mk32 (fnum_neg (num32 x))"

definition minus_f32_def: "x - y = mk32 (fnum_add 23 8 (num32 x) (fnum_neg (num32 y)))"

definition times_f32_def: "x * y = mk32 (fnum_mul 23 8 (num32 x) (num32 y))"

definition divide_f32_def: "x div y = mk32 (fnum_div 23 8 (num32 x) (num32 y))"

definition inverse_f32_def: "inverse (x::f32) = 1 div x"

definition less_eq_f32_def: "x \<le> y \<longleftrightarrow> \<not> is_nan32 x \<and> \<not> is_nan32 y \<and> key32 x \<le> key32 y"

definition less_f32_def: "x < y \<longleftrightarrow> \<not> is_nan32 x \<and> \<not> is_nan32 y \<and> key32 x < key32 y"

instance ..

end

definition sqrt32 :: "f32 \<Rightarrow> f32" where
  "sqrt32 x = mk32 (fnum_sqrt 23 8 (num32 x))"

definition abs32 :: "f32 \<Rightarrow> f32" where
  "abs32 x = mk32 (fnum_abs (num32 x))"

text \<open>\<open>lit32 n d\<close> is the literal with the decimal value \<open>n / d\<close>.\<close>

definition lit32 :: "nat \<Rightarrow> nat \<Rightarrow> f32" where
  "lit32 n d = mk32 (fnum_ratio 23 8 n d)"

definition of_nat32 :: "nat \<Rightarrow> f32" where
  "of_nat32 n = mk32 (fnum_ratio 23 8 n 1)"

text \<open>\<^verbatim>\<open>partial_cmp\<close>: no order when a side is NaN.\<close>

datatype ordering = Less | Equal | Greater

definition partial_cmp32 :: "f32 \<Rightarrow> f32 \<Rightarrow> ordering option" where
  "partial_cmp32 x y =
     (if is_nan32 x \<or> is_nan32 y then None
      else Some (if key32 x < key32 y then Less
                 else if key32 x = key32 y then Equal else Greater))"

subsection \<open>binary64\<close>

datatype f64 = Bits64 (bits64: u64)

definition num64 :: "f64 \<Rightarrow> fnum" where
  "num64 x = (bit (bits64 x) 63, unat (bits64 x) mod 2 ^ 63)"

definition mk64 :: "fnum \<Rightarrow> f64" where
  "mk64 x = Bits64 (word_of_nat ((if fst x then 2 ^ 63 else 0) + snd x))"

definition is_nan64 :: "f64 \<Rightarrow> bool" where
  "is_nan64 x = fnum_is_nan 52 11 (num64 x)"

definition less64 :: "f64 \<Rightarrow> f64 \<Rightarrow> bool" where
  "less64 x y \<longleftrightarrow>
     \<not> is_nan64 x \<and> \<not> is_nan64 y \<and> fnum_key (num64 x) < fnum_key (num64 y)"

definition add64 :: "f64 \<Rightarrow> f64 \<Rightarrow> f64" where
  "add64 x y = mk64 (fnum_add 52 11 (num64 x) (num64 y))"

definition mul64 :: "f64 \<Rightarrow> f64 \<Rightarrow> f64" where
  "mul64 x y = mk64 (fnum_mul 52 11 (num64 x) (num64 y))"

definition div64 :: "f64 \<Rightarrow> f64 \<Rightarrow> f64" where
  "div64 x y = mk64 (fnum_div 52 11 (num64 x) (num64 y))"

definition of_nat64 :: "nat \<Rightarrow> f64" where
  "of_nat64 n = mk64 (fnum_ratio 52 11 n 1)"

text \<open>What evaluates closed float expressions by rewriting.\<close>

lemmas float_eval =
  zero_f32_def one_f32_def plus_f32_def uminus_f32_def minus_f32_def times_f32_def divide_f32_def
  less_eq_f32_def less_f32_def sqrt32_def abs32_def lit32_def of_nat32_def num32_def mk32_def
  is_nan32_def is_finite32_def key32_def fnum_nan_def fnum_is_nan_def fnum_is_inf_def fnum_key_def
  fnum_int_def fnum_add_def fnum_neg_def fnum_abs_def fnum_mul_def fnum_div_def fnum_sqrt_def
  fnum_ratio_def round_mag_def round_shift_def rne_def unit_val_def inf_mag_def unit_exp_def
  bit_len.simps isqrt.simps

end
