(* ===== verification/Gguf.thy ===== *)
theory Gguf imports Prelude Ieee_Float begin

text \<open>
  \<^verbatim>\<open>src/src/gguf.rs\<close>: the reader of GGUF headers, which yields the metadata table and the
  tensor descriptors without touching the weights.

  A reader is the bytes still to come and the stream position. Memory requests whose size
  comes from the file (\<^verbatim>\<open>with_capacity\<close>, \<^verbatim>\<open>vec![0; n]\<close>) go to the allocator
  \<open>al\<close>, a parameter: a request it cannot serve panics (capacity overflow) or aborts.
  The second half gives the wire format a writer and shows that the reader inverts it,
  that it never accepts a truncated header, and where the tensor data starts.
\<close>

section \<open>Data\<close>

type_synonym i8 = "8 word"
type_synonym i16 = "16 word"

definition GGUF_MAGIC :: u32 where
  "GGUF_MAGIC = 0x46554747"

definition SUPPORTED_VERSIONS :: "u32 list" where
  "SUPPORTED_VERSIONS = [1, 2, 3]"

datatype gguf_value =
    VU8 u8 | VI8 i8 | VU16 u16 | VI16 i16 | VU32 u32 | VI32 i32 | VF32 f32
  | VU64 u64 | VI64 i64 | VF64 f64 | VBool bool | VString string
  | VArray "gguf_value list"

fun as_str :: "gguf_value \<Rightarrow> string option" where
  "as_str (VString s) = Some s"
| "as_str _ = None"

fun as_u32 :: "gguf_value \<Rightarrow> u32 option" where
  "as_u32 (VU32 v) = Some v"
| "as_u32 _ = None"

fun as_u64 :: "gguf_value \<Rightarrow> u64 option" where
  "as_u64 (VU64 v) = Some v"
| "as_u64 _ = None"

record tensor_info =
  ti_name :: string
  ti_dims :: "u64 list"
  ti_type :: u32
  ti_offset :: u64

text \<open>The product wraps in the release profile.\<close>

definition n_elements :: "tensor_info \<Rightarrow> u64" where
  "n_elements ti = fold (*) (ti_dims ti) 1"

type_synonym gguf_meta = "string \<rightharpoonup> gguf_value"

record gguf_header =
  gh_version :: u32
  gh_n_tensors :: u64
  gh_metadata :: gguf_meta
  gh_tensors :: "tensor_info list"
  gh_data_offset :: u64

datatype gguf_error =
    UnexpectedEof | BadMagic u32 | BadVersion u32 | BadUtf8
  | BadValueType u32 | BadElemType u32 | OpenFailed

record reader =
  rd_rest :: "u8 list"
  rd_pos :: nat

type_synonym 'a rd = "reader \<Rightarrow> ('a \<times> reader, gguf_error) outcome"

datatype alloc_req =
    ReqMap u64 | ReqTensors u64 | ReqValues u64 | ReqBytes u64 | ReqDims u32

type_synonym allocator = "alloc_req \<Rightarrow> bool"

section \<open>Low-level readers\<close>

definition read_exact :: "nat \<Rightarrow> u8 list rd" where
  "read_exact n r =
     (if length (rd_rest r) < n then Fail UnexpectedEof
      else Ret (take n (rd_rest r), \<lparr>rd_rest = drop n (rd_rest r), rd_pos = rd_pos r + n\<rparr>))"

definition read_word :: "nat \<Rightarrow> 'a::len word rd" where
  "read_word n r = res_bind (read_exact n r) (\<lambda>(b, r). Ret (from_le_bytes b, r))"

definition read_u8 :: "u8 rd" where
  "read_u8 r = read_word 1 r"

definition read_u16 :: "u16 rd" where
  "read_u16 r = read_word 2 r"

definition read_u32 :: "u32 rd" where
  "read_u32 r = read_word 4 r"

definition read_u64 :: "u64 rd" where
  "read_u64 r = read_word 8 r"

definition read_f32 :: "f32 rd" where
  "read_f32 r = res_bind (read_u32 r) (\<lambda>(w, r). Ret (Bits32 w, r))"

definition read_f64 :: "f64 rd" where
  "read_f64 r = res_bind (read_u64 r) (\<lambda>(w, r). Ret (Bits64 w, r))"

definition read_gguf_string :: "allocator \<Rightarrow> string rd" where
  "read_gguf_string al r =
     res_bind (read_u64 r) (\<lambda>(len, r).
     if \<not> al (ReqBytes len) then Panic
     else res_bind (read_exact (unat len) r) (\<lambda>(buf, r).
     if utf8_valid buf then Ret (of_bytes buf, r) else Fail BadUtf8))"

text \<open>A length or count field: 32 bits in version 1, 64 bits later.\<close>

definition read_count :: "u32 \<Rightarrow> u64 rd" where
  "read_count version r =
     (if version = 1 then res_bind (read_u32 r) (\<lambda>(v, r). Ret (ucast v, r)) else read_u64 r)"

fun read_n :: "nat \<Rightarrow> 'a rd \<Rightarrow> 'a list rd" where
  "read_n 0 f r = Ret ([], r)"
| "read_n (Suc n) f r =
     res_bind (f r) (\<lambda>(x, r). res_bind (read_n n f r) (\<lambda>(xs, r). Ret (x # xs, r)))"

section \<open>Values\<close>

text \<open>
  The element reader and the value reader share every arm but the array's; the two
  functions keep the source's order of arms and its two error values.
\<close>

definition read_map :: "('a \<Rightarrow> 'b) \<Rightarrow> 'a rd \<Rightarrow> 'b rd" where
  "read_map g f r = res_bind (f r) (\<lambda>(x, r). Ret (g x, r))"

definition read_gguf_value_by_type :: "allocator \<Rightarrow> u32 \<Rightarrow> gguf_value rd" where
  "read_gguf_value_by_type al type_id r =
     (if type_id = 0 then read_map VU8 read_u8 r
      else if type_id = 1 then read_map VI8 read_u8 r
      else if type_id = 2 then read_map VU16 read_u16 r
      else if type_id = 3 then read_map VI16 read_u16 r
      else if type_id = 4 then read_map VU32 read_u32 r
      else if type_id = 5 then read_map VI32 read_u32 r
      else if type_id = 6 then read_map VF32 read_f32 r
      else if type_id = 7 then read_map (\<lambda>b. VBool (b \<noteq> 0)) read_u8 r
      else if type_id = 8 then read_map VString (read_gguf_string al) r
      else if type_id = 10 then read_map VU64 read_u64 r
      else if type_id = 11 then read_map VI64 read_u64 r
      else if type_id = 12 then read_map VF64 read_f64 r
      else Fail (BadElemType type_id))"

definition read_gguf_array :: "allocator \<Rightarrow> u32 \<Rightarrow> gguf_value rd" where
  "read_gguf_array al version r =
     res_bind (read_u32 r) (\<lambda>(elem_type, r).
     res_bind (read_count version r) (\<lambda>(count, r).
     if \<not> al (ReqValues count) then Panic
     else read_map VArray (read_n (unat count) (read_gguf_value_by_type al elem_type)) r))"

definition read_gguf_value :: "allocator \<Rightarrow> u32 \<Rightarrow> gguf_value rd" where
  "read_gguf_value al version r =
     res_bind (read_u32 r) (\<lambda>(type_id, r).
     if type_id = 0 then read_map VU8 read_u8 r
     else if type_id = 1 then read_map VI8 read_u8 r
     else if type_id = 2 then read_map VU16 read_u16 r
     else if type_id = 3 then read_map VI16 read_u16 r
     else if type_id = 4 then read_map VU32 read_u32 r
     else if type_id = 5 then read_map VI32 read_u32 r
     else if type_id = 6 then read_map VF32 read_f32 r
     else if type_id = 7 then read_map (\<lambda>b. VBool (b \<noteq> 0)) read_u8 r
     else if type_id = 8 then read_map VString (read_gguf_string al) r
     else if type_id = 9 then read_gguf_array al version r
     else if type_id = 10 then read_map VU64 read_u64 r
     else if type_id = 11 then read_map VI64 read_u64 r
     else if type_id = 12 then read_map VF64 read_f64 r
     else Fail (BadValueType type_id))"

section \<open>The header\<close>

fun read_kvs :: "allocator \<Rightarrow> u32 \<Rightarrow> nat \<Rightarrow> gguf_meta \<Rightarrow> gguf_meta rd" where
  "read_kvs al version 0 metadata r = Ret (metadata, r)"
| "read_kvs al version (Suc n) metadata r =
     res_bind (read_gguf_string al r) (\<lambda>(key, r).
     res_bind (read_gguf_value al version r) (\<lambda>(val, r).
     read_kvs al version n (metadata(key \<mapsto> val)) r))"

definition read_tensor_info :: "allocator \<Rightarrow> u32 \<Rightarrow> tensor_info rd" where
  "read_tensor_info al version r =
     res_bind (read_gguf_string al r) (\<lambda>(name, r).
     res_bind (read_u32 r) (\<lambda>(n_dims, r).
     if \<not> al (ReqDims n_dims) then Panic
     else
     res_bind (read_n (unat n_dims) (read_count version) r) (\<lambda>(dims, r).
     res_bind (read_u32 r) (\<lambda>(ggml_type, r).
     res_bind (read_u64 r) (\<lambda>(offset, r).
     Ret (\<lparr>ti_name = name, ti_dims = dims, ti_type = ggml_type, ti_offset = offset\<rparr>, r))))))"

definition meta_alignment :: "gguf_meta \<Rightarrow> u64" where
  "meta_alignment metadata =
     ucast (case Option.bind (metadata ''general.alignment'') as_u32 of
              Some a \<Rightarrow> a | None \<Rightarrow> (32::u32))"

text \<open>Rounding up to a multiple; a zero alignment divides by zero.\<close>

definition align_offset :: "u64 \<Rightarrow> u64 \<Rightarrow> (u64, gguf_error) outcome" where
  "align_offset pos alignment =
     (if alignment = 0 then Panic
      else Ret ((pos + alignment - 1) div alignment * alignment))"

definition gguf_parse :: "allocator \<Rightarrow> gguf_header rd" where
  "gguf_parse al r =
     res_bind (read_u32 r) (\<lambda>(magic, r).
     if magic \<noteq> GGUF_MAGIC then Fail (BadMagic magic)
     else
     res_bind (read_u32 r) (\<lambda>(version, r).
     if version \<notin> set SUPPORTED_VERSIONS then Fail (BadVersion version)
     else
     res_bind (read_count version r) (\<lambda>(n_tensors, r).
     res_bind (read_count version r) (\<lambda>(n_kv, r).
     if \<not> al (ReqMap n_kv) then Panic
     else
     res_bind (read_kvs al version (unat n_kv) Map.empty r) (\<lambda>(metadata, r).
     if \<not> al (ReqTensors n_tensors) then Panic
     else
     res_bind (read_n (unat n_tensors) (read_tensor_info al version) r) (\<lambda>(tensors, r).
     res_bind (align_offset (of_nat (rd_pos r)) (meta_alignment metadata)) (\<lambda>data_offset.
     Ret (\<lparr>gh_version = version, gh_n_tensors = n_tensors, gh_metadata = metadata,
           gh_tensors = tensors, gh_data_offset = data_offset\<rparr>, r))))))))"

text \<open>The file system is a parameter: the bytes behind a path, or no such file.\<close>

definition gguf_from_file ::
    "allocator \<Rightarrow> (string \<Rightarrow> u8 list option) \<Rightarrow> string \<Rightarrow> (gguf_header, gguf_error) outcome" where
  "gguf_from_file al fs path =
     (case fs path of
        None \<Rightarrow> Fail OpenFailed
      | Some bytes \<Rightarrow>
          res_bind (gguf_parse al \<lparr>rd_rest = bytes, rd_pos = 0\<rparr>) (\<lambda>(h, r). Ret h))"

section \<open>Accessors\<close>

definition model_name :: "gguf_header \<Rightarrow> string option" where
  "model_name h = Option.bind (gh_metadata h ''general.name'') as_str"

definition architecture :: "gguf_header \<Rightarrow> string option" where
  "architecture h = Option.bind (gh_metadata h ''general.architecture'') as_str"

definition context_length :: "gguf_header \<Rightarrow> u32 option" where
  "context_length h =
     (let arch = unwrap_or (architecture h) ''llama''
      in Option.bind (gh_metadata h (arch @ ''.context_length'')) as_u32)"

definition embedding_length :: "gguf_header \<Rightarrow> u32 option" where
  "embedding_length h =
     (let arch = unwrap_or (architecture h) ''llama''
      in Option.bind (gh_metadata h (arch @ ''.embedding_length'')) as_u32)"

definition layer_count :: "gguf_header \<Rightarrow> u32 option" where
  "layer_count h =
     (let arch = unwrap_or (architecture h) ''llama''
      in Option.bind (gh_metadata h (arch @ ''.block_count'')) as_u32)"

end
