(* ===== verification/Gguf_Wire.thy ===== *)
theory Gguf_Wire imports Gguf begin

text \<open>
  The GGUF wire format as a writer, the interface every item of the format has
  (\<open>wire_item\<close>), and the correctness of the reader against it: what the writer wrote is
  read back, a header cut short anywhere is refused, and the position where the tensor
  data starts is aligned.
\<close>

section \<open>What a reader consumes\<close>

text \<open>
  \<open>reads rd p bs x\<close>: at position \<open>p\<close>, the reader takes exactly the bytes \<open>bs\<close>,
  whatever follows them, and yields \<open>x\<close>; with fewer bytes it reports the end of file.
\<close>

definition reads :: "'a rd \<Rightarrow> nat \<Rightarrow> u8 list \<Rightarrow> 'a \<Rightarrow> bool" where
  "reads rd p bs x \<longleftrightarrow>
     (\<forall>t. rd \<lparr>rd_rest = bs @ t, rd_pos = p\<rparr> = Ret (x, \<lparr>rd_rest = t, rd_pos = p + length bs\<rparr>)) \<and>
     (\<forall>k < length bs. rd \<lparr>rd_rest = take k bs, rd_pos = p\<rparr> = Fail UnexpectedEof)"

text \<open>Every success of a framed reader is of that kind.\<close>

definition framed :: "'a rd \<Rightarrow> bool" where
  "framed rd \<longleftrightarrow>
     (\<forall>r x r'. rd r = Ret (x, r') \<longrightarrow>
        (\<exists>bs. rd_rest r = bs @ rd_rest r' \<and> rd_pos r' = rd_pos r + length bs \<and>
              reads rd (rd_pos r) bs x))"

lemma readsD: "reads rd p bs x \<Longrightarrow>
    rd \<lparr>rd_rest = bs @ t, rd_pos = p\<rparr> = Ret (x, \<lparr>rd_rest = t, rd_pos = p + length bs\<rparr>)"
  by (simp add: reads_def)

lemma reads_eofD: "reads rd p bs x \<Longrightarrow> k < length bs \<Longrightarrow>
    rd \<lparr>rd_rest = take k bs, rd_pos = p\<rparr> = Fail UnexpectedEof"
  by (simp add: reads_def)

lemma reads_Ret: "reads (\<lambda>r. Ret (x, r)) p [] x"
  by (simp add: reads_def)

lemma reads_bind:
  assumes m: "reads m p a x" and f: "reads (f x) (p + length a) b y"
  shows "reads (\<lambda>r. res_bind (m r) (\<lambda>(x, r). f x r)) p (a @ b) y"
  unfolding reads_def
proof (intro conjI allI impI)
  fix t
  show "res_bind (m \<lparr>rd_rest = (a @ b) @ t, rd_pos = p\<rparr>) (\<lambda>(x, r). f x r) =
      Ret (y, \<lparr>rd_rest = t, rd_pos = p + length (a @ b)\<rparr>)"
    using readsD[OF m, of "b @ t"] readsD[OF f, of t] by (simp add: add.assoc)
next
  fix k assume k: "k < length (a @ b)"
  show "res_bind (m \<lparr>rd_rest = take k (a @ b), rd_pos = p\<rparr>) (\<lambda>(x, r). f x r) = Fail UnexpectedEof"
  proof (cases "k < length a")
    case True
    then show ?thesis using reads_eofD[OF m True] by simp
  next
    case False
    then show ?thesis
      using readsD[OF m, of "take (k - length a) b"] reads_eofD[OF f, of "k - length a"] k by simp
  qed
qed

lemma reads_bindI:
  assumes "reads m p a x" and "reads (f x) (p + length a) b y"
    and "bs = a @ b" and "\<And>r. g r = res_bind (m r) (\<lambda>(x, r). f x r)"
  shows "reads g p bs y"
proof -
  have "g = (\<lambda>r. res_bind (m r) (\<lambda>(x, r). f x r))" by (rule ext) (rule assms(4))
  then show ?thesis using reads_bind[where f = f, OF assms(1,2)] assms(3) by simp
qed

lemma reads_cong: "(\<And>r. f r = g r) \<Longrightarrow> reads g p bs x \<Longrightarrow> reads f p bs x"
  by (simp add: reads_def)

lemma reads_map: "reads f p bs x \<Longrightarrow> reads (read_map g f) p bs (g x)"
  unfolding read_map_def[abs_def]
  using reads_bind[of f p bs x "\<lambda>x r. Ret (g x, r)" "[]" "g x"] by (simp add: reads_Ret)

lemma framed_Fail [framed_intros]: "framed (\<lambda>r. Fail e)"
  by (simp add: framed_def)

lemma framed_Panic [framed_intros]: "framed (\<lambda>r. Panic)"
  by (simp add: framed_def)

lemma framed_Ret [framed_intros]: "framed (\<lambda>r. Ret (x, r))"
  by (simp add: framed_def reads_Ret)

lemma framed_if [framed_intros]:
  "(c \<Longrightarrow> framed f) \<Longrightarrow> (\<not> c \<Longrightarrow> framed g) \<Longrightarrow> framed (\<lambda>r. if c then f r else g r)"
  by (cases c) simp_all

lemma framed_pos [framed_intros]:
  "framed (\<lambda>r. res_bind (g (rd_pos r)) (\<lambda>d. Ret (h d, r)))"
  unfolding framed_def reads_def by auto

lemma framed_bind [framed_intros]:
  assumes m: "framed m" and f: "\<And>x. framed (f x)"
  shows "framed (\<lambda>r. res_bind (m r) (\<lambda>(x, r). f x r))"
  unfolding framed_def
proof (intro allI impI)
  fix r y r'
  assume "res_bind (m r) (\<lambda>(x, r). f x r) = Ret (y, r')"
  then obtain x r1 where 1: "m r = Ret (x, r1)" and 2: "f x r1 = Ret (y, r')" by auto
  from 1 m obtain a where a: "rd_rest r = a @ rd_rest r1" "rd_pos r1 = rd_pos r + length a"
    "reads m (rd_pos r) a x" unfolding framed_def by blast
  from 2 f obtain b where b: "rd_rest r1 = b @ rd_rest r'" "rd_pos r' = rd_pos r1 + length b"
    "reads (f x) (rd_pos r1) b y" unfolding framed_def by blast
  have "reads (\<lambda>r. res_bind (m r) (\<lambda>(x, r). f x r)) (rd_pos r) (a @ b) y"
    using reads_bind[OF a(3)] b(3) a(2) by simp
  then show "\<exists>bs. rd_rest r = bs @ rd_rest r' \<and> rd_pos r' = rd_pos r + length bs \<and>
      reads (\<lambda>r. res_bind (m r) (\<lambda>(x, r). f x r)) (rd_pos r) bs y"
    using a b by (intro exI[of _ "a @ b"]) auto
qed

lemma framed_map [framed_intros]: "framed f \<Longrightarrow> framed (read_map g f)"
  unfolding read_map_def[abs_def] by (intro framed_intros)

lemma framed_read_n [framed_intros]: "framed f \<Longrightarrow> framed (read_n n f)"
proof (induction n)
  case 0
  have "read_n 0 f = (\<lambda>r. Ret ([], r))" by (rule ext) simp
  then show ?case by (simp add: framed_Ret)
next
  case (Suc n)
  have "read_n (Suc n) f =
      (\<lambda>r. res_bind (f r) (\<lambda>(x, r). res_bind (read_n n f r) (\<lambda>(xs, r). Ret (x # xs, r))))"
    by (rule ext) simp
  moreover have "framed \<dots>" by (intro framed_intros Suc)
  ultimately show ?case by simp
qed

section \<open>The interface of an item\<close>

text \<open>
  An item of the format: a reader, a writer, and the values the writer can write. What
  follows from the one law is proved here once and used for every item.
\<close>

locale wire_item =
  fixes rd :: "'a rd" and enc :: "'a \<Rightarrow> u8 list" and ok :: "'a \<Rightarrow> bool"
  assumes reads_enc: "ok x \<Longrightarrow> reads rd p (enc x) x"
begin

lemma decode_encode:
  "ok x \<Longrightarrow>
    rd \<lparr>rd_rest = enc x @ t, rd_pos = p\<rparr> = Ret (x, \<lparr>rd_rest = t, rd_pos = p + length (enc x)\<rparr>)"
  by (rule readsD[OF reads_enc])

lemma truncated:
  "ok x \<Longrightarrow> k < length (enc x) \<Longrightarrow>
    rd \<lparr>rd_rest = take k (enc x), rd_pos = p\<rparr> = Fail UnexpectedEof"
  by (rule reads_eofD[OF reads_enc])

lemma enc_prefix_free:
  assumes "ok x" "ok y" and "enc x @ s = enc y @ t"
  shows "x = y \<and> s = t"
proof -
  have "rd \<lparr>rd_rest = enc y @ t, rd_pos = 0\<rparr> = Ret (x, \<lparr>rd_rest = s, rd_pos = 0 + length (enc x)\<rparr>)"
    by (subst assms(3)[symmetric]) (rule decode_encode[OF assms(1)])
  with decode_encode[OF assms(2), of t 0] show ?thesis by simp
qed

lemma reads_list:
  "\<forall>x\<in>set xs. ok x \<Longrightarrow> reads (read_n (length xs) rd) p (concat (map enc xs)) xs"
proof (induction xs arbitrary: p)
  case Nil
  show ?case by (simp add: reads_def)
next
  case (Cons x xs)
  have tail: "reads (\<lambda>r. res_bind (read_n (length xs) rd r) (\<lambda>(xs, r). Ret (x # xs, r)))
      (p + length (enc x)) (concat (map enc xs)) (x # xs)"
  proof (rule reads_bindI)
    show "reads (read_n (length xs) rd) (p + length (enc x)) (concat (map enc xs)) xs"
      using Cons by simp
  qed (rule reads_Ret, simp_all)
  show ?case
  proof (rule reads_bindI)
    show "reads rd p (enc x) x" using Cons.prems by (simp add: reads_enc)
  qed (rule tail, simp_all)
qed

end

section \<open>The writer\<close>

definition put_u8 :: "u8 \<Rightarrow> u8 list" where
  "put_u8 w = to_le_bytes 1 w"

definition put_u16 :: "u16 \<Rightarrow> u8 list" where
  "put_u16 w = to_le_bytes 2 w"

definition put_u32 :: "u32 \<Rightarrow> u8 list" where
  "put_u32 w = to_le_bytes 4 w"

definition put_u64 :: "u64 \<Rightarrow> u8 list" where
  "put_u64 w = to_le_bytes 8 w"

definition put_count :: "u32 \<Rightarrow> u64 \<Rightarrow> u8 list" where
  "put_count version n = (if version = 1 then put_u32 (ucast n) else put_u64 n)"

definition put_string :: "string \<Rightarrow> u8 list" where
  "put_string s = put_u64 (of_nat (length s)) @ as_bytes s"

fun value_tag :: "gguf_value \<Rightarrow> u32" where
  "value_tag (VU8 _) = 0"
| "value_tag (VI8 _) = 1"
| "value_tag (VU16 _) = 2"
| "value_tag (VI16 _) = 3"
| "value_tag (VU32 _) = 4"
| "value_tag (VI32 _) = 5"
| "value_tag (VF32 _) = 6"
| "value_tag (VBool _) = 7"
| "value_tag (VString _) = 8"
| "value_tag (VArray _) = 9"
| "value_tag (VU64 _) = 10"
| "value_tag (VI64 _) = 11"
| "value_tag (VF64 _) = 12"

text \<open>The payload of a scalar; an array's is its elements' payloads, see \<open>put_value\<close>.\<close>

fun put_scalar :: "gguf_value \<Rightarrow> u8 list" where
  "put_scalar (VU8 w) = put_u8 w"
| "put_scalar (VI8 w) = put_u8 w"
| "put_scalar (VU16 w) = put_u16 w"
| "put_scalar (VI16 w) = put_u16 w"
| "put_scalar (VU32 w) = put_u32 w"
| "put_scalar (VI32 w) = put_u32 w"
| "put_scalar (VF32 x) = put_u32 (bits32 x)"
| "put_scalar (VBool b) = put_u8 (if b then 1 else 0)"
| "put_scalar (VString s) = put_string s"
| "put_scalar (VArray _) = []"
| "put_scalar (VU64 w) = put_u64 w"
| "put_scalar (VI64 w) = put_u64 w"
| "put_scalar (VF64 x) = put_u64 (bits64 x)"

definition elem_tag :: "gguf_value list \<Rightarrow> u32" where
  "elem_tag vs = (case vs of [] \<Rightarrow> 0 | v # _ \<Rightarrow> value_tag v)"

fun put_value :: "u32 \<Rightarrow> gguf_value \<Rightarrow> u8 list" where
  "put_value version (VArray vs) =
     put_u32 9 @ put_u32 (elem_tag vs) @ put_count version (of_nat (length vs)) @
     concat (map put_scalar vs)"
| "put_value version v = put_u32 (value_tag v) @ put_scalar v"

definition put_kv :: "u32 \<Rightarrow> string \<times> gguf_value \<Rightarrow> u8 list" where
  "put_kv version kv = put_string (fst kv) @ put_value version (snd kv)"

definition put_tensor :: "u32 \<Rightarrow> tensor_info \<Rightarrow> u8 list" where
  "put_tensor version ti =
     put_string (ti_name ti) @ put_u32 (of_nat (length (ti_dims ti))) @
     concat (map (put_count version) (ti_dims ti)) @ put_u32 (ti_type ti) @ put_u64 (ti_offset ti)"

text \<open>A file as its author sees it: the entries in order, duplicates included.\<close>

record gguf_source =
  src_version :: u32
  src_kvs :: "(string \<times> gguf_value) list"
  src_tensors :: "tensor_info list"

definition put_gguf :: "gguf_source \<Rightarrow> u8 list" where
  "put_gguf f =
     put_u32 GGUF_MAGIC @ put_u32 (src_version f) @
     put_count (src_version f) (of_nat (length (src_tensors f))) @
     put_count (src_version f) (of_nat (length (src_kvs f))) @
     concat (map (put_kv (src_version f)) (src_kvs f)) @
     concat (map (put_tensor (src_version f)) (src_tensors f))"

section \<open>What the writer can write\<close>

definition ok_count :: "u32 \<Rightarrow> u64 \<Rightarrow> bool" where
  "ok_count version n \<longleftrightarrow> version = 1 \<longrightarrow> unat n < 2 ^ 32"

definition ok_string :: "allocator \<Rightarrow> string \<Rightarrow> bool" where
  "ok_string al s \<longleftrightarrow>
     utf8_valid (as_bytes s) \<and> length s < 2 ^ 64 \<and> al (ReqBytes (of_nat (length s)))"

fun ok_scalar :: "allocator \<Rightarrow> gguf_value \<Rightarrow> bool" where
  "ok_scalar al (VString s) = ok_string al s"
| "ok_scalar al (VArray _) = False"
| "ok_scalar al _ = True"

fun ok_value :: "allocator \<Rightarrow> u32 \<Rightarrow> gguf_value \<Rightarrow> bool" where
  "ok_value al version (VArray vs) \<longleftrightarrow>
     (\<forall>v\<in>set vs. ok_scalar al v \<and> value_tag v = elem_tag vs) \<and> length vs < 2 ^ 64 \<and>
     ok_count version (of_nat (length vs)) \<and> al (ReqValues (of_nat (length vs)))"
| "ok_value al version v \<longleftrightarrow> ok_scalar al v"

definition ok_kv :: "allocator \<Rightarrow> u32 \<Rightarrow> string \<times> gguf_value \<Rightarrow> bool" where
  "ok_kv al version kv \<longleftrightarrow> ok_string al (fst kv) \<and> ok_value al version (snd kv)"

definition ok_tensor :: "allocator \<Rightarrow> u32 \<Rightarrow> tensor_info \<Rightarrow> bool" where
  "ok_tensor al version ti \<longleftrightarrow>
     ok_string al (ti_name ti) \<and> length (ti_dims ti) < 2 ^ 32 \<and>
     al (ReqDims (of_nat (length (ti_dims ti)))) \<and> (\<forall>d\<in>set (ti_dims ti). ok_count version d)"

definition ok_gguf :: "allocator \<Rightarrow> gguf_source \<Rightarrow> bool" where
  "ok_gguf al f \<longleftrightarrow>
     src_version f \<in> set SUPPORTED_VERSIONS \<and>
     length (src_tensors f) < 2 ^ 64 \<and> ok_count (src_version f) (of_nat (length (src_tensors f))) \<and>
     length (src_kvs f) < 2 ^ 64 \<and> ok_count (src_version f) (of_nat (length (src_kvs f))) \<and>
     al (ReqMap (of_nat (length (src_kvs f)))) \<and>
     al (ReqTensors (of_nat (length (src_tensors f)))) \<and>
     (\<forall>kv\<in>set (src_kvs f). ok_kv al (src_version f) kv) \<and>
     (\<forall>ti\<in>set (src_tensors f). ok_tensor al (src_version f) ti)"

section \<open>Every item of the format\<close>

lemma reads_exact: "length bs = n \<Longrightarrow> reads (read_exact n) p bs bs"
  by (auto simp: reads_def read_exact_def)

lemma reads_word:
  fixes w :: "'a::len word"
  assumes "8 * n = LENGTH('a)"
  shows "reads (read_word n) p (to_le_bytes n w) w"
proof -
  have "reads (\<lambda>r. res_bind (read_exact n r) (\<lambda>(b, r). Ret (from_le_bytes b :: 'a word, r)))
      p (to_le_bytes n w @ []) w"
  proof (rule reads_bind[OF reads_exact])
    show "reads (\<lambda>r. Ret (from_le_bytes (to_le_bytes n w), r)) (p + length (to_le_bytes n w)) [] w"
      using from_to_le_bytes[OF assms, of w] reads_Ret by simp
  qed simp
  then show ?thesis by (simp add: read_word_def[abs_def])
qed

interpretation w8: wire_item read_u8 put_u8 "\<lambda>_. True"
  by unfold_locales (simp add: read_u8_def[abs_def] put_u8_def reads_word del: One_nat_def)

interpretation w16: wire_item read_u16 put_u16 "\<lambda>_. True"
  by unfold_locales (simp add: read_u16_def[abs_def] put_u16_def reads_word)

interpretation w32: wire_item read_u32 put_u32 "\<lambda>_. True"
  by unfold_locales (simp add: read_u32_def[abs_def] put_u32_def reads_word)

interpretation w64: wire_item read_u64 put_u64 "\<lambda>_. True"
  by unfold_locales (simp add: read_u64_def[abs_def] put_u64_def reads_word)

interpretation wcount: wire_item "read_count version" "put_count version" "ok_count version"
proof
  fix n p assume ok: "ok_count version n"
  show "reads (read_count version) p (put_count version n) n"
  proof (cases "version = 1")
    case True
    with ok have "unat (ucast (ucast n :: u32) :: u64) = unat n"
      by (simp add: ok_count_def unsigned_ucast_eq take_bit_nat_eq_self unsigned_take_bit_eq)
    then have "ucast (ucast n :: u32) = n" by (simp only: word_unat_eq_iff)
    then have last: "reads (\<lambda>r. Ret (ucast (ucast n :: u32), r)) q [] n" for q
      by (simp add: reads_Ret)
    show ?thesis
    proof (rule reads_bindI)
      show "reads read_u32 p (put_u32 (ucast n)) (ucast n)" by (rule w32.reads_enc) simp
    qed (rule last, simp_all add: True read_count_def put_count_def)
  next
    case False
    then show ?thesis
      using w64.reads_enc[where x = n and p = p] by (simp add: read_count_def[abs_def] put_count_def)
  qed
qed

interpretation wstring: wire_item "read_gguf_string al" put_string "ok_string al"
proof
  fix s p assume ok: "ok_string al s"
  then have len: "unat (of_nat (length s) :: u64) = length s"
    by (simp add: ok_string_def unat_of_nat take_bit_nat_eq_self)
  show "reads (read_gguf_string al) p (put_string s) s"
  proof (rule reads_bindI)
    show "reads read_u64 p (put_u64 (of_nat (length s))) (of_nat (length s))"
      by (rule w64.reads_enc) simp
    show "reads (\<lambda>r. if \<not> al (ReqBytes (of_nat (length s))) then Panic
        else res_bind (read_exact (unat (of_nat (length s) :: u64)) r) (\<lambda>(buf, r).
          if utf8_valid buf then Ret (of_bytes buf, r) else Fail BadUtf8))
        (p + length (put_u64 (of_nat (length s)))) (as_bytes s) s" (is "reads _ ?q _ _")
    proof (rule reads_bindI)
      show "reads (read_exact (length s)) ?q (as_bytes s) (as_bytes s)"
        by (rule reads_exact) simp
      show "reads (\<lambda>r. if utf8_valid (as_bytes s) then Ret (of_bytes (as_bytes s), r) else Fail BadUtf8)
          (?q + length (as_bytes s)) [] s"
        using ok by (simp add: ok_string_def reads_Ret)
    qed (use ok in \<open>simp_all add: ok_string_def len\<close>)
  qed (simp_all add: put_string_def read_gguf_string_def)
qed

lemma reads_f32: "reads read_f32 p (put_u32 (bits32 x)) x"
proof (rule reads_bindI[OF w32.reads_enc, where f = "\<lambda>w r. Ret (Bits32 w, r)"])
  show "reads (\<lambda>r. Ret (Bits32 (bits32 x), r)) q [] x" for q using reads_Ret[of x] by simp
qed (simp_all add: read_f32_def)

lemma reads_f64: "reads read_f64 p (put_u64 (bits64 x)) x"
proof (rule reads_bindI[OF w64.reads_enc, where f = "\<lambda>w r. Ret (Bits64 w, r)"])
  show "reads (\<lambda>r. Ret (Bits64 (bits64 x), r)) q [] x" for q using reads_Ret[of x] by simp
qed (simp_all add: read_f64_def)

text \<open>A scalar's payload is read back by the reader its tag selects.\<close>

lemma reads_bool: "reads (read_map (\<lambda>b. VBool (b \<noteq> 0)) read_u8) p
    (put_u8 (if c then 1 else 0)) (VBool c)"
  using reads_map[OF w8.reads_enc[OF TrueI, where x = "if c then 1 else 0" and p = p],
      where g = "\<lambda>b. VBool (b \<noteq> 0)"]
  by (cases c) simp_all

lemmas scalar_readers =
  reads_map[OF w8.reads_enc[OF TrueI]] reads_map[OF w16.reads_enc[OF TrueI]]
  reads_map[OF w32.reads_enc[OF TrueI]] reads_map[OF w64.reads_enc[OF TrueI]]
  reads_map[OF reads_f32] reads_map[OF reads_f64] reads_map[OF wstring.reads_enc] reads_bool

lemma reads_scalar:
  assumes "ok_scalar al v"
  shows "reads (read_gguf_value_by_type al (value_tag v)) p (put_scalar v) v"
  using assms
  by (cases v) (simp_all add: read_gguf_value_by_type_def[abs_def] scalar_readers del: if_split)

lemma tag_of_scalar: "ok_scalar al v \<Longrightarrow> value_tag v \<noteq> 9 \<and> value_tag v \<le> 12"
  by (cases v) simp_all

interpretation welem: wire_item "read_gguf_value_by_type al tag" put_scalar
    "\<lambda>v. ok_scalar al v \<and> value_tag v = tag"
  by unfold_locales (use reads_scalar in blast)

lemma reads_elements:
  assumes "\<forall>v\<in>set vs. ok_scalar al v \<and> value_tag v = tag"
  shows "reads (read_n (length vs) (read_gguf_value_by_type al tag)) p
     (concat (map put_scalar vs)) vs"
  by (rule welem.reads_list) (use assms in simp)

lemma reads_array:
  assumes "ok_value al version (VArray vs)"
  shows "reads (read_gguf_array al version) p
     (put_u32 (elem_tag vs) @ put_count version (of_nat (length vs)) @ concat (map put_scalar vs))
     (VArray vs)"
proof -
  have len: "unat (of_nat (length vs) :: u64) = length vs"
    using assms by (simp add: unat_of_nat take_bit_nat_eq_self)
  have elems: "reads (read_map VArray (read_n (length vs) (read_gguf_value_by_type al (elem_tag vs))))
      q (concat (map put_scalar vs)) (VArray vs)" for q
    by (rule reads_map, rule reads_elements) (use assms in simp)
  show ?thesis
  proof (rule reads_bindI)
    show "reads read_u32 p (put_u32 (elem_tag vs)) (elem_tag vs)" by (rule w32.reads_enc) simp
    show "reads (\<lambda>r. res_bind (read_count version r) (\<lambda>(count, r).
        if \<not> al (ReqValues count) then Panic
        else read_map VArray (read_n (unat count) (read_gguf_value_by_type al (elem_tag vs))) r))
        (p + length (put_u32 (elem_tag vs)))
        (put_count version (of_nat (length vs)) @ concat (map put_scalar vs)) (VArray vs)"
      (is "reads _ ?q _ _")
    proof (rule reads_bindI)
      show "reads (read_count version) ?q (put_count version (of_nat (length vs))) (of_nat (length vs))"
        by (rule wcount.reads_enc) (use assms in simp)
      show "reads (\<lambda>r. if \<not> al (ReqValues (of_nat (length vs))) then Panic
          else read_map VArray (read_n (unat (of_nat (length vs) :: u64))
            (read_gguf_value_by_type al (elem_tag vs))) r)
          (?q + length (put_count version (of_nat (length vs)))) (concat (map put_scalar vs)) (VArray vs)"
        using elems assms by (simp add: len)
    qed simp_all
  qed (simp_all add: read_gguf_array_def)
qed

text \<open>The value reader dispatches as the element reader does, arrays and errors apart.\<close>

lemma read_gguf_value_dispatch:
  "read_gguf_value al version r = res_bind (read_u32 r) (\<lambda>(type_id, r).
     if type_id = 9 then read_gguf_array al version r
     else if type_id \<le> 12 then read_gguf_value_by_type al type_id r
     else Fail (BadValueType type_id))"
proof -
  have "type_id \<in> {0,1,2,3,4,5,6,7,8,9,10,11,12}" if "type_id \<le> 12" for type_id :: u32
  proof -
    have "unat type_id \<in> {0..12}" using that by (simp add: word_le_nat_alt)
    also have "{0..12::nat} = {0,1,2,3,4,5,6,7,8,9,10,11,12}"
      by (rule set_eqI) (simp, presburger)
    finally have "word_of_nat (unat type_id) \<in> (word_of_nat ` {0,1,2,3,4,5,6,7,8,9,10,11,12} :: u32 set)"
      by blast
    then show ?thesis by simp
  qed
  then have "(if type_id = 9 then read_gguf_array al version r
     else if type_id \<le> 12 then read_gguf_value_by_type al type_id r
     else Fail (BadValueType type_id)) =
    (if type_id = 0 then read_map VU8 read_u8 r
     else if type_id = 1 then read_map VI8 read_u8 r
     else if type_id = 2 then read_map VU16 read_u16 r
     else if type_id = 3 then read_map VI16 read_u16 r
     else if type_id = 4 then read_map VU32 read_u32 r
     else if type_id = 5 then read_map VI32 read_u32 r
     else if type_id = 6 then read_map VF32 read_f32 r
     else if type_id = 7 then read_map (\<lambda>b. VBool (b \<noteq> 0)) read_u8 r
     else if type_id = 8 then read_map VString (read_gguf_string al) r
     else if type_id = 9 then read_gguf_array al version r
     else if type_id = 10 then read_map VU64 read_u64 r
     else if type_id = 11 then read_map VI64 read_u64 r
     else if type_id = 12 then read_map VF64 read_f64 r
     else Fail (BadValueType type_id))" for type_id r
    by (cases "type_id \<le> 12") (fastforce simp: read_gguf_value_by_type_def, auto)
  then show ?thesis unfolding read_gguf_value_def by simp
qed

lemma reads_value:
  assumes ok: "ok_value al version v"
  shows "reads (read_gguf_value al version) p (put_value version v) v"
proof (cases "\<exists>vs. v = VArray vs")
  case True
  then obtain vs where v: "v = VArray vs" by blast
  show ?thesis
  proof (rule reads_bindI[where f = "\<lambda>type_id r. if type_id = 9 then read_gguf_array al version r
      else if type_id \<le> 12 then read_gguf_value_by_type al type_id r
      else Fail (BadValueType type_id)"])
    show "reads read_u32 p (put_u32 9) 9" by (rule w32.reads_enc) simp
    show "reads (\<lambda>r. if (9::u32) = 9 then read_gguf_array al version r
        else if (9::u32) \<le> 12 then read_gguf_value_by_type al 9 r else Fail (BadValueType 9))
       (p + length (put_u32 9))
       (put_u32 (elem_tag vs) @ put_count version (of_nat (length vs)) @ concat (map put_scalar vs)) v"
      using reads_array ok v by simp
  qed (simp add: v, rule read_gguf_value_dispatch)
next
  case False
  then have sc: "ok_scalar al v" and put: "put_value version v = put_u32 (value_tag v) @ put_scalar v"
    using ok by (cases v; simp)+
  show ?thesis
  proof (rule reads_bindI)
    show "reads read_u32 p (put_u32 (value_tag v)) (value_tag v)" by (rule w32.reads_enc) simp
    show "reads (\<lambda>r. if value_tag v = 9 then read_gguf_array al version r
        else if value_tag v \<le> 12 then read_gguf_value_by_type al (value_tag v) r
        else Fail (BadValueType (value_tag v)))
        (p + length (put_u32 (value_tag v))) (put_scalar v) v"
      using reads_scalar[OF sc] tag_of_scalar[OF sc] by simp
  qed (rule put, rule read_gguf_value_dispatch)
qed

interpretation wvalue: wire_item "read_gguf_value al version" "put_value version" "ok_value al version"
  by unfold_locales (rule reads_value)

section \<open>The header\<close>

definition insert_kv :: "gguf_meta \<Rightarrow> string \<times> gguf_value \<Rightarrow> gguf_meta" where
  "insert_kv m kv = m(fst kv \<mapsto> snd kv)"

lemma foldl_insert_kv: "foldl insert_kv m kvs = m ++ map_of (rev kvs)"
  by (induction kvs arbitrary: m) (simp_all add: insert_kv_def map_add_upd_left map_of_append split: option.split)

lemma reads_kvs:
  "\<forall>kv\<in>set kvs. ok_kv al version kv \<Longrightarrow>
    reads (read_kvs al version (length kvs) m) p (concat (map (put_kv version) kvs))
      (foldl insert_kv m kvs)"
proof (induction kvs arbitrary: m p)
  case Nil
  show ?case by (simp add: reads_def)
next
  case (Cons kv kvs)
  obtain k v where kv: "kv = (k, v)" by fastforce
  with Cons.prems have ok: "ok_string al k" "ok_value al version v"
    and rest: "\<forall>kv\<in>set kvs. ok_kv al version kv" by (simp_all add: ok_kv_def)
  show ?case
  proof (rule reads_bindI[where f = "\<lambda>key r. res_bind (read_gguf_value al version r)
      (\<lambda>(val, r). read_kvs al version (length kvs) (m(key \<mapsto> val)) r)"])
    show "reads (read_gguf_string al) p (put_string k) k" by (rule wstring.reads_enc[OF ok(1)])
    show "reads (\<lambda>r. res_bind (read_gguf_value al version r) (\<lambda>(val, r).
        read_kvs al version (length kvs) (m(k \<mapsto> val)) r)) (p + length (put_string k))
        (put_value version v @ concat (map (put_kv version) kvs)) (foldl insert_kv m (kv # kvs))"
    proof (rule reads_bindI[where f = "\<lambda>val. read_kvs al version (length kvs) (m(k \<mapsto> val))"])
      show "reads (read_gguf_value al version) (p + length (put_string k)) (put_value version v) v"
        by (rule wvalue.reads_enc[OF ok(2)])
      show "reads (read_kvs al version (length kvs) (m(k \<mapsto> v)))
          (p + length (put_string k) + length (put_value version v))
          (concat (map (put_kv version) kvs)) (foldl insert_kv m (kv # kvs))"
        using Cons.IH[OF rest] by (simp add: kv insert_kv_def[of m "(k, v)"])
    qed simp_all
  qed (simp_all add: kv put_kv_def[of version "(k, v)"])
qed

lemma reads_dims:
  "\<forall>d\<in>set ds. ok_count version d \<Longrightarrow>
    reads (read_n (length ds) (read_count version)) p (concat (map (put_count version) ds)) ds"
  by (rule wcount.reads_list)

lemma reads_tensor:
  assumes ok: "ok_tensor al version ti"
  shows "reads (read_tensor_info al version) p (put_tensor version ti) ti"
proof -
  define n :: u32 where "n = of_nat (length (ti_dims ti))"
  have len: "unat n = length (ti_dims ti)"
    using ok by (simp add: ok_tensor_def n_def unat_of_nat take_bit_nat_eq_self)
  have al: "al (ReqDims n)" using ok by (simp add: ok_tensor_def n_def)
  have off: "reads (\<lambda>r. res_bind (read_u64 r) (\<lambda>(offset, r). Ret (\<lparr>ti_name = ti_name ti,
      ti_dims = ti_dims ti, ti_type = ti_type ti, ti_offset = offset\<rparr>, r))) q (put_u64 (ti_offset ti)) ti" for q
  proof (rule reads_bindI)
    show "reads read_u64 q (put_u64 (ti_offset ti)) (ti_offset ti)" by (rule w64.reads_enc) simp
    show "reads (\<lambda>r. Ret (\<lparr>ti_name = ti_name ti, ti_dims = ti_dims ti, ti_type = ti_type ti,
        ti_offset = ti_offset ti\<rparr>, r)) (q + length (put_u64 (ti_offset ti))) [] ti"
      by (cases ti) (simp add: reads_Ret)
  qed simp_all
  have ty: "reads (\<lambda>r. res_bind (read_u32 r) (\<lambda>(ggml_type, r). res_bind (read_u64 r) (\<lambda>(offset, r).
      Ret (\<lparr>ti_name = ti_name ti, ti_dims = ti_dims ti, ti_type = ggml_type, ti_offset = offset\<rparr>, r))))
      q (put_u32 (ti_type ti) @ put_u64 (ti_offset ti)) ti" for q
  proof (rule reads_bindI)
    show "reads read_u32 q (put_u32 (ti_type ti)) (ti_type ti)" by (rule w32.reads_enc) simp
  qed (rule off, simp_all)
  have dims: "reads (\<lambda>r. if \<not> al (ReqDims n) then Panic else
      res_bind (read_n (unat n) (read_count version) r) (\<lambda>(dims, r).
      res_bind (read_u32 r) (\<lambda>(ggml_type, r). res_bind (read_u64 r) (\<lambda>(offset, r).
      Ret (\<lparr>ti_name = ti_name ti, ti_dims = dims, ti_type = ggml_type, ti_offset = offset\<rparr>, r)))))
      q (concat (map (put_count version) (ti_dims ti)) @ put_u32 (ti_type ti) @ put_u64 (ti_offset ti)) ti" for q
  proof (rule reads_bindI)
    show "reads (read_n (length (ti_dims ti)) (read_count version)) q
        (concat (map (put_count version) (ti_dims ti))) (ti_dims ti)"
      by (rule reads_dims) (use ok in \<open>simp add: ok_tensor_def\<close>)
  qed (rule ty, simp_all add: al len)
  have nd: "reads (\<lambda>r. res_bind (read_u32 r) (\<lambda>(n_dims, r). if \<not> al (ReqDims n_dims) then Panic else
      res_bind (read_n (unat n_dims) (read_count version) r) (\<lambda>(dims, r).
      res_bind (read_u32 r) (\<lambda>(ggml_type, r). res_bind (read_u64 r) (\<lambda>(offset, r).
      Ret (\<lparr>ti_name = ti_name ti, ti_dims = dims, ti_type = ggml_type, ti_offset = offset\<rparr>, r))))))
      q (put_u32 n @ concat (map (put_count version) (ti_dims ti)) @ put_u32 (ti_type ti) @
         put_u64 (ti_offset ti)) ti" for q
  proof (rule reads_bindI)
    show "reads read_u32 q (put_u32 n) n" by (rule w32.reads_enc) simp
  qed (rule dims, simp_all)
  show ?thesis
  proof (rule reads_bindI)
    show "reads (read_gguf_string al) p (put_string (ti_name ti)) (ti_name ti)"
      by (rule wstring.reads_enc) (use ok in \<open>simp add: ok_tensor_def\<close>)
  qed (rule nd, simp_all add: put_tensor_def read_tensor_info_def n_def)
qed

interpretation wtensor: wire_item "read_tensor_info al version" "put_tensor version" "ok_tensor al version"
  by unfold_locales (rule reads_tensor)

lemma reads_tensors:
  "\<forall>ti\<in>set tis. ok_tensor al version ti \<Longrightarrow>
    reads (read_n (length tis) (read_tensor_info al version)) p
      (concat (map (put_tensor version) tis)) tis"
  by (rule wtensor.reads_list)

definition source_meta :: "gguf_source \<Rightarrow> gguf_meta" where
  "source_meta f = map_of (rev (src_kvs f))"

definition header_of :: "gguf_source \<Rightarrow> u64 \<Rightarrow> gguf_header" where
  "header_of f off =
     \<lparr>gh_version = src_version f, gh_n_tensors = of_nat (length (src_tensors f)),
      gh_metadata = source_meta f, gh_tensors = src_tensors f, gh_data_offset = off\<rparr>"

text \<open>What the parser does after the two counts, split off so that both halves are short.\<close>

definition parse_tables :: "allocator \<Rightarrow> u32 \<Rightarrow> u64 \<Rightarrow> u64 \<Rightarrow> gguf_header rd" where
  "parse_tables al version n_tensors n_kv r =
     (if \<not> al (ReqMap n_kv) then Panic
      else
      res_bind (read_kvs al version (unat n_kv) Map.empty r) (\<lambda>(metadata, r).
      if \<not> al (ReqTensors n_tensors) then Panic
      else
      res_bind (read_n (unat n_tensors) (read_tensor_info al version) r) (\<lambda>(tensors, r).
      res_bind (align_offset (of_nat (rd_pos r)) (meta_alignment metadata)) (\<lambda>data_offset.
      Ret (\<lparr>gh_version = version, gh_n_tensors = n_tensors, gh_metadata = metadata,
            gh_tensors = tensors, gh_data_offset = data_offset\<rparr>, r)))))"

definition parse_counts :: "allocator \<Rightarrow> u32 \<Rightarrow> gguf_header rd" where
  "parse_counts al version r =
     res_bind (read_count version r) (\<lambda>(n_tensors, r).
     res_bind (read_count version r) (\<lambda>(n_kv, r). parse_tables al version n_tensors n_kv r))"

lemma gguf_parse_eq:
  "gguf_parse al r =
     res_bind (read_u32 r) (\<lambda>(magic, r).
     if magic \<noteq> GGUF_MAGIC then Fail (BadMagic magic)
     else
     res_bind (read_u32 r) (\<lambda>(version, r).
     if version \<notin> set SUPPORTED_VERSIONS then Fail (BadVersion version)
     else parse_counts al version r))"
  unfolding gguf_parse_def parse_counts_def parse_tables_def by (rule refl)

text \<open>Running a reader on what its writer wrote: the equations the header proof rewrites with.\<close>

lemma run_u32: "read_u32 \<lparr>rd_rest = put_u32 w @ t, rd_pos = p\<rparr> =
    Ret (w, \<lparr>rd_rest = t, rd_pos = p + length (put_u32 w)\<rparr>)"
  by (rule w32.decode_encode) simp

lemma run_count: "ok_count version n \<Longrightarrow>
    read_count version \<lparr>rd_rest = put_count version n @ t, rd_pos = p\<rparr> =
    Ret (n, \<lparr>rd_rest = t, rd_pos = p + length (put_count version n)\<rparr>)"
  by (rule wcount.decode_encode)

lemma run_kvs: "\<forall>kv\<in>set kvs. ok_kv al version kv \<Longrightarrow>
    read_kvs al version (length kvs) Map.empty
      \<lparr>rd_rest = concat (map (put_kv version) kvs) @ t, rd_pos = p\<rparr> =
    Ret (map_of (rev kvs), \<lparr>rd_rest = t, rd_pos = p + length (concat (map (put_kv version) kvs))\<rparr>)"
  using readsD[OF reads_kvs[where m = Map.empty]] by (simp add: foldl_insert_kv)

lemma run_tensors: "\<forall>ti\<in>set tis. ok_tensor al version ti \<Longrightarrow>
    read_n (length tis) (read_tensor_info al version)
      \<lparr>rd_rest = concat (map (put_tensor version) tis) @ t, rd_pos = p\<rparr> =
    Ret (tis, \<lparr>rd_rest = t, rd_pos = p + length (concat (map (put_tensor version) tis))\<rparr>)"
  by (rule readsD[OF reads_tensors])

text \<open>The whole file, up to the alignment of the data section.\<close>

lemma gguf_parse_put:
  assumes ok: "ok_gguf al f"
  shows "gguf_parse al \<lparr>rd_rest = put_gguf f @ data, rd_pos = 0\<rparr> =
    res_bind (align_offset (of_nat (length (put_gguf f))) (meta_alignment (source_meta f)))
      (\<lambda>off. Ret (header_of f off, \<lparr>rd_rest = data, rd_pos = length (put_gguf f)\<rparr>))"
proof -
  have n: "unat (of_nat (length (src_kvs f)) :: u64) = length (src_kvs f)"
    "unat (of_nat (length (src_tensors f)) :: u64) = length (src_tensors f)"
    using ok by (simp_all add: ok_gguf_def unat_of_nat take_bit_nat_eq_self)
  have al: "al (ReqMap (of_nat (length (src_kvs f))))" "al (ReqTensors (of_nat (length (src_tensors f))))"
    and c: "ok_count (src_version f) (of_nat (length (src_tensors f)))"
      "ok_count (src_version f) (of_nat (length (src_kvs f)))"
    and v: "src_version f \<in> set SUPPORTED_VERSIONS"
    and kv: "\<forall>kv\<in>set (src_kvs f). ok_kv al (src_version f) kv"
    and ti: "\<forall>ti\<in>set (src_tensors f). ok_tensor al (src_version f) ti"
    using ok by (simp_all add: ok_gguf_def)
  show ?thesis
    by (simp add: gguf_parse_eq parse_counts_def parse_tables_def put_gguf_def run_u32 v
        run_count[OF c(1)] run_count[OF c(2)] al n run_kvs[OF kv] run_tensors[OF ti]
        source_meta_def header_of_def add.assoc del: of_nat_add)
qed

section \<open>Framing of the whole parser\<close>

lemma framed_read_exact [framed_intros]: "framed (read_exact n)"
  unfolding framed_def
proof (intro allI impI)
  fix r x r' assume "read_exact n r = Ret (x, r')"
  then have n: "n \<le> length (rd_rest r)" and x: "x = take n (rd_rest r)"
    and r': "r' = \<lparr>rd_rest = drop n (rd_rest r), rd_pos = rd_pos r + n\<rparr>"
    by (auto simp: read_exact_def split: if_splits)
  then have len: "length x = n" by simp
  show "\<exists>bs. rd_rest r = bs @ rd_rest r' \<and> rd_pos r' = rd_pos r + length bs \<and>
      reads (read_exact n) (rd_pos r) bs x"
    by (intro exI[of _ x] conjI reads_exact len) (simp_all add: x r' n)
qed

lemma framed_word [framed_intros]: "framed (read_word n)"
  unfolding read_word_def[abs_def] by (intro framed_intros)

lemma framed_ints [framed_intros]:
  "framed read_u8" "framed read_u16" "framed read_u32" "framed read_u64"
  "framed read_f32" "framed read_f64" "framed (read_count version)"
  unfolding read_u8_def[abs_def] read_u16_def[abs_def] read_u32_def[abs_def] read_u64_def[abs_def]
    read_f32_def[abs_def] read_f64_def[abs_def] read_count_def[abs_def]
  by (intro framed_intros)+

lemma framed_string [framed_intros]: "framed (read_gguf_string al)"
  unfolding read_gguf_string_def[abs_def] by (intro framed_intros)

lemma framed_by_type [framed_intros]: "framed (read_gguf_value_by_type al tag)"
  unfolding read_gguf_value_by_type_def[abs_def] by (intro framed_intros)

lemma framed_array [framed_intros]: "framed (read_gguf_array al version)"
  unfolding read_gguf_array_def[abs_def] by (intro framed_intros)

lemma framed_value [framed_intros]: "framed (read_gguf_value al version)"
  unfolding read_gguf_value_def[abs_def] by (intro framed_intros)

lemma framed_kvs [framed_intros]: "framed (read_kvs al version n m)"
proof (induction n arbitrary: m)
  case 0
  have "read_kvs al version 0 m = (\<lambda>r. Ret (m, r))" by (rule ext) simp
  then show ?case by (simp add: framed_Ret)
next
  case (Suc n)
  have "read_kvs al version (Suc n) m = (\<lambda>r. res_bind (read_gguf_string al r) (\<lambda>(key, r).
      res_bind (read_gguf_value al version r) (\<lambda>(val, r). read_kvs al version n (m(key \<mapsto> val)) r)))"
    by (rule ext) simp
  moreover have "framed \<dots>" by (intro framed_intros Suc)
  ultimately show ?case by simp
qed

lemma framed_tensor [framed_intros]: "framed (read_tensor_info al version)"
  unfolding read_tensor_info_def[abs_def] by (intro framed_intros)

lemma framed_parse [framed_intros]: "framed (gguf_parse al)"
  unfolding gguf_parse_def[abs_def] by (intro framed_intros)

section \<open>Where the tensor data starts\<close>

lemma unat_align:
  fixes pos a :: u64
  assumes "a \<noteq> 0" and "unat pos + unat a \<le> 2 ^ 64"
  shows "unat ((pos + a - 1) div a * a) = (unat pos + unat a - 1) div unat a * unat a"
proof -
  have a: "1 \<le> unat a" using assms(1) by (simp add: Suc_le_eq unat_gt_0)
  have "pos + a - 1 = of_nat (unat pos + unat a - 1)"
    using a by (simp add: of_nat_diff)
  then have "unat (pos + a - 1) = unat (of_nat (unat pos + unat a - 1) :: u64)"
    by (rule arg_cong)
  also have "\<dots> = unat pos + unat a - 1"
    using assms a by (subst unat_of_nat) (auto intro!: mod_less)
  finally have sum: "unat (pos + a - 1) = unat pos + unat a - 1" .
  let ?q = "(unat pos + unat a - 1) div unat a"
  have "?q * unat a \<le> unat pos + unat a - 1" by simp
  then have "?q * unat a < 2 ^ 64" using assms(2) a by linarith
  then show ?thesis
    by (simp add: unat_word_ariths(2) unat_div_distrib sum take_bit_nat_eq_self take_bit_eq_mod[symmetric])
qed

lemma align_offset_spec:
  assumes "align_offset pos a = Ret off" and "unat pos + unat a \<le> 2 ^ 64"
  shows "unat pos \<le> unat off \<and> unat off < unat pos + unat a \<and> unat a dvd unat off"
proof -
  have a: "a \<noteq> 0" and off: "off = (pos + a - 1) div a * a"
    using assms(1) by (auto simp: align_offset_def split: if_splits)
  have u: "unat off = (unat pos + unat a - 1) div unat a * unat a"
    using unat_align[OF a assms(2)] off by simp
  have pos: "0 < unat a" using a by (simp add: unat_gt_0)
  let ?s = "unat pos + unat a - 1"
  have "?s div unat a * unat a + ?s mod unat a = ?s" by simp
  moreover have "?s mod unat a < unat a" using pos by simp
  ultimately have "unat pos \<le> unat off \<and> unat off < unat pos + unat a"
    using u pos by linarith
  then show ?thesis using u by simp
qed

lemma gguf_parse_offset:
  assumes "gguf_parse al r = Ret (h, r')"
  shows "align_offset (of_nat (rd_pos r')) (meta_alignment (gh_metadata h)) = Ret (gh_data_offset h)"
  using assms by (auto simp: gguf_parse_def split: if_splits)

lemma gguf_parse_consumed:
  assumes "gguf_parse al r = Ret (h, r')"
  obtains bs where "rd_rest r = bs @ rd_rest r'" and "rd_pos r' = rd_pos r + length bs"
    and "reads (gguf_parse al) (rd_pos r) bs h"
  using framed_parse assms unfolding framed_def by blast

lemma unat_meta_alignment: "unat (meta_alignment m) < 2 ^ 32"
proof -
  have "unat (ucast w :: u64) < 2 ^ 32" for w :: u32
  proof -
    have "unat w < 2 ^ 32" using unsigned_less[where w = w and ?'a = nat] by simp
    then show ?thesis by (simp add: unsigned_ucast_eq take_bit_nat_eq_self)
  qed
  then show ?thesis by (simp add: meta_alignment_def split: option.split)
qed

section \<open>Properties\<close>

text \<open>
  C6: reading what a GGUF author wrote gives it back: for every well-formed file of version
  1, 2 or 3 (64-bit string lengths), whatever tensor data follows, the parser returns the
  version, the metadata with a repeated key's last value, all tensor descriptors in order
  and the padded data offset, and stops exactly at the end of the header.
\<close>

theorem gguf_roundtrip:
  assumes "ok_gguf al f" and "meta_alignment (source_meta f) \<noteq> 0"
  shows "gguf_parse al \<lparr>rd_rest = put_gguf f @ data, rd_pos = 0\<rparr> =
    Ret (header_of f ((of_nat (length (put_gguf f)) + meta_alignment (source_meta f) - 1)
           div meta_alignment (source_meta f) * meta_alignment (source_meta f)),
         \<lparr>rd_rest = data, rd_pos = length (put_gguf f)\<rparr>)"
  using assms by (simp add: gguf_parse_put align_offset_def)

text \<open>
  C26: a truncated header is never accepted: if the parser takes a header from the front of
  a file, then every file cut inside that header makes it report the end of file.
\<close>

theorem gguf_truncated:
  assumes "gguf_parse al \<lparr>rd_rest = bs, rd_pos = 0\<rparr> = Ret (h, r')"
    and "k < length bs - length (rd_rest r')"
  shows "gguf_parse al \<lparr>rd_rest = take k bs, rd_pos = 0\<rparr> = Fail UnexpectedEof"
proof -
  obtain cs where cs: "bs = cs @ rd_rest r'" and r: "reads (gguf_parse al) 0 cs h"
    using gguf_parse_consumed[OF assms(1)] by auto
  then have "k < length cs" using assms(2) by simp
  then have "take k bs = take k cs" by (simp add: cs)
  then show ?thesis using reads_eofD[OF r \<open>k < length cs\<close>] by simp
qed

text \<open>
  C31: the tensor data of an accepted file starts at a multiple of the file's alignment (32
  when the metadata names none), at or after the last header byte and less than one
  alignment unit beyond it.
\<close>

theorem gguf_data_offset:
  assumes "gguf_parse al \<lparr>rd_rest = bs, rd_pos = 0\<rparr> = Ret (h, r')" and "length bs \<le> 2 ^ 63"
  shows "unat (meta_alignment (gh_metadata h)) dvd unat (gh_data_offset h) \<and>
    length bs - length (rd_rest r') \<le> unat (gh_data_offset h) \<and>
    unat (gh_data_offset h) < length bs - length (rd_rest r') + unat (meta_alignment (gh_metadata h))"
proof -
  obtain cs where cs: "bs = cs @ rd_rest r'" and pos: "rd_pos r' = length cs"
    using gguf_parse_consumed[OF assms(1)] by auto
  have u: "unat (of_nat (rd_pos r') :: u64) = length cs"
    using assms(2) cs pos by (simp add: unat_of_nat take_bit_nat_eq_self)
  have "unat (of_nat (rd_pos r') :: u64) + unat (meta_alignment (gh_metadata h)) \<le> 2 ^ 64"
    using unat_meta_alignment[of "gh_metadata h"] assms(2) cs u by simp
  from align_offset_spec[OF gguf_parse_offset[OF assms(1)] this] show ?thesis
    using cs u by simp
qed

text \<open>
  C35: a well-formed file whose \<^verbatim>\<open>general.alignment\<close> is 0 panics the parser (a division by
  zero) instead of being reported as invalid data.
\<close>

theorem gguf_zero_alignment_panics:
  assumes "ok_gguf al f" and "source_meta f ''general.alignment'' = Some (VU32 0)"
  shows "gguf_parse al \<lparr>rd_rest = put_gguf f @ data, rd_pos = 0\<rparr> = Panic"
  using assms by (simp add: gguf_parse_put align_offset_def meta_alignment_def)

text \<open>
  A file whose first four bytes are not the magic number, or whose version is not 1, 2
  or 3, is rejected with the error that names the number read, before anything else of the
  file is looked at.
\<close>

theorem gguf_rejects_foreign:
  shows "(m \<noteq> GGUF_MAGIC \<longrightarrow>
      gguf_parse al \<lparr>rd_rest = put_u32 m @ t, rd_pos = p\<rparr> = Fail (BadMagic m)) \<and>
    (v \<notin> {1, 2, 3} \<longrightarrow>
      gguf_parse al \<lparr>rd_rest = put_u32 GGUF_MAGIC @ put_u32 v @ t, rd_pos = p\<rparr> = Fail (BadVersion v))"
  by (simp add: gguf_parse_eq run_u32 SUPPORTED_VERSIONS_def)

text \<open>
  The entry count in the first 24 bytes of a version 2 or 3 file decides the size of a
  memory request made before a single entry is read: when the allocator cannot serve it,
  the parser panics whatever follows, even nothing.
\<close>

theorem gguf_count_before_entries:
  assumes "v = 2 \<or> v = 3" and "\<not> al (ReqMap n_kv)"
  shows "gguf_parse al
    \<lparr>rd_rest = put_u32 GGUF_MAGIC @ put_u32 v @ put_u64 n_tensors @ put_u64 n_kv @ t, rd_pos = 0\<rparr> = Panic"
proof -
  have c: "v \<in> set SUPPORTED_VERSIONS" "ok_count v n_tensors" "ok_count v n_kv"
    "put_count v n = put_u64 n" for n
    using assms(1) by (auto simp: SUPPORTED_VERSIONS_def ok_count_def put_count_def)
  show ?thesis
    using run_count[OF c(2)] run_count[OF c(3)] assms(2)
    by (simp add: gguf_parse_eq parse_counts_def parse_tables_def run_u32 c)
qed

section \<open>Witnesses\<close>

definition sample_source :: gguf_source where
  "sample_source =
     \<lparr>src_version = 3,
      src_kvs = [(''general.alignment'', VU32 64), (''a'', VArray [VString ''hi'', VString '''']),
                 (''a'', VBool True)],
      src_tensors = [\<lparr>ti_name = ''w'', ti_dims = [2, 3], ti_type = 1, ti_offset = 0\<rparr>]\<rparr>"

definition zero_source :: gguf_source where
  "zero_source =
     \<lparr>src_version = 3, src_kvs = [(''general.alignment'', VU32 0)], src_tensors = []\<rparr>"

lemma utf8_valid_ascii_string:
  assumes "list_all (\<lambda>c. of_char c < (128::nat)) s"
  shows "utf8_valid (as_bytes s)"
proof (rule utf8_valid_ascii)
  have "byte_of_char c < 0x80" if "of_char c < (128::nat)" for c
    using that by (simp add: byte_of_char_def word_less_nat_alt unat_of_nat)
  then show "\<forall>b\<in>set (as_bytes s). b < 0x80"
    using assms by (auto simp: as_bytes_def list_all_iff)
qed

lemma sample_source_ok: "ok_gguf (\<lambda>_. True) sample_source"
  by (simp add: sample_source_def ok_gguf_def ok_count_def ok_kv_def ok_tensor_def ok_string_def
      elem_tag_def SUPPORTED_VERSIONS_def utf8_valid_ascii_string)

lemma sample_meta: "source_meta sample_source ''general.alignment'' = Some (VU32 64)"
  by (simp add: source_meta_def sample_source_def)

lemma put_lengths [layout_simps]:
  "length (put_u8 a) = 1" "length (put_u16 b) = 2" "length (put_u32 c) = 4" "length (put_u64 d) = 8"
  "length (put_string s) = 8 + length s"
  by (simp_all add: put_u8_def put_u16_def put_u32_def put_u64_def put_string_def)

lemma sample_length: "length (put_gguf sample_source) = 155"
  by (simp add: sample_source_def put_gguf_def put_kv_def put_tensor_def put_count_def layout_simps)

lemma sample_alignment: "meta_alignment (source_meta sample_source) = 64"
  by (simp add: meta_alignment_def sample_meta)

lemma sample_parse: "gguf_parse (\<lambda>_. True) \<lparr>rd_rest = put_gguf sample_source @ data, rd_pos = 0\<rparr> =
    Ret (header_of sample_source 192, \<lparr>rd_rest = data, rd_pos = 155\<rparr>)"
  by (simp add: gguf_parse_put[OF sample_source_ok] sample_alignment align_offset_def sample_length)

lemma sample_header_meta: "gh_metadata (header_of sample_source off) = source_meta sample_source"
  by (simp add: header_of_def)

theorem gguf_roundtrip_witness:
  "gguf_parse (\<lambda>_. True) \<lparr>rd_rest = put_gguf sample_source @ [7, 7], rd_pos = 0\<rparr> =
     Ret (header_of sample_source 192, \<lparr>rd_rest = [7, 7], rd_pos = 155\<rparr>)"
  using gguf_roundtrip[OF sample_source_ok, of "[7, 7]"]
  by (simp add: sample_alignment sample_length)

theorem gguf_truncated_witness:
  "gguf_parse (\<lambda>_. True) \<lparr>rd_rest = take 100 (put_gguf sample_source), rd_pos = 0\<rparr> =
     Fail UnexpectedEof"
  using gguf_truncated[OF sample_parse[of "[]", simplified], of 100] by (simp add: sample_length)

theorem gguf_data_offset_witness:
  "unat (64 :: u64) dvd unat (gh_data_offset (header_of sample_source 192)) \<and>
   155 \<le> unat (gh_data_offset (header_of sample_source 192)) \<and>
   unat (gh_data_offset (header_of sample_source 192)) < 155 + unat (64 :: u64)"
proof -
  have "length (put_gguf sample_source) \<le> 2 ^ 63" by (simp add: sample_length)
  from gguf_data_offset[OF sample_parse[of "[]", unfolded append_Nil2] this] show ?thesis
    by (simp only: sample_length sample_header_meta sample_alignment reader.simps list.size diff_zero)
qed

theorem gguf_zero_alignment_panics_witness:
  "gguf_parse (\<lambda>_. True) \<lparr>rd_rest = put_gguf zero_source @ [], rd_pos = 0\<rparr> = Panic"
  by (rule gguf_zero_alignment_panics)
    (simp_all add: zero_source_def source_meta_def ok_gguf_def ok_count_def ok_kv_def
      ok_string_def SUPPORTED_VERSIONS_def utf8_valid_ascii_string)

theorem gguf_rejects_foreign_witness:
  "gguf_parse (\<lambda>_. True) \<lparr>rd_rest = put_u32 1 @ [], rd_pos = 0\<rparr> = Fail (BadMagic 1) \<and>
   gguf_parse (\<lambda>_. True) \<lparr>rd_rest = put_u32 GGUF_MAGIC @ put_u32 4 @ [], rd_pos = 0\<rparr> = Fail (BadVersion 4)"
  using gguf_rejects_foreign[of 1 "\<lambda>_. True" "[]" 0 4] by (simp add: GGUF_MAGIC_def)

theorem gguf_count_before_entries_witness:
  "gguf_parse (\<lambda>q. case q of ReqMap n \<Rightarrow> n < 1000 | _ \<Rightarrow> True)
    \<lparr>rd_rest = put_u32 GGUF_MAGIC @ put_u32 3 @ put_u64 0 @ put_u64 0xFFFFFFFFFFFFFFFF @ [], rd_pos = 0\<rparr>
    = Panic"
  by (rule gguf_count_before_entries) simp_all

end
