(* ===== verification/Tokenizer.thy ===== *)
theory Tokenizer imports Prelude Ieee_Float begin

text \<open>
  \<^verbatim>\<open>src/src/tokenizer.rs\<close>: the byte-level BPE tokenizer. A tokenizer is the vocabulary
  (id to text), the reverse table, the merge ranks and the byte fallback table, built by
  \<open>from_gguf_parts\<close>; \<open>encode\<close> maps the text to GPT-2's printable alphabet, cuts it
  greedily into vocabulary entries and merges adjacent pairs; \<open>decode\<close> and
  \<open>decode_one\<close> turn ids back into text. Indexing that Rust would panic on is \<open>Panic\<close>.
\<close>

section \<open>Constants and data\<close>

definition TOKEN_BOS :: u32 where
  "TOKEN_BOS = 128000"

definition TOKEN_EOS :: u32 where
  "TOKEN_EOS = 128001"

definition TOKEN_EOT :: u32 where
  "TOKEN_EOT = 128009"

definition TOKEN_PAD :: u32 where
  "TOKEN_PAD = 128004"

definition U32_MAX :: u32 where
  "U32_MAX = 0xFFFFFFFF"

datatype tokenizer_error =
    MissingVocab | MissingMerges | VocabSizeMismatch nat nat | InvalidUtf8 | UnknownToken string

record vocab_entry =
  ve_text :: "u8 list"
  ve_score :: f32
  ve_type :: u32

record tokenizer =
  tk_vocab :: "vocab_entry list"
  tk_ids :: "u8 list \<rightharpoonup> u32"
  tk_merges :: "u32 \<times> u32 \<rightharpoonup> u32"
  tk_bytes :: "u32 list"

section \<open>Byte tokens\<close>

definition hex_digit :: "char \<Rightarrow> nat option" where
  "hex_digit c =
     (let n = of_char c :: nat in
      if 48 \<le> n \<and> n \<le> 57 then Some (n - 48)
      else if 65 \<le> n \<and> n \<le> 70 then Some (n - 55)
      else if 97 \<le> n \<and> n \<le> 102 then Some (n - 87)
      else None)"

fun hex_acc :: "nat \<Rightarrow> string \<Rightarrow> nat option" where
  "hex_acc acc [] = Some acc"
| "hex_acc acc (c # cs) =
     (case hex_digit c of
        None \<Rightarrow> None
      | Some d \<Rightarrow> if 255 < acc * 16 + d then None else hex_acc (acc * 16 + d) cs)"

text \<open>\<^verbatim>\<open>u8::from_str_radix(s, 16).ok()\<close>: one leading plus sign is allowed.\<close>

definition from_str_radix16 :: "string \<Rightarrow> u8 option" where
  "from_str_radix16 s =
     (if s = [] \<or> s = ''+'' then None
      else map_option of_nat (hex_acc 0 (if hd s = CHR ''+'' then tl s else s)))"

definition strip_prefix :: "string \<Rightarrow> string \<Rightarrow> string option" where
  "strip_prefix p s = (if take (length p) s = p then Some (drop (length p) s) else None)"

definition strip_suffix :: "string \<Rightarrow> string \<Rightarrow> string option" where
  "strip_suffix p s =
     (if length p \<le> length s \<and> drop (length s - length p) s = p
      then Some (take (length s - length p) s) else None)"

definition parse_byte_token :: "string \<Rightarrow> u8 option" where
  "parse_byte_token s =
     Option.bind (Option.bind (strip_prefix ''<0x'' s) (strip_suffix ''>'')) from_str_radix16"

section \<open>Construction\<close>

definition token_text :: "string \<Rightarrow> u8 list" where
  "token_text tok = (case parse_byte_token tok of Some b \<Rightarrow> [b] | None \<Rightarrow> as_bytes tok)"

fun add_tokens ::
    "f32 list \<Rightarrow> u32 list \<Rightarrow> nat \<Rightarrow> string list \<Rightarrow>
     vocab_entry list \<times> (u8 list \<rightharpoonup> u32) \<Rightarrow> vocab_entry list \<times> (u8 list \<rightharpoonup> u32)" where
  "add_tokens scores types i [] acc = acc"
| "add_tokens scores types i (tok # toks) (vocab, ids) =
     add_tokens scores types (Suc i) toks
       (vocab @ [\<lparr>ve_text = token_text tok,
                  ve_score = (if scores \<noteq> [] \<and> i < length scores then scores ! i else 0),
                  ve_type = (if i < length types then types ! i else 1)\<rparr>],
        ids(token_text tok \<mapsto> of_nat i))"

definition split_once_space :: "string \<Rightarrow> (string \<times> string) option" where
  "split_once_space s =
     (case dropWhile (\<lambda>c. c \<noteq> CHR '' '') s of
        [] \<Rightarrow> None
      | _ # r \<Rightarrow> Some (takeWhile (\<lambda>c. c \<noteq> CHR '' '') s, r))"

definition add_merge ::
    "(u8 list \<rightharpoonup> u32) \<Rightarrow> nat \<Rightarrow> string \<Rightarrow> (u32 \<times> u32 \<rightharpoonup> u32) \<Rightarrow> (u32 \<times> u32 \<rightharpoonup> u32)" where
  "add_merge ids rank s m =
     (case split_once_space s of
        None \<Rightarrow> m
      | Some (l, r) \<Rightarrow>
          (case (ids (as_bytes l), ids (as_bytes r)) of
             (Some lid, Some rid) \<Rightarrow> m((lid, rid) \<mapsto> of_nat rank)
           | _ \<Rightarrow> m))"

fun add_merges ::
    "(u8 list \<rightharpoonup> u32) \<Rightarrow> nat \<Rightarrow> string list \<Rightarrow> (u32 \<times> u32 \<rightharpoonup> u32) \<Rightarrow> (u32 \<times> u32 \<rightharpoonup> u32)" where
  "add_merges ids rank [] m = m"
| "add_merges ids rank (s # ss) m = add_merges ids (Suc rank) ss (add_merge ids rank s m)"

text \<open>The first pass over the vocabulary; an empty text of type 6 is indexed at 0.\<close>

fun byte_pass :: "nat \<Rightarrow> vocab_entry list \<Rightarrow> u32 list \<Rightarrow> (u32 list, tokenizer_error) outcome" where
  "byte_pass i [] table = Ret table"
| "byte_pass i (e # es) table =
     (if ve_type e = 6 \<or> (length (ve_text e) = 1 \<and> ve_type e \<noteq> 1)
      then (case ve_text e of
              [] \<Rightarrow> Panic
            | b # _ \<Rightarrow> byte_pass (Suc i) es (table[unat b := of_nat i]))
      else byte_pass (Suc i) es table)"

definition hex_upper :: "nat \<Rightarrow> char" where
  "hex_upper n = char_of (if n < 10 then 48 + n else 55 + n)"

definition byte_repr :: "nat \<Rightarrow> string" where
  "byte_repr b = ''<0x'' @ [hex_upper (b div 16), hex_upper (b mod 16)] @ ''>''"

definition byte_gap :: "(u8 list \<rightharpoonup> u32) \<Rightarrow> u32 list \<Rightarrow> nat \<Rightarrow> u32" where
  "byte_gap ids table b =
     (if table ! b = U32_MAX
      then (case ids (as_bytes (byte_repr b)) of Some tid \<Rightarrow> tid | None \<Rightarrow> 0)
      else table ! b)"

definition from_gguf_parts ::
    "string list \<Rightarrow> f32 list \<Rightarrow> u32 list \<Rightarrow> string list \<Rightarrow> (tokenizer, tokenizer_error) outcome" where
  "from_gguf_parts tokens scores types merges =
     (let n = length tokens in
      if scores \<noteq> [] \<and> length scores \<noteq> n then Fail (VocabSizeMismatch n (length scores))
      else
      let (vocab, ids) = add_tokens scores types 0 tokens ([], Map.empty);
          ranks = add_merges ids 0 merges Map.empty
      in res_bind (byte_pass 0 vocab (replicate 256 U32_MAX)) (\<lambda>table.
         Ret \<lparr>tk_vocab = vocab, tk_ids = ids, tk_merges = ranks,
              tk_bytes = map (byte_gap ids table) [0..<256]\<rparr>))"

definition vocab_size :: "tokenizer \<Rightarrow> nat" where
  "vocab_size tk = length (tk_vocab tk)"

section \<open>GPT-2's byte alphabet\<close>

definition gpt2_printable :: "nat \<Rightarrow> bool" where
  "gpt2_printable b \<longleftrightarrow>
     (33 \<le> b \<and> b \<le> 126) \<or> (161 \<le> b \<and> b \<le> 172) \<or> (174 \<le> b \<and> b \<le> 255)"

function table_loop :: "nat \<Rightarrow> u32 \<Rightarrow> u32 list" where
  "table_loop b n =
     (if b < 256
      then (if gpt2_printable b then of_nat b # table_loop (b + 1) n
            else (256 + n) # table_loop (b + 1) (n + 1))
      else [])"
  by pat_completeness auto
termination
  by (relation "measure (\<lambda>(b, n). 256 - b)") auto

declare table_loop.simps [simp del]

definition TABLE :: "u32 list" where
  "TABLE = table_loop 0 0"

definition utf8_of_cp :: "u32 \<Rightarrow> u8 list" where
  "utf8_of_cp cp =
     (if cp < 0x80 then [ucast cp]
      else if cp < 0x800 then [0xC0 OR ucast (drop_bit 6 cp), 0x80 OR ucast (cp AND 0x3F)]
      else [0xE0 OR ucast (drop_bit 12 cp), 0x80 OR ucast (drop_bit 6 cp AND 0x3F),
            0x80 OR ucast (cp AND 0x3F)])"

definition gpt2_char :: "u8 \<Rightarrow> u8 list" where
  "gpt2_char b = utf8_of_cp (TABLE ! unat b)"

definition bytes_to_gpt2_unicode :: "u8 list \<Rightarrow> u8 list" where
  "bytes_to_gpt2_unicode bs = concat (map gpt2_char bs)"

definition gpt2_char_len :: "u8 \<Rightarrow> nat" where
  "gpt2_char_len b = (if b < 0x80 then 1 else if b < 0xE0 then 2 else 3)"

fun orig_scan :: "u8 list \<Rightarrow> nat \<Rightarrow> nat \<Rightarrow> nat \<Rightarrow> nat \<Rightarrow> (nat, tokenizer_error) outcome" where
  "orig_scan gpt2 pos idx 0 g = Ret 0"
| "orig_scan gpt2 pos idx (Suc n) g =
     (if g = pos then Ret idx
      else if g < length gpt2 then orig_scan gpt2 pos (Suc idx) n (g + gpt2_char_len (gpt2 ! g))
      else Panic)"

definition orig_byte_at :: "u8 list \<Rightarrow> u8 list \<Rightarrow> nat \<Rightarrow> (nat, tokenizer_error) outcome" where
  "orig_byte_at orig gpt2 pos = orig_scan gpt2 pos 0 (length orig) 0"

section \<open>Encoding\<close>

text \<open>The longest vocabulary entry at position \<open>i\<close> of at most \<open>len\<close> bytes.\<close>

fun longest_match :: "(u8 list \<rightharpoonup> u32) \<Rightarrow> u8 list \<Rightarrow> nat \<Rightarrow> nat \<Rightarrow> (u32 \<times> nat) option" where
  "longest_match ids bytes i 0 = None"
| "longest_match ids bytes i (Suc len) =
     (case ids (take (Suc len) (drop i bytes)) of
        Some tid \<Rightarrow> Some (tid, Suc len)
      | None \<Rightarrow> longest_match ids bytes i len)"

lemma longest_match_bounds: "longest_match ids bytes i n = Some (tid, len) \<Longrightarrow> 0 < len \<and> len \<le> n"
  by (induction n) (auto split: option.splits)

lemma gpt2_char_len_pos: "0 < gpt2_char_len b"
  by (simp add: gpt2_char_len_def)

function init_loop ::
    "tokenizer \<Rightarrow> u8 list \<Rightarrow> u8 list \<Rightarrow> nat \<Rightarrow> u32 list \<Rightarrow> (u32 list, tokenizer_error) outcome" where
  "init_loop tk text bytes i out =
     (if i < length bytes then
        (case longest_match (tk_ids tk) bytes i (min (length bytes - i) 64) of
           Some (tid, len) \<Rightarrow> init_loop tk text bytes (i + len) (out @ [tid])
         | None \<Rightarrow>
             (case orig_byte_at text bytes i of
                Ret k \<Rightarrow>
                  if k < length (tk_bytes tk)
                  then init_loop tk text bytes (i + gpt2_char_len (bytes ! i)) (out @ [tk_bytes tk ! k])
                  else Panic
              | Fail e \<Rightarrow> Fail e
              | Panic \<Rightarrow> Panic))
      else Ret out)"
  by pat_completeness auto
termination
  by (relation "measure (\<lambda>(tk, text, bytes, i, out). length bytes - i)")
    (auto dest: longest_match_bounds intro!: diff_less_mono2 simp: gpt2_char_len_pos)

declare init_loop.simps [simp del]

definition initial_tokenise :: "tokenizer \<Rightarrow> string \<Rightarrow> (u32 list, tokenizer_error) outcome" where
  "initial_tokenise tk text =
     init_loop tk (as_bytes text) (bytes_to_gpt2_unicode (as_bytes text)) 0 []"

text \<open>The scan for the leftmost pair of lowest rank below \<^verbatim>\<open>u32::MAX\<close>.\<close>

fun best_scan :: "(u32 \<times> u32 \<rightharpoonup> u32) \<Rightarrow> nat \<Rightarrow> u32 list \<Rightarrow> u32 \<times> nat option \<Rightarrow> u32 \<times> nat option" where
  "best_scan m i (a # b # rest) (rank, pos) =
     best_scan m (Suc i) (b # rest)
       (case m (a, b) of
          Some r \<Rightarrow> if r < rank then (r, Some i) else (rank, pos)
        | None \<Rightarrow> (rank, pos))"
| "best_scan m i _ acc = acc"

definition best_pair :: "tokenizer \<Rightarrow> u32 list \<Rightarrow> nat option" where
  "best_pair tk ids = snd (best_scan (tk_merges tk) 0 ids (U32_MAX, None))"

lemma best_scan_bounds:
  "snd (best_scan m i ids acc) = Some p \<Longrightarrow> snd acc = Some p \<or> (i \<le> p \<and> Suc p < i + length ids)"
  by (induction m i ids acc rule: best_scan.induct) (fastforce split: option.splits if_splits)+

lemma best_pair_bounds: "best_pair tk ids = Some p \<Longrightarrow> Suc p < length ids"
  using best_scan_bounds[of "tk_merges tk" 0 ids "(U32_MAX, None)" p] by (simp add: best_pair_def)

definition text_of :: "tokenizer \<Rightarrow> u32 \<Rightarrow> (u8 list, tokenizer_error) outcome" where
  "text_of tk tid =
     (if unat tid < length (tk_vocab tk) then Ret (ve_text (tk_vocab tk ! unat tid)) else Panic)"

function bpe_merge :: "tokenizer \<Rightarrow> u32 list \<Rightarrow> (u32 list, tokenizer_error) outcome" where
  "bpe_merge tk ids =
     (if length ids < 2 then Ret ids
      else case best_pair tk ids of
        None \<Rightarrow> Ret ids
      | Some p \<Rightarrow>
          (case (text_of tk (ids ! p), text_of tk (ids ! Suc p)) of
             (Ret l, Ret r) \<Rightarrow>
               (case tk_ids tk (l @ r) of
                  Some merged \<Rightarrow> bpe_merge tk (take p ids @ merged # drop (p + 2) ids)
                | None \<Rightarrow> Ret ids)
           | _ \<Rightarrow> Panic))"
  by pat_completeness auto
termination
  by (relation "measure (\<lambda>(tk, ids). length ids)") (auto dest: best_pair_bounds)

declare bpe_merge.simps [simp del]

definition encode :: "tokenizer \<Rightarrow> string \<Rightarrow> bool \<Rightarrow> (u32 list, tokenizer_error) outcome" where
  "encode tk text add_bos =
     res_bind (initial_tokenise tk text) (\<lambda>working.
     res_bind (bpe_merge tk working) (\<lambda>working.
     Ret ((if add_bos then [TOKEN_BOS] else []) @ working)))"

definition encode_no_bos :: "tokenizer \<Rightarrow> string \<Rightarrow> (u32 list, tokenizer_error) outcome" where
  "encode_no_bos tk text = encode tk text False"

section \<open>Decoding\<close>

definition decode_bytes :: "tokenizer \<Rightarrow> u32 \<Rightarrow> u8 list" where
  "decode_bytes tk tid =
     (if tid = TOKEN_BOS \<or> tid = TOKEN_EOS \<or> tid = TOKEN_PAD then []
      else if unat tid < length (tk_vocab tk) then
        (if ve_type (tk_vocab tk ! unat tid) = 3 then [] else ve_text (tk_vocab tk ! unat tid))
      else [])"

definition decode :: "tokenizer \<Rightarrow> u32 list \<Rightarrow> string" where
  "decode tk ids =
     (let bytes = concat (map (decode_bytes tk) ids)
      in of_bytes (if utf8_valid bytes then bytes else utf8_lossy bytes))"

text \<open>
  \<^verbatim>\<open>str::replace\<close> of a two-byte character in well-formed UTF-8, where its lead byte
  occurs only at the head of a character.
\<close>

fun replace2 :: "u8 \<Rightarrow> u8 \<Rightarrow> u8 \<Rightarrow> u8 list \<Rightarrow> u8 list" where
  "replace2 a b c (x # y # r) =
     (if x = a \<and> y = b then c # replace2 a b c r else x # replace2 a b c (y # r))"
| "replace2 a b c r = r"

definition decode_one :: "tokenizer \<Rightarrow> u32 \<Rightarrow> string option" where
  "decode_one tk tid =
     (if tid = TOKEN_BOS \<or> tid = TOKEN_EOS \<or> tid = TOKEN_EOT \<or> tid = TOKEN_PAD then None
      else if unat tid < length (tk_vocab tk) then
        (if ve_type (tk_vocab tk ! unat tid) = 3 then None
         else Some (of_bytes (replace2 0xC4 0x8A 0x0A
                     (replace2 0xC4 0xA0 0x20 (utf8_lossy (ve_text (tk_vocab tk ! unat tid)))))))
      else None)"

definition is_eos :: "u32 \<Rightarrow> bool" where
  "is_eos tid \<longleftrightarrow> tid = TOKEN_EOS \<or> tid = TOKEN_EOT"

end
