(* ===== verification/Tokenizer_Alphabet.thy ===== *)
theory Tokenizer_Alphabet imports Tokenizer begin

text \<open>
  GPT-2's byte alphabet: the table in closed form, its UTF-8 image, and that the image of
  a byte string is valid UTF-8, at most twice as long, and determines the byte string.
\<close>

section \<open>The table in closed form\<close>

definition gpt2_cp :: "nat \<Rightarrow> nat" where
  "gpt2_cp b =
     (if b < 33 then 256 + b
      else if b < 127 then b
      else if b < 161 then b + 162
      else if b = 173 then 323 else b)"

lemma table_loop_printable:
  "b < 256 \<Longrightarrow> gpt2_printable b \<Longrightarrow> table_loop b n = of_nat b # table_loop (Suc b) n"
  by (simp add: table_loop.simps[of b])

lemma table_loop_other:
  "b < 256 \<Longrightarrow> \<not> gpt2_printable b \<Longrightarrow> table_loop b n = (256 + n) # table_loop (Suc b) (n + 1)"
  by (simp add: table_loop.simps[of b])

text \<open>Runs of the loop over a range where every byte goes to the same side.\<close>

lemma table_loop_run_printable:
  assumes "\<forall>c. b \<le> c \<and> c < b + k \<longrightarrow> gpt2_printable c" and "b + k \<le> 256"
  shows "table_loop b n = map of_nat [b..<b + k] @ table_loop (b + k) n"
  using assms
proof (induction k arbitrary: b)
  case (Suc k)
  have "table_loop b n = of_nat b # table_loop (Suc b) n"
    using Suc.prems by (intro table_loop_printable) auto
  also have "table_loop (Suc b) n = map of_nat [Suc b..<Suc b + k] @ table_loop (Suc b + k) n"
    using Suc.prems by (intro Suc.IH) auto
  finally show ?case by (simp add: upt_rec[of b])
qed simp

lemma table_loop_run_other:
  assumes "\<forall>c. b \<le> c \<and> c < b + k \<longrightarrow> \<not> gpt2_printable c" and "b + k \<le> 256"
  shows "table_loop b (of_nat m) =
    map (\<lambda>c. of_nat (256 + m + (c - b))) [b..<b + k] @ table_loop (b + k) (of_nat (m + k))"
  using assms
proof (induction k arbitrary: b m)
  case (Suc k)
  have "table_loop b (of_nat m) = (256 + of_nat m) # table_loop (Suc b) (of_nat m + 1)"
    using Suc.prems by (intro table_loop_other) auto
  also have "table_loop (Suc b) (of_nat m + 1) = table_loop (Suc b) (of_nat (Suc m))"
    by (simp add: add.commute)
  also have "\<dots> = map (\<lambda>c. of_nat (256 + Suc m + (c - Suc b))) [Suc b..<Suc b + k] @
      table_loop (Suc b + k) (of_nat (Suc m + k))"
    using Suc.prems by (intro Suc.IH) auto
  also have "map (\<lambda>c. of_nat (256 + Suc m + (c - Suc b)) :: u32) [Suc b..<Suc b + k] =
      map (\<lambda>c. of_nat (256 + m + (c - b))) [Suc b..<Suc b + k]"
    by (rule map_cong) (auto intro!: arg_cong[where f = of_nat])
  finally show ?case by (simp add: upt_rec[of b])
qed simp

lemma TABLE_runs:
  "TABLE = map (\<lambda>c. of_nat (256 + c)) [0..<33] @ map of_nat [33..<127] @
     map (\<lambda>c. of_nat (289 + (c - 127))) [127..<161] @ map of_nat [161..<173] @
     [323] @ map of_nat [174..<256]"
proof -
  have "TABLE = table_loop 0 (of_nat 0)" by (simp add: TABLE_def)
  also have "\<dots> = map (\<lambda>c. of_nat (256 + 0 + (c - 0))) [0..<0 + 33] @ table_loop (0 + 33) (of_nat (0 + 33))"
    by (rule table_loop_run_other) (auto simp: gpt2_printable_def)
  also have "table_loop (0 + 33) (of_nat (0 + 33)) = map of_nat [33..<33 + 94] @ table_loop (33 + 94) (of_nat 33)"
    using table_loop_run_printable[of 33 94 "of_nat 33"] by (auto simp: gpt2_printable_def)
  also have "table_loop (33 + 94) (of_nat 33) =
      map (\<lambda>c. of_nat (256 + 33 + (c - 127))) [127..<127 + 34] @ table_loop (127 + 34) (of_nat (33 + 34))"
    using table_loop_run_other[of 127 34 33] by (auto simp: gpt2_printable_def)
  also have "table_loop (127 + 34) (of_nat (33 + 34)) =
      map of_nat [161..<161 + 12] @ table_loop (161 + 12) (of_nat 67)"
    using table_loop_run_printable[of 161 12 "of_nat 67"] by (auto simp: gpt2_printable_def)
  also have "table_loop (161 + 12) (of_nat 67) = [323] @ table_loop 174 68"
    using table_loop_other[of 173 67] by (simp add: gpt2_printable_def)
  also have "table_loop 174 68 = map of_nat [174..<174 + 82] @ table_loop (174 + 82) 68"
    using table_loop_run_printable[of 174 82 68] by (auto simp: gpt2_printable_def)
  also have "table_loop (174 + 82) 68 = []" by (simp add: table_loop.simps)
  finally show ?thesis by simp
qed

lemma TABLE_nth: "b < 256 \<Longrightarrow> TABLE ! b = of_nat (gpt2_cp b)"
  unfolding TABLE_runs gpt2_cp_def by (simp add: nth_append nth_Cons' del: upt_rec_numeral, arith)

lemma gpt2_cp_less: "b < 256 \<Longrightarrow> gpt2_cp b < 324"
  by (simp add: gpt2_cp_def)

lemma gpt2_cp_inj: "a < 256 \<Longrightarrow> b < 256 \<Longrightarrow> gpt2_cp a = gpt2_cp b \<Longrightarrow> a = b"
  by (simp add: gpt2_cp_def split: if_splits)

section \<open>One character\<close>

lemma unat_u8: "n < 256 \<Longrightarrow> unat (of_nat n :: u8) = n"
  by (simp add: unat_of_nat)

lemma utf8_of_cp_one: "n < 128 \<Longrightarrow> utf8_of_cp (of_nat n) = [of_nat n]"
  by (simp add: utf8_of_cp_def word_less_nat_alt unat_of_nat word_unat_eq_iff unsigned_ucast_eq
      take_bit_nat_eq_self)

text \<open>The low six bits and the rest, and the markers set above them.\<close>

lemma or_80: "r < 64 \<Longrightarrow> (0x80 OR of_nat r :: u8) = of_nat (128 + r)"
proof -
  have "list_all (\<lambda>r. (0x80 OR of_nat r :: u8) = of_nat (128 + r)) (0 # 1 # [2..<64])" by simp
  moreover assume "r < 64"
  then have "r \<in> set (0 # 1 # [2..<64])" by (auto simp del: upt_rec_numeral)
  ultimately show ?thesis unfolding list_all_iff by blast
qed

lemma or_C0: "q \<in> {2, 3, 4, 5} \<Longrightarrow> (0xC0 OR of_nat q :: u8) = of_nat (192 + q)"
  by auto

lemma cp_low: "ucast ((of_nat n :: u32) AND 0x3F) = (of_nat (n mod 64) :: u8)" if "n < 324"
proof -
  have "(of_nat n :: u32) AND 0x3F = take_bit 6 (of_nat n)"
    by (simp add: take_bit_eq_mask mask_eq_exp_minus_1)
  then have "unat ((of_nat n :: u32) AND 0x3F) = n mod 64"
    using that by (simp add: unsigned_take_bit_eq unat_of_nat take_bit_eq_mod unat_mod_distrib)
  then have "unat (ucast ((of_nat n :: u32) AND 0x3F) :: u8) = unat (of_nat (n mod 64) :: u8)"
    by (simp add: unsigned_ucast_eq unat_of_nat take_bit_eq_mod)
  then show ?thesis by (simp only: word_unat_eq_iff)
qed

lemma cp_high: "ucast (drop_bit 6 (of_nat n :: u32)) = (of_nat (n div 64) :: u8)" if "n < 324"
proof -
  have "unat (drop_bit 6 (of_nat n :: u32)) = n div 64"
    using that by (simp add: unat_div_distrib unat_of_nat drop_bit_eq_div)
  then have "unat (ucast (drop_bit 6 (of_nat n :: u32)) :: u8) = unat (of_nat (n div 64) :: u8)"
    using that by (simp only: unsigned_ucast_eq unat_of_nat take_bit_eq_mod)
  then show ?thesis by (simp only: word_unat_eq_iff)
qed

lemma utf8_of_cp_two:
  assumes "128 \<le> n" "n < 324"
  shows "utf8_of_cp (of_nat n) = [of_nat (192 + n div 64), of_nat (128 + n mod 64)]"
proof -
  have "2 \<le> n div 64" "n div 64 \<le> 5" using assms by simp_all
  then have q: "n div 64 \<in> {2, 3, 4, 5}" by auto
  have "\<not> (of_nat n :: u32) < 0x80" "(of_nat n :: u32) < 0x800"
    using assms by (simp_all add: word_less_nat_alt unat_of_nat)
  then show ?thesis
    unfolding utf8_of_cp_def cp_low[OF assms(2)] cp_high[OF assms(2)] or_C0[OF q]
    by (simp only: or_80 mod_less_divisor zero_less_numeral if_False if_True)
qed

lemma gpt2_char_cp: "gpt2_char b = utf8_of_cp (of_nat (gpt2_cp (unat b)))"
  using unsigned_less[where w = b and ?'a = nat] by (simp add: gpt2_char_def TABLE_nth)

lemma unat_u8_less: "unat (b :: u8) < 256"
  using unsigned_less[where w = b and ?'a = nat] by simp

text \<open>A character is one ASCII byte or a two-byte sequence with a lead byte from C2 to C5.\<close>

lemma gpt2_char_cases:
  obtains (one) "gpt2_char b = [of_nat (gpt2_cp (unat b))]" "gpt2_cp (unat b) < 128"
  | (two) "gpt2_char b = [of_nat (192 + gpt2_cp (unat b) div 64), of_nat (128 + gpt2_cp (unat b) mod 64)]"
      "128 \<le> gpt2_cp (unat b)" "gpt2_cp (unat b) < 324"
proof (cases "gpt2_cp (unat b) < 128")
  case True
  then show thesis by (intro one) (simp_all add: gpt2_char_cp utf8_of_cp_one)
next
  case False
  with gpt2_cp_less[OF unat_u8_less[of b]] show thesis
    by (intro two) (simp_all add: gpt2_char_cp utf8_of_cp_two)
qed

lemma gpt2_char_length: "length (gpt2_char b) = 1 \<or> length (gpt2_char b) = 2"
  by (cases b rule: gpt2_char_cases) simp_all

lemma two_byte_range:
  fixes l c :: u8
  assumes "194 \<le> unat l" "unat l < 198" "128 \<le> unat c" "unat c < 192"
  shows "utf8_width l = 2 \<and> utf8_second l c"
proof -
  have "l \<noteq> 0xE0" "l \<noteq> 0xED" "l \<noteq> 0xF0" "l \<noteq> 0xF4"
    using assms by (auto simp: word_unat_eq_iff)
  then show ?thesis
    using assms unfolding utf8_width_def utf8_second_def utf8_cont_def word_le_nat_alt word_less_nat_alt
    by simp
qed

lemma gpt2_char_step: "utf8_step (gpt2_char b @ t) = (True, length (gpt2_char b))"
proof (cases b rule: gpt2_char_cases)
  case one
  then have "(of_nat (gpt2_cp (unat b)) :: u8) < 0x80" by (simp add: word_less_nat_alt unat_of_nat)
  then show ?thesis by (simp add: one utf8_width_def)
next
  case two
  let ?l = "of_nat (192 + gpt2_cp (unat b) div 64) :: u8" and ?c = "of_nat (128 + gpt2_cp (unat b) mod 64) :: u8"
  have l: "unat ?l = 192 + gpt2_cp (unat b) div 64" by (rule unat_u8) (use two(3) in simp)
  have c: "unat ?c = 128 + gpt2_cp (unat b) mod 64" by (rule unat_u8) simp
  have r: "194 \<le> unat ?l" "unat ?l < 198" "128 \<le> unat ?c" "unat ?c < 192"
    unfolding l c using two(2,3) by simp_all
  have "utf8_width ?l = 2 \<and> utf8_second ?l ?c"
    by (rule two_byte_range[OF r])
  then show ?thesis unfolding two(1) utf8_step.simps append_Cons by (simp add: byte_at_def)
qed

text \<open>A character is recognised by its first bytes.\<close>

lemma gpt2_char_prefix_free:
  assumes eq: "gpt2_char a @ s = gpt2_char b @ t"
  shows "a = b \<and> s = t"
proof -
  have "utf8_step (gpt2_char b @ t) = (True, length (gpt2_char a))"
    using gpt2_char_step[of a s] unfolding eq .
  then have "length (gpt2_char a) = length (gpt2_char b)" by (simp add: gpt2_char_step)
  with eq have c: "gpt2_char a = gpt2_char b" and st: "s = t" using append_eq_append_conv by blast+
  have "gpt2_cp (unat a) = gpt2_cp (unat b)"
  proof (cases a rule: gpt2_char_cases)
    case one
    note A = this
    show ?thesis
    proof (cases b rule: gpt2_char_cases)
      case one
      have "unat (of_nat (gpt2_cp (unat a)) :: u8) = unat (of_nat (gpt2_cp (unat b)) :: u8)"
        using c A(1) one(1) by simp
      then show ?thesis using A(2) one(2) by (simp only: unat_u8)
    next
      case two
      then show ?thesis using c A(1) by simp
    qed
  next
    case two
    note A = this
    show ?thesis
    proof (cases b rule: gpt2_char_cases)
      case one
      then show ?thesis using c A by simp
    next
      case two
      have "192 + gpt2_cp (unat x) div 64 < 256" "128 + gpt2_cp (unat x) mod 64 < 256" for x :: u8
        using gpt2_cp_less[OF unat_u8_less[of x]] by simp_all
      note bytes = unat_u8[OF this(1)] unat_u8[OF this(2)]
      have "unat (of_nat (192 + gpt2_cp (unat a) div 64) :: u8) = unat (of_nat (192 + gpt2_cp (unat b) div 64) :: u8)"
        "unat (of_nat (128 + gpt2_cp (unat a) mod 64) :: u8) = unat (of_nat (128 + gpt2_cp (unat b) mod 64) :: u8)"
        using c A(1) two(1) by simp_all
      then have "gpt2_cp (unat a) div 64 = gpt2_cp (unat b) div 64"
        "gpt2_cp (unat a) mod 64 = gpt2_cp (unat b) mod 64"
        unfolding bytes by simp_all
      then show ?thesis by (metis div_mult_mod_eq)
    qed
  qed
  then have "unat a = unat b" by (rule gpt2_cp_inj[OF unat_u8_less unat_u8_less])
  then have "a = b" by (simp only: word_unat_eq_iff)
  then show ?thesis using st by (intro conjI)
qed

section \<open>Byte strings\<close>

lemma gpt2_Nil [simp]: "bytes_to_gpt2_unicode [] = []"
  by (simp add: bytes_to_gpt2_unicode_def)

lemma gpt2_Cons [simp]: "bytes_to_gpt2_unicode (b # bs) = gpt2_char b @ bytes_to_gpt2_unicode bs"
  by (simp add: bytes_to_gpt2_unicode_def)

lemma gpt2_append: "bytes_to_gpt2_unicode (xs @ ys) = bytes_to_gpt2_unicode xs @ bytes_to_gpt2_unicode ys"
  by (simp add: bytes_to_gpt2_unicode_def)

lemma gpt2_char_nonempty [simp]: "gpt2_char b \<noteq> []"
  using gpt2_char_length[of b] by auto

lemma gpt2_injective: "bytes_to_gpt2_unicode xs = bytes_to_gpt2_unicode ys \<Longrightarrow> xs = ys"
proof (induction xs arbitrary: ys)
  case Nil
  then show ?case by (cases ys) simp_all
next
  case (Cons x xs)
  then obtain y ys' where ys: "ys = y # ys'" by (cases ys) simp_all
  with Cons.prems have "x = y \<and> bytes_to_gpt2_unicode xs = bytes_to_gpt2_unicode ys'"
    by (intro gpt2_char_prefix_free) simp
  with Cons.IH ys show ?case by simp
qed

lemma gpt2_utf8_valid: "utf8_valid (bytes_to_gpt2_unicode bs)"
proof (induction bs)
  case (Cons b bs)
  then show ?case using utf8_valid_step[OF gpt2_char_step[of b "bytes_to_gpt2_unicode bs"]] by simp
qed simp

lemma gpt2_length_bounds:
  "length bs \<le> length (bytes_to_gpt2_unicode bs)" "length (bytes_to_gpt2_unicode bs) \<le> 2 * length bs"
proof (induction bs)
  case (Cons b bs)
  case 1 show ?case using Cons(1) gpt2_char_length[of b] by auto
  case 2 show ?case using Cons(2) gpt2_char_length[of b] by auto
qed simp_all

text \<open>The length the code reads off a first byte is the character's.\<close>

lemma gpt2_char_len_hd: "gpt2_char_len (hd (gpt2_char b)) = length (gpt2_char b)"
proof (cases b rule: gpt2_char_cases)
  case one
  then have "(of_nat (gpt2_cp (unat b)) :: u8) < 0x80" by (simp add: word_less_nat_alt unat_of_nat)
  then show ?thesis by (simp add: one gpt2_char_len_def)
next
  case two
  have l: "unat (of_nat (192 + gpt2_cp (unat b) div 64) :: u8) = 192 + gpt2_cp (unat b) div 64"
    by (rule unat_u8) (use two(3) in simp)
  have "192 + gpt2_cp (unat b) div 64 < 224" using two(3) by simp
  then have "gpt2_char_len (of_nat (192 + gpt2_cp (unat b) div 64)) = 2"
    unfolding gpt2_char_len_def word_less_nat_alt l by simp
  then show ?thesis unfolding two(1) by simp
qed

text \<open>
  A prefix of an image that is itself well-formed UTF-8 is the image of a prefix: cuts at
  character boundaries are the only well-formed ones.
\<close>

lemma gpt2_valid_prefix:
  "utf8_valid (take n (bytes_to_gpt2_unicode bs)) \<Longrightarrow>
    \<exists>j \<le> length bs. take n (bytes_to_gpt2_unicode bs) = bytes_to_gpt2_unicode (take j bs)"
proof (induction bs arbitrary: n)
  case Nil
  then show ?case by simp
next
  case (Cons b bs)
  let ?c = "gpt2_char b" and ?r = "bytes_to_gpt2_unicode bs"
  show ?case
  proof (cases "n = 0")
    case True
    then show ?thesis by (intro exI[of _ 0]) simp
  next
    case False
    have len: "length ?c \<le> n"
    proof (rule ccontr)
      assume "\<not> length ?c \<le> n"
      with False gpt2_char_length[of b] have n: "n = 1" and two: "length ?c = 2" by auto
      then have tk: "take n (?c @ ?r) = [hd ?c]" by (cases ?c) simp_all
      have "fst (utf8_step [hd ?c])"
        using Cons.prems tk by (simp add: utf8_valid.simps[of "[hd ?c]"] split: if_splits)
      then obtain m where m: "utf8_step [hd ?c] = (True, m)" by (cases "utf8_step [hd ?c]") auto
      have "utf8_step ([hd ?c] @ tl ?c) = (True, m)" by (rule utf8_step_True_append[OF m])
      moreover have "[hd ?c] @ tl ?c = ?c @ []" by simp
      ultimately have "m = 2" using gpt2_char_step[of b "[]"] two by simp
      then show False using utf8_step_True_length[OF m] by simp
    qed
    have "utf8_valid (take n (?c @ ?r)) = utf8_valid (drop (length ?c) (take n (?c @ ?r)))"
      by (rule utf8_valid_step) (use len gpt2_char_step[of b] in simp)
    then have "utf8_valid (take (n - length ?c) ?r)" using Cons.prems len by simp
    from Cons.IH[OF this] obtain j where "j \<le> length bs"
      "take (n - length ?c) ?r = bytes_to_gpt2_unicode (take j bs)" by auto
    then show ?thesis using len by (intro exI[of _ "Suc j"]) simp
  qed
qed

end
