(* ===== verification/Tokenizer_Facts.thy ===== *)
theory Tokenizer_Facts imports Tokenizer_Alphabet begin

text \<open>
  What the tokenizer promises. A tokenizer is well formed when its reverse table inverts its
  vocabulary; \<open>from_gguf_parts\<close> builds only such ones. The interface between the table and
  the two loops that use it (the greedy cut and the merge loop) is the locale
  \<open>token_index\<close>: whatever a lookup returns spells the bytes that were looked up. From it
  follow that merging never changes what a token sequence spells, that encoding loses
  nothing, and the round trips through \<open>decode\<close> and \<open>decode_one\<close>.
\<close>

section \<open>Well-formed tokenizers\<close>

definition known :: "tokenizer \<Rightarrow> u32 \<Rightarrow> bool" where
  "known tk t \<longleftrightarrow> unat t < length (tk_vocab tk)"

definition spelling :: "tokenizer \<Rightarrow> u32 \<Rightarrow> u8 list" where
  "spelling tk t = ve_text (tk_vocab tk ! unat t)"

definition spell :: "tokenizer \<Rightarrow> u32 list \<Rightarrow> u8 list" where
  "spell tk ts = concat (map (spelling tk) ts)"

definition wf_tok :: "tokenizer \<Rightarrow> bool" where
  "wf_tok tk \<longleftrightarrow>
     (\<forall>w t. tk_ids tk w = Some t \<longrightarrow> known tk t \<and> spelling tk t = w) \<and>
     (\<forall>w\<in>ve_text ` set (tk_vocab tk). tk_ids tk w \<noteq> None) \<and> length (tk_bytes tk) = 256"

lemma spell_simps [simp]:
  "spell tk [] = []" "spell tk (t # ts) = spelling tk t @ spell tk ts"
  "spell tk (xs @ ys) = spell tk xs @ spell tk ys"
  by (simp_all add: spell_def)

lemma text_of_known: "known tk t \<Longrightarrow> text_of tk t = Ret (spelling tk t)"
  by (simp add: text_of_def known_def spelling_def)

section \<open>The interface of the reverse table\<close>

locale token_index =
  fixes inv :: "'tk \<Rightarrow> bool"
    and lookup :: "'tk \<Rightarrow> u8 list \<Rightarrow> u32 option"
    and knows :: "'tk \<Rightarrow> u32 \<Rightarrow> bool"
    and spells :: "'tk \<Rightarrow> u32 \<Rightarrow> u8 list"
  assumes lookup_knows: "inv tk \<Longrightarrow> lookup tk w = Some t \<Longrightarrow> knows tk t"
    and lookup_spells: "inv tk \<Longrightarrow> lookup tk w = Some t \<Longrightarrow> spells tk t = w"
begin

text \<open>The longest match returned is in the table and is the longest.\<close>

lemma longest_match_found:
  "longest_match m bytes i n = Some (t, len) \<Longrightarrow>
    m (take len (drop i bytes)) = Some t \<and>
    (\<forall>k. len < k \<longrightarrow> k \<le> n \<longrightarrow> m (take k (drop i bytes)) = None)"
proof (induction n)
  case (Suc n)
  show ?case
  proof (cases "m (take (Suc n) (drop i bytes))")
    case None
    with Suc have "m (take len (drop i bytes)) = Some t"
      and "\<forall>k. len < k \<longrightarrow> k \<le> n \<longrightarrow> m (take k (drop i bytes)) = None" by simp_all
    then show ?thesis using None by (metis le_Suc_eq)
  next
    case (Some a)
    with Suc.prems show ?thesis by auto
  qed
qed simp

lemma longest_match_spells:
  assumes "inv tk" and "longest_match (lookup tk) bytes i n = Some (t, len)"
  shows "knows tk t" and "spells tk t = take len (drop i bytes)"
  using assms longest_match_found[OF assms(2)] lookup_knows lookup_spells by blast+

text \<open>Replacing two neighbours by the entry of their joined texts keeps the spelling.\<close>

lemma merge_step:
  assumes "inv tk" and "Suc p < length ids" and "\<forall>t\<in>set ids. knows tk t"
    and "lookup tk (spells tk (ids ! p) @ spells tk (ids ! Suc p)) = Some m"
  shows "concat (map (spells tk) (take p ids @ m # drop (p + 2) ids)) = concat (map (spells tk) ids)"
    and "\<forall>t\<in>set (take p ids @ m # drop (p + 2) ids). knows tk t"
proof -
  have ids: "ids = take p ids @ ids ! p # ids ! Suc p # drop (p + 2) ids"
    using assms(2) by (metis Cons_nth_drop_Suc Suc_lessD add_2_eq_Suc' append_take_drop_id)
  have m: "spells tk m = spells tk (ids ! p) @ spells tk (ids ! Suc p)" "knows tk m"
    using assms(1,4) lookup_spells lookup_knows by blast+
  have "concat (map (spells tk) ids) =
      concat (map (spells tk) (take p ids @ ids ! p # ids ! Suc p # drop (p + 2) ids))"
    using ids by metis
  then show "concat (map (spells tk) (take p ids @ m # drop (p + 2) ids)) = concat (map (spells tk) ids)"
    by (simp add: m(1))
  show "\<forall>t\<in>set (take p ids @ m # drop (p + 2) ids). knows tk t"
    using assms(3) m(2) by (auto dest: in_set_takeD in_set_dropD)
qed

lemma merge_step_closed:
  assumes "inv tk" and "Suc p < length ids" and "\<forall>t\<in>set ids. Q (spells tk t)"
    and "lookup tk (spells tk (ids ! p) @ spells tk (ids ! Suc p)) = Some m"
    and "\<And>x y. Q x \<Longrightarrow> Q y \<Longrightarrow> Q (x @ y)"
  shows "\<forall>t\<in>set (take p ids @ m # drop (p + 2) ids). Q (spells tk t)"
proof -
  have "Q (spells tk (ids ! p))" "Q (spells tk (ids ! Suc p))" using assms(2,3) by simp_all
  then have "Q (spells tk m)" using assms(1,4,5) lookup_spells by metis
  then show ?thesis using assms(3) by (auto dest: in_set_takeD in_set_dropD)
qed

end

interpretation tokidx: token_index wf_tok tk_ids known spelling
  by unfold_locales (simp_all add: wf_tok_def)

section \<open>Construction\<close>

lemma add_tokens_texts:
  "add_tokens scores types i toks (vocab, ids) = (vocab', ids') \<Longrightarrow>
     map ve_text vocab' = map ve_text vocab @ map token_text toks \<and>
     dom ids' = dom ids \<union> token_text ` set toks"
proof (induction scores types i toks "(vocab, ids)" arbitrary: vocab ids rule: add_tokens.induct)
  case (2 scores types i tok toks vocab ids)
  from "2.hyps" "2.prems"
  show ?case by simp
qed simp

lemma add_tokens_types:
  "add_tokens scores types i toks (vocab, ids) = (vocab', ids') \<Longrightarrow>
     map ve_type vocab' = map ve_type vocab @
       map (\<lambda>j. if j < length types then types ! j else 1) [i..<i + length toks]"
proof (induction scores types i toks "(vocab, ids)" arbitrary: vocab ids rule: add_tokens.induct)
  case (2 scores types i tok toks vocab ids)
  from "2.hyps" "2.prems"
  show ?case by (simp add: upt_conv_Cons del: upt_Suc)
qed simp

definition table_inverts :: "vocab_entry list \<Rightarrow> (u8 list \<rightharpoonup> u32) \<Rightarrow> bool" where
  "table_inverts vocab ids \<longleftrightarrow>
     (\<forall>w t. ids w = Some t \<longrightarrow> unat t < length vocab \<and> ve_text (vocab ! unat t) = w)"

lemma add_tokens_inverts:
  "add_tokens scores types i toks (vocab, ids) = (vocab', ids') \<Longrightarrow> i = length vocab \<Longrightarrow>
     length vocab + length toks \<le> 2 ^ 32 \<Longrightarrow> table_inverts vocab ids \<Longrightarrow> table_inverts vocab' ids'"
proof (induction scores types i toks "(vocab, ids)" arbitrary: vocab ids rule: add_tokens.induct)
  case (2 scores types i tok toks vocab ids)
  let ?e = "\<lparr>ve_text = token_text tok,
      ve_score = (if scores \<noteq> [] \<and> i < length scores then scores ! i else 0),
      ve_type = (if i < length types then types ! i else 1)\<rparr>"
  have u: "unat (of_nat i :: u32) = length vocab"
    using "2.prems"(2,3) by (simp add: unat_of_nat take_bit_nat_eq_self)
  have "table_inverts (vocab @ [?e]) (ids(token_text tok \<mapsto> of_nat i))"
    using "2.prems"(4) unfolding table_inverts_def
    by (auto simp: u nth_append less_SucI dest: less_imp_neq)
  moreover have "add_tokens scores types (Suc i) toks (vocab @ [?e], ids(token_text tok \<mapsto> of_nat i)) = (vocab', ids')"
    using "2.prems"(1) by (simp only: add_tokens.simps)
  ultimately show ?case using "2.hyps" "2.prems"(2,3) by simp
qed simp

lemma byte_pass_length:
  "byte_pass i es table = Ret table' \<Longrightarrow> length table' = length table"
  by (induction i es table rule: byte_pass.induct) (auto split: if_splits list.splits)

lemma byte_pass_Panic_iff:
  "byte_pass i es table = Panic \<longleftrightarrow> (\<exists>e\<in>set es. ve_text e = [] \<and> ve_type e = 6)"
  by (induction i es table rule: byte_pass.induct) (auto split: list.splits)

lemma byte_pass_not_Fail: "byte_pass i es table \<noteq> Fail e"
  by (induction i es table rule: byte_pass.induct) (auto split: list.splits)

lemma from_gguf_parts_RetE:
  assumes "from_gguf_parts tokens scores types merges = Ret tk"
  obtains vocab ids table where
    "add_tokens scores types 0 tokens ([], Map.empty) = (vocab, ids)"
    "byte_pass 0 vocab (replicate 256 U32_MAX) = Ret table"
    "tk = \<lparr>tk_vocab = vocab, tk_ids = ids, tk_merges = add_merges ids 0 merges Map.empty,
           tk_bytes = map (byte_gap ids table) [0..<256]\<rparr>"
proof -
  obtain vocab ids where v: "add_tokens scores types 0 tokens ([], Map.empty) = (vocab, ids)"
    by fastforce
  show thesis
    using assms that[OF v] by (auto simp: from_gguf_parts_def v Let_def split: if_splits)
qed

lemma wf_from_gguf_parts:
  assumes "from_gguf_parts tokens scores types merges = Ret tk" and "length tokens \<le> 2 ^ 32"
  shows "wf_tok tk" "map ve_text (tk_vocab tk) = map token_text tokens"
    "dom (tk_ids tk) = token_text ` set tokens"
proof -
  obtain vocab ids table where
    v: "add_tokens scores types 0 tokens ([], Map.empty) = (vocab, ids)" and
    "byte_pass 0 vocab (replicate 256 U32_MAX) = Ret table" and
    tk: "tk = \<lparr>tk_vocab = vocab, tk_ids = ids, tk_merges = add_merges ids 0 merges Map.empty,
           tk_bytes = map (byte_gap ids table) [0..<256]\<rparr>"
    by (rule from_gguf_parts_RetE[OF assms(1)])
  note texts = add_tokens_texts[OF v]
  have "table_inverts vocab ids"
    using add_tokens_inverts[OF v] assms(2) by (simp add: table_inverts_def)
  moreover have "ve_text ` set vocab = token_text ` set tokens"
    using texts by (metis append_Nil list.set_map list.simps(8))
  ultimately show "wf_tok tk" using texts
    by (auto simp: wf_tok_def tk known_def spelling_def table_inverts_def dom_def)
  show "map ve_text (tk_vocab tk) = map token_text tokens" "dom (tk_ids tk) = token_text ` set tokens"
    using texts by (simp_all add: tk)
qed

lemma add_merges_known:
  "add_merges ids k ss m (a, b) = Some r \<Longrightarrow>
     (\<And>a b r. m (a, b) = Some r \<Longrightarrow> a \<in> ran ids \<and> b \<in> ran ids) \<Longrightarrow> a \<in> ran ids \<and> b \<in> ran ids"
proof (induction ids k ss m arbitrary: a b r rule: add_merges.induct)
  case (2 ids k s ss m)
  have step: "a \<in> ran ids \<and> b \<in> ran ids" if "add_merge ids k s m (a, b) = Some r" for a b r
    using that "2.prems"(2)
    by (auto simp: add_merge_def split: option.splits prod.splits if_splits intro: ranI)
  show ?case using "2.IH"[OF _ step] "2.prems"(1) by simp
qed simp

lemma merges_known:
  assumes "from_gguf_parts tokens scores types merges = Ret tk" and "length tokens \<le> 2 ^ 32"
    and "tk_merges tk (a, b) = Some r"
  shows "known tk a \<and> known tk b"
proof -
  obtain vocab ids table where
    "add_tokens scores types 0 tokens ([], Map.empty) = (vocab, ids)" and
    "byte_pass 0 vocab (replicate 256 U32_MAX) = Ret table" and
    tk: "tk = \<lparr>tk_vocab = vocab, tk_ids = ids, tk_merges = add_merges ids 0 merges Map.empty,
           tk_bytes = map (byte_gap ids table) [0..<256]\<rparr>"
    by (rule from_gguf_parts_RetE[OF assms(1)])
  have "a \<in> ran ids \<and> b \<in> ran ids"
    by (rule add_merges_known[OF assms(3)[unfolded tk tokenizer.simps]]) simp
  then show ?thesis using wf_from_gguf_parts(1)[OF assms(1,2)] by (auto simp: wf_tok_def ran_def tk)
qed

text \<open>When construction fails and when it panics.\<close>

lemma from_gguf_parts_cases:
  assumes "scores = [] \<or> length scores = length tokens"
  shows "from_gguf_parts tokens scores types merges = Panic \<longleftrightarrow>
      (\<exists>i < length tokens. token_text (tokens ! i) = [] \<and> i < length types \<and> types ! i = 6)"
    and "from_gguf_parts tokens scores types merges \<noteq> Fail e"
proof -
  obtain vocab ids where v: "add_tokens scores types 0 tokens ([], Map.empty) = (vocab, ids)" by fastforce
  have texts: "map ve_text vocab = map token_text tokens" using add_tokens_texts[OF v] by simp
  then have len: "length vocab = length tokens" by (metis length_map)
  have ty: "map ve_type vocab = map (\<lambda>j. if j < length types then types ! j else 1) [0..<length tokens]"
    using add_tokens_types[OF v] by simp
  have at: "ve_text (vocab ! i) = token_text (tokens ! i)"
    "ve_type (vocab ! i) = (if i < length types then types ! i else 1)" if "i < length tokens" for i
    using that len arg_cong[OF texts, of "\<lambda>l. l ! i"] arg_cong[OF ty, of "\<lambda>l. l ! i"] by simp_all
  have "from_gguf_parts tokens scores types merges = Panic \<longleftrightarrow>
      byte_pass 0 vocab (replicate 256 U32_MAX) = Panic"
    using assms by (auto simp: from_gguf_parts_def v Let_def res_bind_Panic_iff)
  also have "\<dots> \<longleftrightarrow> (\<exists>i < length tokens. ve_text (vocab ! i) = [] \<and> ve_type (vocab ! i) = 6)"
    unfolding byte_pass_Panic_iff len[symmetric] by (metis in_set_conv_nth)
  also have "\<dots> \<longleftrightarrow> (\<exists>i < length tokens. token_text (tokens ! i) = [] \<and> i < length types \<and> types ! i = 6)"
    using at by (auto split: if_splits)
  finally show "from_gguf_parts tokens scores types merges = Panic \<longleftrightarrow>
      (\<exists>i < length tokens. token_text (tokens ! i) = [] \<and> i < length types \<and> types ! i = 6)" .
  show "from_gguf_parts tokens scores types merges \<noteq> Fail e"
    using assms by (auto simp: from_gguf_parts_def v Let_def res_bind_Fail_iff byte_pass_not_Fail)
qed

section \<open>The byte table\<close>

lemma hex_of_upper: "n < 16 \<Longrightarrow> hex_digit (hex_upper n) = Some n"
  by (auto simp: hex_digit_def hex_upper_def Let_def)

lemma hex_upper_not_plus: "n < 16 \<Longrightarrow> hex_upper n \<noteq> CHR ''+''"
proof
  assume "n < 16" "hex_upper n = CHR ''+''"
  with hex_of_upper[of n] have "hex_digit (CHR ''+'') = Some n" by simp
  then show False by (simp add: hex_digit_def)
qed

text \<open>The name the gap filler looks up is exactly a name that construction stores as a raw byte.\<close>

lemma parse_byte_repr: "b < 256 \<Longrightarrow> parse_byte_token (byte_repr b) = Some (of_nat b)"
  by (simp add: parse_byte_token_def byte_repr_def strip_prefix_def strip_suffix_def
      from_str_radix16_def hex_of_upper hex_upper_not_plus)

lemma byte_repr_not_text:
  assumes "b < 256"
  shows "token_text tok \<noteq> as_bytes (byte_repr b)"
proof (cases "parse_byte_token tok")
  case None
  then have "tok \<noteq> byte_repr b" using parse_byte_repr[OF assms] by auto
  then show ?thesis by (simp add: token_text_def None)
qed (simp add: token_text_def byte_repr_def as_bytes_def)

definition byte_entry :: "vocab_entry \<Rightarrow> bool" where
  "byte_entry e \<longleftrightarrow> ve_type e = 6 \<or> (length (ve_text e) = 1 \<and> ve_type e \<noteq> 1)"

text \<open>The last entry that stands for a byte wins.\<close>

fun last_byte_entry :: "nat \<Rightarrow> vocab_entry list \<Rightarrow> u8 \<Rightarrow> u32 \<Rightarrow> u32" where
  "last_byte_entry i [] b d = d"
| "last_byte_entry i (e # es) b d =
     last_byte_entry (Suc i) es b (if byte_entry e \<and> hd (ve_text e) = b then of_nat i else d)"

lemma byte_pass_last:
  "byte_pass i es table = Ret table' \<Longrightarrow> length table = 256 \<Longrightarrow>
     table' ! unat b = last_byte_entry i es b (table ! unat b)"
proof (induction i es table rule: byte_pass.induct)
  case (2 i e es table)
  show ?case
  proof (cases "byte_entry e")
    case True
    then obtain c cs where c: "ve_text e = c # cs"
      using "2.prems"(1) by (cases "ve_text e") (auto simp: byte_entry_def)
    have "byte_pass (Suc i) es (table[unat c := of_nat i]) = Ret table'"
      using "2.prems"(1) True by (simp add: c byte_entry_def)
    then have "table' ! unat b = last_byte_entry (Suc i) es b (table[unat c := of_nat i] ! unat b)"
      using "2.IH"(1)[of c cs] True "2.prems"(2) by (simp add: c byte_entry_def)
    moreover have "table[unat c := of_nat i] ! unat b = (if c = b then of_nat i else table ! unat b)"
      using "2.prems"(2) unat_u8_less[of b] by (auto simp: nth_list_update word_unat_eq_iff)
    ultimately show ?thesis using True by (simp add: c)
  next
    case False
    then show ?thesis using "2.IH"(2) "2.prems" by (auto simp: byte_entry_def)
  qed
qed simp

lemma last_byte_entry_append:
  "last_byte_entry i (es @ [e]) b d =
     (if byte_entry e \<and> hd (ve_text e) = b then of_nat (i + length es) else last_byte_entry i es b d)"
  by (induction i es b d rule: last_byte_entry.induct) simp_all

text \<open>The ids whose entries the construction registers for a byte, in order.\<close>

definition byte_owners :: "vocab_entry list \<Rightarrow> u8 \<Rightarrow> nat list" where
  "byte_owners es b = filter (\<lambda>i. byte_entry (es ! i) \<and> hd (ve_text (es ! i)) = b) [0..<length es]"

lemma last_byte_entry_owners:
  "last_byte_entry 0 es b d = (if byte_owners es b = [] then d else of_nat (last (byte_owners es b)))"
proof (induction es rule: rev_induct)
  case (snoc e es)
  have "byte_owners (es @ [e]) b = byte_owners es b @ (if byte_entry e \<and> hd (ve_text e) = b then [length es] else [])"
    by (auto simp: byte_owners_def nth_append intro!: filter_cong)
  then show ?case by (simp add: last_byte_entry_append snoc)
qed (simp add: byte_owners_def)

lemma byte_table:
  assumes "from_gguf_parts tokens scores types merges = Ret tk" and "length tokens \<le> 2 ^ 32"
  shows "tk_bytes tk ! unat b =
    (let t = last_byte_entry 0 (tk_vocab tk) b U32_MAX in if t = U32_MAX then 0 else t)"
proof -
  obtain vocab ids table where
    v: "add_tokens scores types 0 tokens ([], Map.empty) = (vocab, ids)" and
    p: "byte_pass 0 vocab (replicate 256 U32_MAX) = Ret table" and
    tk: "tk = \<lparr>tk_vocab = vocab, tk_ids = ids, tk_merges = add_merges ids 0 merges Map.empty,
           tk_bytes = map (byte_gap ids table) [0..<256]\<rparr>"
    by (rule from_gguf_parts_RetE[OF assms(1)])
  have "as_bytes (byte_repr (unat b)) \<notin> dom ids"
    using add_tokens_texts[OF v] not_sym[OF byte_repr_not_text[OF unat_u8_less[of b]]] by auto
  then have "ids (as_bytes (byte_repr (unat b))) = None" by (simp add: domIff)
  then show ?thesis
    using byte_pass_last[OF p, of b] unat_u8_less[of b] by (simp add: tk byte_gap_def Let_def)
qed

section \<open>The best pair\<close>

definition pair_rank :: "tokenizer \<Rightarrow> u32 list \<Rightarrow> nat \<Rightarrow> u32 option" where
  "pair_rank tk ids i = tk_merges tk (ids ! i, ids ! Suc i)"

text \<open>The scan keeps the lowest rank seen and its first position.\<close>

lemma best_scan_spec:
  assumes "best_scan m i ids (r0, p0) = (r, p)"
  shows "r \<le> r0 \<and>
    (\<forall>j. Suc j < length ids \<longrightarrow> (\<forall>s. m (ids ! j, ids ! Suc j) = Some s \<longrightarrow> r \<le> s)) \<and>
    (r = r0 \<longrightarrow> p = p0) \<and>
    (r < r0 \<longrightarrow> (\<exists>j. p = Some (i + j) \<and> Suc j < length ids \<and> m (ids ! j, ids ! Suc j) = Some r \<and>
       (\<forall>k < j. \<forall>s. m (ids ! k, ids ! Suc k) = Some s \<longrightarrow> r < s)))"
  using assms
proof (induction m i ids "(r0, p0)" arbitrary: r0 p0 rule: best_scan.induct)
  case (1 m i a b rest r0 p0)
  define acc where "acc = (case m (a, b) of Some s \<Rightarrow> if s < r0 then (s, Some i) else (r0, p0) | None \<Rightarrow> (r0, p0))"
  obtain r1 p1 where acc: "acc = (r1, p1)" by fastforce
  have run: "best_scan m (Suc i) (b # rest) (r1, p1) = (r, p)"
    using "1.prems" acc by (simp add: acc_def)
  note IH = "1.hyps"[OF acc[unfolded acc_def] run]
  have first: "r1 \<le> r0" "\<And>s. m (a, b) = Some s \<Longrightarrow> r1 \<le> s"
    "r1 = r0 \<Longrightarrow> p1 = p0" "r1 < r0 \<Longrightarrow> p1 = Some i \<and> m (a, b) = Some r1"
    using acc by (auto simp: acc_def split: option.splits if_splits)
  have low: "r \<le> s" if "Suc j < length (a # b # rest)" "m ((a # b # rest) ! j, (a # b # rest) ! Suc j) = Some s" for j s
  proof (cases j)
    case 0
    then show ?thesis using that(2) first(2) IH by fastforce
  next
    case (Suc k)
    then show ?thesis using that IH by simp
  qed
  have "p = p0" if "r = r0"
  proof -
    have "r1 = r0" "r = r1" using that first(1) IH by auto
    then show ?thesis using first(3) IH by simp
  qed
  moreover have "\<exists>j. p = Some (i + j) \<and> Suc j < length (a # b # rest) \<and>
      m ((a # b # rest) ! j, (a # b # rest) ! Suc j) = Some r \<and>
      (\<forall>k < j. \<forall>s. m ((a # b # rest) ! k, (a # b # rest) ! Suc k) = Some s \<longrightarrow> r < s)"
    if "r < r0"
  proof (cases "r < r1")
    case True
    with IH obtain j where j: "p = Some (Suc i + j)" "Suc j < length (b # rest)"
      "m ((b # rest) ! j, (b # rest) ! Suc j) = Some r"
      "\<forall>k < j. \<forall>s. m ((b # rest) ! k, (b # rest) ! Suc k) = Some s \<longrightarrow> r < s" by auto
    have "r < s" if "k < Suc j" "m ((a # b # rest) ! k, (a # b # rest) ! Suc k) = Some s" for k s
    proof (cases k)
      case 0
      then show ?thesis using that(2) first(2) True by fastforce
    next
      case (Suc l)
      then show ?thesis using that j(4) by simp
    qed
    then show ?thesis using j(1-3) by (intro exI[of _ "Suc j"]) simp
  next
    case False
    then have "r = r1" using IH by simp
    then show ?thesis using first(4) that IH by (intro exI[of _ 0]) simp
  qed
  ultimately show ?case using low first(1) IH by auto
qed auto

lemma best_pair_Some:
  assumes "best_pair tk ids = Some p"
  obtains r where "Suc p < length ids" "pair_rank tk ids p = Some r" "r < U32_MAX"
    "\<And>j s. Suc j < length ids \<Longrightarrow> pair_rank tk ids j = Some s \<Longrightarrow> r \<le> s"
    "\<And>j s. j < p \<Longrightarrow> pair_rank tk ids j = Some s \<Longrightarrow> r < s"
proof -
  obtain r q where b: "best_scan (tk_merges tk) 0 ids (U32_MAX, None) = (r, q)" by fastforce
  note S = best_scan_spec[OF b]
  have q: "q = Some p" using assms by (simp add: best_pair_def b)
  then have "r < U32_MAX" using S by (metis option.distinct(1) order_le_less)
  then show thesis using S q by (intro that) (auto simp: pair_rank_def)
qed

lemma best_pair_None:
  "best_pair tk ids = None \<longleftrightarrow>
     (\<forall>j. Suc j < length ids \<longrightarrow> (\<forall>s. pair_rank tk ids j = Some s \<longrightarrow> s = U32_MAX))"
proof -
  obtain r q where b: "best_scan (tk_merges tk) 0 ids (U32_MAX, None) = (r, q)" by fastforce
  note S = best_scan_spec[OF b]
  have top: "s \<le> U32_MAX" for s by (simp add: U32_MAX_def word_le_nat_alt) (use unsigned_less[where w = s and ?'a = nat] in simp)
  have "q = None \<longleftrightarrow> r = U32_MAX" using S by (metis option.distinct(1) order_le_less)
  moreover have "r = U32_MAX \<longleftrightarrow>
     (\<forall>j. Suc j < length ids \<longrightarrow> (\<forall>s. pair_rank tk ids j = Some s \<longrightarrow> s = U32_MAX))"
    using S top unfolding pair_rank_def by (metis leD order_antisym order_le_less)
  ultimately show ?thesis by (simp add: best_pair_def b)
qed

section \<open>Merging\<close>

text \<open>
  Nothing is left to merge: no ranked pair, or the best one's joined text is no entry (the
  code stops there, even when a worse pair could still be merged).
\<close>

definition merge_done :: "tokenizer \<Rightarrow> u32 list \<Rightarrow> bool" where
  "merge_done tk ids \<longleftrightarrow>
     length ids < 2 \<or>
     (case best_pair tk ids of
        None \<Rightarrow> True
      | Some p \<Rightarrow> tk_ids tk (spelling tk (ids ! p) @ spelling tk (ids ! Suc p)) = None)"

lemma bpe_merge_ok:
  assumes "wf_tok tk" and "\<forall>t\<in>set ids. known tk t"
    and "\<And>x y. Q x \<Longrightarrow> Q y \<Longrightarrow> Q (x @ y)" and "\<forall>t\<in>set ids. Q (spelling tk t)"
  shows "\<exists>out. bpe_merge tk ids = Ret out \<and> (\<forall>t\<in>set out. known tk t) \<and> spell tk out = spell tk ids \<and>
    length out \<le> length ids \<and> merge_done tk out \<and> (\<forall>t\<in>set out. Q (spelling tk t))"
  using assms
proof (induction tk ids rule: bpe_merge.induct)
  case (1 tk ids)
  show ?case
  proof (cases "merge_done tk ids")
    case True
    have "bpe_merge tk ids = Ret ids"
      using True "1.prems"(2)
      by (auto simp: bpe_merge.simps[of tk ids] merge_done_def text_of_known
          dest: best_pair_bounds split: option.splits)
    then show ?thesis using True "1.prems" by auto
  next
    case False
    then obtain p m where p: "best_pair tk ids = Some p" and len: "2 \<le> length ids"
      and m: "tk_ids tk (spelling tk (ids ! p) @ spelling tk (ids ! Suc p)) = Some m"
      by (auto simp: merge_done_def split: option.splits)
    have pb: "Suc p < length ids" using best_pair_bounds[OF p] .
    then have t: "text_of tk (ids ! p) = Ret (spelling tk (ids ! p))"
      "text_of tk (ids ! Suc p) = Ret (spelling tk (ids ! Suc p))"
      using "1.prems"(2) by (simp_all add: text_of_known)
    let ?ids = "take p ids @ m # drop (p + 2) ids"
    have step: "bpe_merge tk ids = bpe_merge tk ?ids"
      using len p t m by (simp add: bpe_merge.simps[of tk ids])
    have keep: "spell tk ?ids = spell tk ids" "\<forall>t\<in>set ?ids. known tk t"
      unfolding spell_def by (rule tokidx.merge_step[OF "1.prems"(1) pb "1.prems"(2) m])+
    have Q: "\<forall>t\<in>set ?ids. Q (spelling tk t)"
      by (rule tokidx.merge_step_closed[OF "1.prems"(1) pb "1.prems"(4) m "1.prems"(3)])
    have "\<not> length ids < 2" using len by simp
    from "1.IH"[OF this p refl t m "1.prems"(1) keep(2) "1.prems"(3) Q] show ?thesis
      unfolding step keep(1) using pb by auto
  qed
qed

section \<open>The greedy cut\<close>

text \<open>Every character of the byte alphabet is an entry, and no entry cuts a character.\<close>

definition covers :: "tokenizer \<Rightarrow> bool" where
  "covers tk \<longleftrightarrow> (\<forall>b. tk_ids tk (gpt2_char b) \<noteq> None)"

definition whole_keys :: "tokenizer \<Rightarrow> bool" where
  "whole_keys tk \<longleftrightarrow> (\<forall>w\<in>dom (tk_ids tk). length w = 1 \<or> utf8_valid w)"

definition image_of_bytes :: "u8 list \<Rightarrow> bool" where
  "image_of_bytes w \<longleftrightarrow> (\<exists>bs. w = bytes_to_gpt2_unicode bs)"

lemma image_append: "image_of_bytes x \<Longrightarrow> image_of_bytes y \<Longrightarrow> image_of_bytes (x @ y)"
  unfolding image_of_bytes_def by (metis gpt2_append)

lemma longest_match_None:
  "longest_match ids bytes i n = None \<longleftrightarrow> (\<forall>l. 0 < l \<and> l \<le> n \<longrightarrow> ids (take l (drop i bytes)) = None)"
  by (induction n) (auto simp: le_Suc_eq split: option.splits)

lemma longest_match_covers:
  assumes "covers tk" and "drop i bytes = gpt2_char b @ rest" and "i < length bytes"
  obtains t len where "longest_match (tk_ids tk) bytes i (min (length bytes - i) 64) = Some (t, len)"
    "length (gpt2_char b) \<le> len"
proof -
  let ?n = "min (length bytes - i) 64" and ?k = "length (gpt2_char b)"
  have "?k \<le> length bytes - i" using assms(2) by (metis length_append length_drop le_add1)
  then have k: "0 < ?k" "?k \<le> ?n" using gpt2_char_length[of b] by auto
  obtain s where s: "tk_ids tk (take ?k (drop i bytes)) = Some s"
    using assms(1,2) by (auto simp: covers_def)
  show thesis
  proof (cases "longest_match (tk_ids tk) bytes i ?n")
    case None
    from iffD1[OF longest_match_None this] k s show thesis by simp
  next
    case (Some r)
    obtain t len where r: "r = (t, len)" by (cases r)
    from tokidx.longest_match_found[OF Some[unfolded r]] k(2) s have "\<not> len < ?k" by auto
    then show thesis using that[OF Some[unfolded r]] by simp
  qed
qed

lemma cut_is_image:
  assumes "whole_keys tk" and "tk_ids tk (take n (bytes_to_gpt2_unicode (b # bs))) = Some t"
    and "length (gpt2_char b) \<le> n"
  shows "\<exists>j. 0 < j \<and> j \<le> Suc (length bs) \<and>
    take n (bytes_to_gpt2_unicode (b # bs)) = bytes_to_gpt2_unicode (take j (b # bs))"
proof -
  let ?w = "take n (bytes_to_gpt2_unicode (b # bs))"
  have nz: "0 < n" using assms(3) by (cases n) simp_all
  have "?w \<in> dom (tk_ids tk)" using assms(2) by (rule domI)
  with assms(1) have "length ?w = 1 \<or> utf8_valid ?w" unfolding whole_keys_def by (rule bspec)
  then show ?thesis
  proof
    assume one: "length ?w = 1"
    have "length (gpt2_char b) \<le> length ?w" using assms(3) by simp
    with one have "length (gpt2_char b) = 1" using gpt2_char_length[of b] by auto
    moreover have "n = 1 \<or> bytes_to_gpt2_unicode bs = []" using one calculation nz
      by (cases "bytes_to_gpt2_unicode bs"; cases "n - 1") simp_all
    ultimately show ?thesis using nz by (intro exI[of _ 1]) auto
  next
    assume "utf8_valid ?w"
    from gpt2_valid_prefix[OF this] obtain j where j: "j \<le> length (b # bs)"
      "?w = bytes_to_gpt2_unicode (take j (b # bs))" by auto
    have "?w \<noteq> []" using nz by simp
    then have "0 < j" using j(2) by (cases j) simp_all
    then show ?thesis using j by auto
  qed
qed

lemma init_loop_ok:
  assumes "wf_tok tk" and "covers tk" and "whole_keys tk"
    and "bytes = bytes_to_gpt2_unicode (front @ todo)" and "i = length (bytes_to_gpt2_unicode front)"
    and "\<forall>t\<in>set out. known tk t \<and> image_of_bytes (spelling tk t)" and "spell tk out = bytes_to_gpt2_unicode front"
  shows "\<exists>out'. init_loop tk orig bytes i out = Ret out' \<and>
    (\<forall>t\<in>set out'. known tk t \<and> image_of_bytes (spelling tk t)) \<and> spell tk out' = bytes"
  using assms(4-7)
proof (induction "length todo" arbitrary: front todo i out rule: less_induct)
  case less
  show ?case
  proof (cases todo)
    case Nil
    then have "init_loop tk orig bytes i out = Ret out"
      using less.prems(1,2) by (simp add: init_loop.simps)
    then show ?thesis using less.prems Nil by simp
  next
    case (Cons b r)
    have d: "drop i bytes = bytes_to_gpt2_unicode (b # r)" and lt: "i < length bytes"
      using less.prems(1,2) by (simp_all add: Cons gpt2_append)
    obtain t len where lm: "longest_match (tk_ids tk) bytes i (min (length bytes - i) 64) = Some (t, len)"
      and ge: "length (gpt2_char b) \<le> len"
      using longest_match_covers[OF assms(2) d[unfolded gpt2_Cons] lt] by blast
    note sp = tokidx.longest_match_spells[OF assms(1) lm]
    have key: "tk_ids tk (take len (bytes_to_gpt2_unicode (b # r))) = Some t"
      using tokidx.longest_match_found[OF lm] d by simp
    from cut_is_image[OF assms(3) key ge] obtain j where j: "0 < j" "j \<le> Suc (length r)"
      "take len (bytes_to_gpt2_unicode (b # r)) = bytes_to_gpt2_unicode (take j (b # r))" by auto
    have "len \<le> length bytes - i" using longest_match_bounds[OF lm] by simp
    then have "length (take len (drop i bytes)) = len" by simp
    then have len: "len = length (bytes_to_gpt2_unicode (take j (b # r)))" unfolding d j(3) by simp
    have "init_loop tk orig bytes i out = init_loop tk orig bytes (i + len) (out @ [t])"
      using lt lm by (simp add: init_loop.simps[of tk orig bytes i out])
    moreover have "\<exists>out'. init_loop tk orig bytes (i + len) (out @ [t]) = Ret out' \<and>
      (\<forall>t\<in>set out'. known tk t \<and> image_of_bytes (spelling tk t)) \<and> spell tk out' = bytes"
    proof (rule less.hyps)
      show "length (drop j todo) < length todo" using j(1,2) by (simp add: Cons)
      show "bytes = bytes_to_gpt2_unicode ((front @ take j todo) @ drop j todo)" using less.prems(1) by simp
      show "i + len = length (bytes_to_gpt2_unicode (front @ take j todo))"
        using less.prems(2) len by (simp add: gpt2_append Cons)
      show "\<forall>t\<in>set (out @ [t]). known tk t \<and> image_of_bytes (spelling tk t)"
        using less.prems(3) sp d j(3) by (auto simp: image_of_bytes_def)
      show "spell tk (out @ [t]) = bytes_to_gpt2_unicode (front @ take j todo)"
        using less.prems(4) sp(2) d j(3) by (simp add: gpt2_append Cons)
    qed
    ultimately show ?thesis by simp
  qed
qed

end
