(* ===== verification/Tokenizer_Properties.thy ===== *)
theory Tokenizer_Properties imports Tokenizer_Facts begin

text \<open>
  The properties of the tokenizer and their witnesses: construction, the byte alphabet,
  merging, lossless encoding, the round trip of the streaming decoder, and the places where
  the code falls short of it (the byte fallback, literals of control tokens in the text).
\<close>

section \<open>Encoding\<close>

lemma whole_keys_from_gguf_parts:
  assumes "from_gguf_parts tokens scores types merges = Ret tk" and "length tokens \<le> 2 ^ 32"
    and "\<forall>tok\<in>set tokens. utf8_valid (as_bytes tok)"
  shows "whole_keys tk"
proof -
  have "length (token_text tok) = 1 \<or> utf8_valid (token_text tok)" if "tok \<in> set tokens" for tok
    using that assms(3) by (simp add: token_text_def split: option.split)
  then show ?thesis using wf_from_gguf_parts(3)[OF assms(1,2)] by (auto simp: whole_keys_def)
qed

lemma covers_from_gguf_parts:
  assumes "from_gguf_parts tokens scores types merges = Ret tk" and "length tokens \<le> 2 ^ 32"
    and "\<forall>b. gpt2_char b \<in> token_text ` set tokens"
  shows "covers tk"
  using assms(3) wf_from_gguf_parts(3)[OF assms(1,2)] by (auto simp: covers_def dom_def)

lemma encode_ok:
  assumes "wf_tok tk" and "covers tk" and "whole_keys tk"
  shows "\<exists>ids. encode tk s bos = Ret ((if bos then [TOKEN_BOS] else []) @ ids) \<and>
    (\<forall>t\<in>set ids. known tk t \<and> image_of_bytes (spelling tk t)) \<and>
    spell tk ids = bytes_to_gpt2_unicode (as_bytes s) \<and> merge_done tk ids"
proof -
  have "\<exists>out. init_loop tk (as_bytes s) (bytes_to_gpt2_unicode (as_bytes s)) 0 [] = Ret out \<and>
      (\<forall>t\<in>set out. known tk t \<and> image_of_bytes (spelling tk t)) \<and>
      spell tk out = bytes_to_gpt2_unicode (as_bytes s)"
    by (rule init_loop_ok[OF assms, of _ "[]" "as_bytes s"]) simp_all
  then obtain out where out: "initial_tokenise tk s = Ret out"
    "\<forall>t\<in>set out. known tk t" "\<forall>t\<in>set out. image_of_bytes (spelling tk t)"
    "spell tk out = bytes_to_gpt2_unicode (as_bytes s)" unfolding initial_tokenise_def by blast
  from bpe_merge_ok[where Q = image_of_bytes, OF assms(1) out(2) image_append out(3)] obtain ids
    where "bpe_merge tk out = Ret ids" "\<forall>t\<in>set ids. known tk t" "spell tk ids = spell tk out"
      "merge_done tk ids" "\<forall>t\<in>set ids. image_of_bytes (spelling tk t)" by blast
  then show ?thesis using out by (simp add: encode_def)
qed

section \<open>The streaming decoder\<close>

lemma replace2_skip: "x \<noteq> a \<Longrightarrow> replace2 a b c (x # r) = x # replace2 a b c r"
  by (cases r) simp_all

lemma replace2_hit: "replace2 a b c (a # b # r) = c # replace2 a b c r"
  by simp

lemma replace2_miss: "y \<noteq> b \<Longrightarrow> y \<noteq> a \<Longrightarrow> replace2 a b c (a # y # r) = a # y # replace2 a b c r"
  by (simp add: replace2_skip)

text \<open>The characters the streaming decoder restores.\<close>

definition streamable :: "u8 \<Rightarrow> bool" where
  "streamable b \<longleftrightarrow> b = 10 \<or> (32 \<le> b \<and> b \<le> 126)"

lemma gpt2_char_streamable:
  assumes "streamable b"
  shows "gpt2_char b = (if b = 10 then [0xC4, 0x8A] else if b = 32 then [0xC4, 0xA0] else [b])"
proof -
  consider "b = 10" | "b = 32" | "33 \<le> unat b" "unat b < 127" "b \<noteq> 10" "b \<noteq> 32"
    using assms by (cases "unat b = 32") (auto simp: streamable_def word_le_nat_alt word_unat_eq_iff)
  then show ?thesis
  proof cases
    case 3
    then have "gpt2_cp (unat b) = unat b" "unat b < 128" by (simp_all add: gpt2_cp_def)
    then show ?thesis using 3 utf8_of_cp_one[of "unat b"] by (simp add: gpt2_char_cp)
  qed (simp_all add: gpt2_char_cp gpt2_cp_def utf8_of_cp_two[of 266, simplified] utf8_of_cp_two[of 288, simplified])
qed

lemma streamable_not_lead: "streamable b \<Longrightarrow> b \<noteq> 0xC4"
  by (auto simp: streamable_def)

definition stream_mid :: "u8 \<Rightarrow> u8 list" where
  "stream_mid b = (if b = 10 then [0xC4, 0x8A] else [b])"

lemma replace_space:
  "list_all streamable bs \<Longrightarrow>
     replace2 0xC4 0xA0 0x20 (bytes_to_gpt2_unicode bs) = concat (map stream_mid bs)"
  by (induction bs)
    (auto simp: gpt2_char_streamable streamable_not_lead replace2_skip replace2_hit replace2_miss stream_mid_def
      simp del: replace2.simps(1))

lemma replace_newline:
  "list_all streamable bs \<Longrightarrow> replace2 0xC4 0x8A 0x0A (concat (map stream_mid bs)) = bs"
  by (induction bs) (auto simp: streamable_not_lead replace2_skip stream_mid_def)

text \<open>Not one of the four special ids, and no control token.\<close>

definition plain_token :: "tokenizer \<Rightarrow> u32 \<Rightarrow> bool" where
  "plain_token tk t \<longleftrightarrow>
     t \<notin> {TOKEN_BOS, TOKEN_EOS, TOKEN_EOT, TOKEN_PAD} \<and> ve_type (tk_vocab tk ! unat t) \<noteq> 3"

lemma decode_one_image:
  assumes "known tk t" and "plain_token tk t" and "spelling tk t = bytes_to_gpt2_unicode bs"
    and "list_all streamable bs"
  shows "decode_one tk t = Some (of_bytes bs)"
proof -
  have "utf8_lossy (spelling tk t) = bytes_to_gpt2_unicode bs"
    by (simp add: assms(3) utf8_lossy_valid gpt2_utf8_valid)
  then show ?thesis
    using assms(1,2) replace_space[OF assms(4)] replace_newline[OF assms(4)]
    by (simp add: decode_one_def known_def spelling_def plain_token_def)
qed

lemma spell_image:
  "\<forall>t\<in>set ts. image_of_bytes (spelling tk t) \<Longrightarrow> image_of_bytes (spell tk ts)"
proof (induction ts)
  case Nil
  show ?case unfolding image_of_bytes_def by (rule exI[of _ "[]"]) simp
qed (simp add: image_append)

lemma stream_segments:
  assumes "\<forall>t\<in>set ts. known tk t \<and> image_of_bytes (spelling tk t) \<and> plain_token tk t"
    and "spell tk ts = bytes_to_gpt2_unicode bs" and "list_all streamable bs"
  shows "(\<forall>t\<in>set ts. decode_one tk t \<noteq> None) \<and> concat (map (\<lambda>t. the (decode_one tk t)) ts) = of_bytes bs"
  using assms
proof (induction ts arbitrary: bs)
  case Nil
  then have "bytes_to_gpt2_unicode bs = bytes_to_gpt2_unicode []" by simp
  then show ?case using gpt2_injective by (fastforce simp: of_bytes_def)
next
  case (Cons t ts)
  from Cons.prems(1) obtain x where x: "spelling tk t = bytes_to_gpt2_unicode x"
    by (auto simp: image_of_bytes_def)
  have "image_of_bytes (spell tk ts)" using Cons.prems(1) by (intro spell_image) simp
  then obtain y where y: "spell tk ts = bytes_to_gpt2_unicode y" by (auto simp: image_of_bytes_def)
  have "bytes_to_gpt2_unicode (x @ y) = bytes_to_gpt2_unicode bs"
    using Cons.prems(2) x y by (simp add: gpt2_append)
  then have bs: "bs = x @ y" using gpt2_injective by blast
  have "decode_one tk t = Some (of_bytes x)"
    using Cons.prems(1,3) x bs by (intro decode_one_image) simp_all
  moreover from Cons.IH[OF _ y] Cons.prems(1,3) bs
  have "(\<forall>t\<in>set ts. decode_one tk t \<noteq> None) \<and> concat (map (\<lambda>t. the (decode_one tk t)) ts) = of_bytes y" by simp
  ultimately show ?case by (simp add: bs of_bytes_def)
qed

section \<open>The byte fallback\<close>

lemma orig_scan_index:
  assumes "k < length bs" and "idx \<le> k"
  shows "orig_scan (bytes_to_gpt2_unicode bs) (length (bytes_to_gpt2_unicode (take k bs))) idx
    (length bs - idx) (length (bytes_to_gpt2_unicode (take idx bs))) = Ret k"
  using assms(2)
proof (induction "k - idx" arbitrary: idx)
  case 0
  then have "idx = k" by simp
  then show ?case using assms(1) by (cases "length bs - k") simp_all
next
  case (Suc d)
  then have lt: "idx < k" by simp
  then obtain n where n: "length bs - idx = Suc n" using assms(1) by (cases "length bs - idx") auto
  let ?g = "bytes_to_gpt2_unicode bs" and ?p = "\<lambda>j. length (bytes_to_gpt2_unicode (take j bs))"
  have bs: "bs = take idx bs @ bs ! idx # drop (Suc idx) bs"
    using lt assms(1) by (intro id_take_nth_drop) simp
  have g: "?g = bytes_to_gpt2_unicode (take idx bs) @ gpt2_char (bs ! idx) @ bytes_to_gpt2_unicode (drop (Suc idx) bs)"
    by (subst bs) (simp only: gpt2_append gpt2_Cons)
  have "take k bs = take idx bs @ drop idx (take k bs)"
    using lt by (metis append_take_drop_id min.absorb1 less_imp_le take_take)
  then have kp: "?p k = ?p idx + length (bytes_to_gpt2_unicode (drop idx (take k bs)))"
    by (metis gpt2_append length_append)
  have "drop idx (take k bs) \<noteq> []" using lt assms(1) by simp
  then have "0 < length (bytes_to_gpt2_unicode (drop idx (take k bs)))"
    using gpt2_length_bounds(1)[of "drop idx (take k bs)"] by (metis length_greater_0_conv order_less_le_trans)
  then have ne: "?p idx \<noteq> ?p k" using kp by simp
  have inr: "?p idx < length ?g" unfolding g using gpt2_char_length[of "bs ! idx"] by auto
  have at: "?g ! ?p idx = hd (gpt2_char (bs ! idx))"
    unfolding g by (simp add: nth_append hd_conv_nth)
  have nxt: "?p (Suc idx) = ?p idx + length (gpt2_char (bs ! idx))"
    using lt assms(1) by (simp add: take_Suc_conv_app_nth gpt2_append)
  have "orig_scan ?g (?p k) idx (Suc n) (?p idx) = orig_scan ?g (?p k) (Suc idx) n (?p (Suc idx))"
    using ne inr by (simp add: at gpt2_char_len_hd nxt)
  moreover have "length bs - Suc idx = n" using n by simp
  ultimately show ?case using Suc.hyps(1)[of "Suc idx"] Suc.hyps(2) lt unfolding n by simp
qed

lemma orig_byte_at_index:
  "k < length bs \<Longrightarrow>
     orig_byte_at bs (bytes_to_gpt2_unicode bs) (length (bytes_to_gpt2_unicode (take k bs))) = Ret k"
  using orig_scan_index[of k bs 0] by (simp add: orig_byte_at_def)

text \<open>Where the \<open>k\<close>-th character of a text begins in its GPT-2 form, and that no entry matches there.\<close>

definition char_start :: "string \<Rightarrow> nat \<Rightarrow> nat" where
  "char_start s k = length (bytes_to_gpt2_unicode (take k (as_bytes s)))"

definition unmatched :: "tokenizer \<Rightarrow> string \<Rightarrow> nat \<Rightarrow> bool" where
  "unmatched tk s k \<longleftrightarrow>
     (let g = bytes_to_gpt2_unicode (as_bytes s)
      in longest_match (tk_ids tk) g (char_start s k) (min (length g - char_start s k) 64) = None)"

lemma fallback_step:
  assumes "unmatched tk s k" and "length (tk_bytes tk) = 256" and "k < length s"
  shows "init_loop tk (as_bytes s) (bytes_to_gpt2_unicode (as_bytes s)) (char_start s k) out =
    (if k < 256 then init_loop tk (as_bytes s) (bytes_to_gpt2_unicode (as_bytes s)) (char_start s (Suc k)) (out @ [tk_bytes tk ! k])
     else Panic)"
proof -
  let ?bs = "as_bytes s"
  let ?g = "bytes_to_gpt2_unicode ?bs"
  have lt: "k < length ?bs" using assms(3) by simp
  have bs: "?bs = take k ?bs @ ?bs ! k # drop (Suc k) ?bs" using lt by (rule id_take_nth_drop)
  have g: "?g = bytes_to_gpt2_unicode (take k ?bs) @ gpt2_char (?bs ! k) @ bytes_to_gpt2_unicode (drop (Suc k) ?bs)"
    by (subst bs) (simp only: gpt2_append gpt2_Cons)
  have inr: "char_start s k < length ?g"
    unfolding g char_start_def using gpt2_char_length[of "?bs ! k"] by auto
  have at: "?g ! char_start s k = hd (gpt2_char (?bs ! k))"
    unfolding g char_start_def by (simp add: nth_append hd_conv_nth)
  have nxt: "char_start s (Suc k) = char_start s k + length (gpt2_char (?bs ! k))"
    using lt by (simp add: char_start_def take_Suc_conv_app_nth gpt2_append)
  have orig: "orig_byte_at ?bs ?g (char_start s k) = Ret k"
    using orig_byte_at_index[OF lt] by (simp add: char_start_def)
  show ?thesis
    using inr assms(1,2) unfolding unmatched_def Let_def
    by (subst init_loop.simps) (simp add: orig at gpt2_char_len_hd nxt)
qed

lemma fallback_all:
  assumes "\<forall>k < length s. unmatched tk s k" and "length (tk_bytes tk) = 256" and "k \<le> length s" and "k \<le> 256"
  shows "init_loop tk (as_bytes s) (bytes_to_gpt2_unicode (as_bytes s)) (char_start s k) (take k (tk_bytes tk)) =
    (if length s \<le> 256 then Ret (take (length s) (tk_bytes tk)) else Panic)"
  using assms(3,4)
proof (induction "length s - k" arbitrary: k)
  case 0
  then have "k = length s" by simp
  then show ?case using 0 by (simp add: init_loop.simps char_start_def)
next
  case (Suc d)
  then have lt: "k < length s" by simp
  then have u: "unmatched tk s k" using assms(1) by simp
  show ?case
  proof (cases "k = 256")
    case True
    then show ?thesis using fallback_step[OF u assms(2) lt, of "take k (tk_bytes tk)"] lt by simp
  next
    case False
    then have k: "k < 256" using Suc.prems by simp
    then have "take (Suc k) (tk_bytes tk) = take k (tk_bytes tk) @ [tk_bytes tk ! k]"
      using assms(2) by (simp add: take_Suc_conv_app_nth)
    moreover have "init_loop tk (as_bytes s) (bytes_to_gpt2_unicode (as_bytes s)) (char_start s (Suc k)) (take (Suc k) (tk_bytes tk)) =
        (if length s \<le> 256 then Ret (take (length s) (tk_bytes tk)) else Panic)"
      using Suc.hyps(2) lt k by (intro Suc.hyps(1)) simp_all
    ultimately show ?thesis
      using fallback_step[OF u assms(2) lt, of "take k (tk_bytes tk)"] k by simp
  qed
qed

section \<open>Properties\<close>

text \<open>
  C25: a tokenizer that \<open>from_gguf_parts\<close> returns is well formed: its entries spell the
  tokens in order (a \<^verbatim>\<open><0xNN>\<close> token spells its byte), the reverse table has exactly their
  texts as keys and maps each to an id with that text, every merge rank is over known ids,
  and the byte table has 256 entries.
\<close>

theorem tokenizer_construction:
  assumes "from_gguf_parts tokens scores types merges = Ret tk" and "length tokens \<le> 2 ^ 32"
  shows "wf_tok tk \<and> map ve_text (tk_vocab tk) = map token_text tokens \<and>
    dom (tk_ids tk) = token_text ` set tokens \<and>
    (\<forall>a b. tk_merges tk (a, b) \<noteq> None \<longrightarrow> known tk a \<and> known tk b)"
  using wf_from_gguf_parts[OF assms] merges_known[OF assms] by auto

text \<open>
  Construction fails exactly on a score table of the wrong length (an empty one is
  allowed), and panics exactly when the lengths agree and a token of type 6 has no text.
\<close>

theorem tokenizer_construction_errors:
  "(from_gguf_parts tokens scores types merges = Fail e \<longleftrightarrow>
      scores \<noteq> [] \<and> length scores \<noteq> length tokens \<and>
      e = VocabSizeMismatch (length tokens) (length scores)) \<and>
   (from_gguf_parts tokens scores types merges = Panic \<longleftrightarrow>
      (scores = [] \<or> length scores = length tokens) \<and>
      (\<exists>i < length tokens. token_text (tokens ! i) = [] \<and> i < length types \<and> types ! i = 6))"
proof (cases "scores = [] \<or> length scores = length tokens")
  case True
  then show ?thesis using from_gguf_parts_cases[OF True] by auto
next
  case False
  then show ?thesis by (auto simp: from_gguf_parts_def)
qed

text \<open>
  C36: the byte table. An entry counts for a byte when its type is 6 and its text begins with
  that byte, or when its text is that one byte and its type is not 1: this is the test of the
  code, whose comment asks for one-byte entries of type 6 or \<^verbatim>\<open><0xNN>\<close> tokens. The table
  holds the last id that counts for the byte, and 0 when there is none (or when that id is
  \<^verbatim>\<open>u32::MAX\<close>, the marker of a gap): the second pass, which looks the missing bytes up as
  \<^verbatim>\<open><0xNN>\<close>, never finds one, because such tokens are stored under the byte itself.
\<close>

theorem tokenizer_byte_table:
  assumes "from_gguf_parts tokens scores types merges = Ret tk" and "length tokens \<le> 2 ^ 32"
  shows "(\<forall>i. i \<in> set (byte_owners (tk_vocab tk) b) \<longleftrightarrow> i < length (tk_vocab tk) \<and>
      (ve_type (tk_vocab tk ! i) = 6 \<and> hd (ve_text (tk_vocab tk ! i)) = b \<or>
       ve_type (tk_vocab tk ! i) \<noteq> 1 \<and> ve_text (tk_vocab tk ! i) = [b])) \<and>
    sorted (byte_owners (tk_vocab tk) b) \<and>
    tk_bytes tk ! unat b =
      (let t = last (byte_owners (tk_vocab tk) b)
       in if byte_owners (tk_vocab tk) b = [] \<or> of_nat t = U32_MAX then 0 else of_nat t) \<and>
    tk_ids tk (as_bytes (byte_repr (unat b))) = None"
proof (intro conjI allI)
  show "i \<in> set (byte_owners (tk_vocab tk) b) \<longleftrightarrow> i < length (tk_vocab tk) \<and>
      (ve_type (tk_vocab tk ! i) = 6 \<and> hd (ve_text (tk_vocab tk ! i)) = b \<or>
       ve_type (tk_vocab tk ! i) \<noteq> 1 \<and> ve_text (tk_vocab tk ! i) = [b])" for i
    by (auto simp: byte_owners_def byte_entry_def length_Suc_conv)
  show "sorted (byte_owners (tk_vocab tk) b)"
    unfolding byte_owners_def by (rule sorted_wrt_filter) simp
  show "tk_bytes tk ! unat b = (let t = last (byte_owners (tk_vocab tk) b)
       in if byte_owners (tk_vocab tk) b = [] \<or> of_nat t = U32_MAX then 0 else of_nat t)"
    using byte_table[OF assms] by (simp add: last_byte_entry_owners Let_def)
  have "as_bytes (byte_repr (unat b)) \<notin> dom (tk_ids tk)"
    using wf_from_gguf_parts(3)[OF assms] not_sym[OF byte_repr_not_text[OF unat_u8_less[of b]]] by auto
  then show "tk_ids tk (as_bytes (byte_repr (unat b))) = None" by (simp add: domIff)
qed

text \<open>
  C37: the byte-to-character map of GPT-2 loses nothing and yields text: equal images come
  from equal byte strings, every image is well-formed UTF-8, and it is at most twice as long.
\<close>

theorem gpt2_alphabet:
  "(bytes_to_gpt2_unicode xs = bytes_to_gpt2_unicode ys \<longleftrightarrow> xs = ys) \<and>
   utf8_valid (bytes_to_gpt2_unicode xs) \<and>
   length xs \<le> length (bytes_to_gpt2_unicode xs) \<and> length (bytes_to_gpt2_unicode xs) \<le> 2 * length xs"
  using gpt2_injective gpt2_utf8_valid gpt2_length_bounds by blast

text \<open>
  C28: the pair scan returns the leftmost of the adjacent pairs with the lowest rank below
  \<^verbatim>\<open>u32::MAX\<close>, and \<open>None\<close> exactly when no adjacent pair has such a rank.
\<close>

theorem best_pair_correct:
  "case best_pair tk ids of
     None \<Rightarrow> \<forall>j r. \<not> (Suc j < length ids \<and> pair_rank tk ids j = Some r \<and> r \<noteq> U32_MAX)
   | Some p \<Rightarrow> Suc p < length ids \<and>
       (\<exists>r < U32_MAX. pair_rank tk ids p = Some r \<and>
         \<not> (\<exists>j s. Suc j < length ids \<and> pair_rank tk ids j = Some s \<and> (s < r \<or> (s = r \<and> j < p))))"
proof (cases "best_pair tk ids")
  case None
  then show ?thesis using best_pair_None[of tk ids] by auto
next
  case (Some p)
  from Some show ?thesis by (rule best_pair_Some) (force simp: Some)
qed

text \<open>
  C12: on known ids the merge loop of a well-formed tokenizer never panics: it ends with known
  ids, no more than it was given, that spell the same bytes and among which nothing is left
  to merge.
\<close>

theorem bpe_merge_correct:
  assumes "wf_tok tk" and "\<forall>t\<in>set ids. known tk t"
  shows "\<exists>out. bpe_merge tk ids = Ret out \<and> (\<forall>t\<in>set out. known tk t) \<and>
    spell tk out = spell tk ids \<and> length out \<le> length ids \<and> merge_done tk out"
  using bpe_merge_ok[OF assms, where Q = "\<lambda>_. True"] by auto

text \<open>
  C7: encoding is lossless: with a vocabulary of UTF-8 tokens that has an entry for each of
  the 256 byte characters, every text is encoded without a panic into known ids (after the
  begin-of-text id when one is asked for) that spell exactly the text's GPT-2 form.
\<close>

theorem encode_lossless:
  assumes "from_gguf_parts tokens scores types merges = Ret tk" and "length tokens \<le> 2 ^ 32"
    and "\<forall>tok\<in>set tokens. utf8_valid (as_bytes tok)"
    and "\<forall>b. gpt2_char b \<in> token_text ` set tokens"
  shows "\<exists>ids. encode tk s bos = Ret ((if bos then [TOKEN_BOS] else []) @ ids) \<and>
    (\<forall>t\<in>set ids. known tk t) \<and> spell tk ids = bytes_to_gpt2_unicode (as_bytes s) \<and> merge_done tk ids"
  using encode_ok[OF wf_from_gguf_parts(1)[OF assms(1,2)] covers_from_gguf_parts[OF assms(1,2,4)]
      whole_keys_from_gguf_parts[OF assms(1-3)], of s bos] by blast

text \<open>
  C13: streaming gives the text back, for a tokenizer built from tokens that are all UTF-8
  and among whose texts is each of the 256 byte characters. A text of printable ASCII, blanks
  and newlines is then encoded without an error; if all its ids are ordinary tokens (not one
  of the four special ids, no control token), the pieces \<open>decode_one\<close> yields for the ids
  one by one are all present and concatenate to the text. Without an entry for a byte
  character the fallback may emit another token, and the text is not restored.
\<close>

theorem stream_roundtrip:
  assumes "from_gguf_parts tokens scores types merges = Ret tk" and "length tokens \<le> 2 ^ 32"
    and "\<forall>tok\<in>set tokens. utf8_valid (as_bytes tok)"
    and "\<forall>b. gpt2_char b \<in> token_text ` set tokens"
    and "list_all streamable (as_bytes s)"
  shows "\<exists>ids. encode_no_bos tk s = Ret ids \<and>
    ((\<forall>t\<in>set ids. plain_token tk t) \<longrightarrow>
      (\<forall>t\<in>set ids. decode_one tk t \<noteq> None) \<and> concat (map (\<lambda>t. the (decode_one tk t)) ids) = s)"
proof -
  obtain ids where ids: "encode tk s False = Ret ids"
    "\<forall>t\<in>set ids. known tk t \<and> image_of_bytes (spelling tk t)"
    "spell tk ids = bytes_to_gpt2_unicode (as_bytes s)"
    using encode_ok[OF wf_from_gguf_parts(1)[OF assms(1,2)] covers_from_gguf_parts[OF assms(1,2,4)]
      whole_keys_from_gguf_parts[OF assms(1-3)], of s False] by auto
  show ?thesis
    using stream_segments[OF _ ids(3) assms(5)] ids(1,2) by (auto simp: encode_no_bos_def)
qed

text \<open>
  The text is not told apart from control tokens: a text whose GPT-2 form is the text of
  a vocabulary entry of at most 64 bytes becomes that one token, whatever its type, so a
  user who types the literal of a control token injects the token.
\<close>

lemma encode_entry:
  assumes "tk_ids tk (bytes_to_gpt2_unicode (as_bytes s)) = Some t" and "s \<noteq> []"
    and "length (bytes_to_gpt2_unicode (as_bytes s)) \<le> 64"
  shows "encode_no_bos tk s = Ret [t]"
proof -
  let ?g = "bytes_to_gpt2_unicode (as_bytes s)"
  obtain n where n: "length ?g = Suc n"
    using assms(2) gpt2_length_bounds(1)[of "as_bytes s"] by (cases "length ?g") auto
  then have "longest_match (tk_ids tk) ?g 0 (min (length ?g - 0) 64) = Some (t, length ?g)"
    using assms(1,3) by (simp add: min_def)
  then have "init_loop tk (as_bytes s) ?g 0 [] = Ret [t]"
    using n by (simp add: init_loop.simps[of tk _ ?g 0] init_loop.simps[of tk _ ?g "Suc n"])
  then show ?thesis
    by (simp add: encode_no_bos_def encode_def initial_tokenise_def bpe_merge.simps[of tk "[t]"])
qed

text \<open>
  C38: the byte fallback emits the byte table's entry for the byte's position in the text, not
  for the byte. Wherever in a text the tokenization stands at a byte (number \<open>k\<close>) at which
  no vocabulary entry matches, it appends the entry at index \<open>k\<close> of the byte table,
  whatever the byte, and goes on at the next byte; at index 256 and beyond it panics. So a
  text none of whose bytes is matched becomes a prefix of the byte table, the same for every
  such text of its length, or panics when it is longer than 256 bytes.
\<close>

theorem byte_fallback_uses_position:
  assumes "length (tk_bytes tk) = 256"
  shows "(\<forall>k out. k < length s \<and> unmatched tk s k \<longrightarrow>
      init_loop tk (as_bytes s) (bytes_to_gpt2_unicode (as_bytes s)) (char_start s k) out =
        (if k < 256 then init_loop tk (as_bytes s) (bytes_to_gpt2_unicode (as_bytes s)) (char_start s (Suc k)) (out @ [tk_bytes tk ! k])
         else Panic)) \<and>
    ((\<forall>k < length s. unmatched tk s k) \<longrightarrow>
      initial_tokenise tk s = (if length s \<le> 256 then Ret (take (length s) (tk_bytes tk)) else Panic))"
  using fallback_step[OF _ assms, of s] fallback_all[OF _ assms, of s 0]
  by (auto simp: initial_tokenise_def char_start_def)

text \<open>
  \<open>decode\<close> does not undo the byte-to-character map: what it returns for an encoded text
  of ordinary tokens is the text's GPT-2 form, in which a blank is a two-byte character.
\<close>

theorem decode_keeps_gpt2_form:
  assumes "from_gguf_parts tokens scores types merges = Ret tk" and "length tokens \<le> 2 ^ 32"
    and "\<forall>tok\<in>set tokens. utf8_valid (as_bytes tok)"
    and "\<forall>b. gpt2_char b \<in> token_text ` set tokens"
  shows "\<exists>ids. encode_no_bos tk s = Ret ids \<and>
    ((\<forall>t\<in>set ids. plain_token tk t) \<longrightarrow>
      decode tk ids = of_bytes (bytes_to_gpt2_unicode (as_bytes s)))"
proof -
  obtain ids where ids: "encode tk s False = Ret ids" "\<forall>t\<in>set ids. known tk t"
    "spell tk ids = bytes_to_gpt2_unicode (as_bytes s)"
    using encode_ok[OF wf_from_gguf_parts(1)[OF assms(1,2)] covers_from_gguf_parts[OF assms(1,2,4)]
      whole_keys_from_gguf_parts[OF assms(1-3)], of s False] by auto
  have "decode tk ids = of_bytes (bytes_to_gpt2_unicode (as_bytes s))" if "\<forall>t\<in>set ids. plain_token tk t"
  proof -
    have "map (decode_bytes tk) ids = map (spelling tk) ids"
      using ids(2) that by (auto simp: decode_bytes_def known_def plain_token_def spelling_def)
    then have "concat (map (decode_bytes tk) ids) = bytes_to_gpt2_unicode (as_bytes s)"
      using ids(3) by (simp only: spell_def)
    then show ?thesis by (simp add: decode_def gpt2_utf8_valid)
  qed
  then show ?thesis using ids(1) by (auto simp: encode_no_bos_def)
qed

section \<open>Witnesses\<close>

text \<open>A vocabulary with one token per byte character, and one with a control token.\<close>

definition byte_tokens :: "string list" where
  "byte_tokens = map (\<lambda>b. of_bytes (gpt2_char (of_nat b))) [0..<256]"

definition tok_of :: "(tokenizer, tokenizer_error) outcome \<Rightarrow> tokenizer" where
  "tok_of r = (case r of Ret tk \<Rightarrow> tk | _ \<Rightarrow> \<lparr>tk_vocab = [], tk_ids = Map.empty, tk_merges = Map.empty, tk_bytes = []\<rparr>)"

definition byte_tok :: tokenizer where
  "byte_tok = tok_of (from_gguf_parts byte_tokens [] [] [])"

definition blank_tok :: tokenizer where
  "blank_tok = tok_of (from_gguf_parts [''<0x00>'', ''<0x01>'', ''<0x20>''] [] [6, 6, 6] [])"

definition control_tok :: tokenizer where
  "control_tok = tok_of (from_gguf_parts [''<|eot_id|>''] [] [3] [])"

lemma no_types_Ret: "\<exists>tk. from_gguf_parts tokens [] [] merges = Ret tk"
  using from_gguf_parts_cases[of "[]" tokens "[]" merges]
  by (cases "from_gguf_parts tokens [] [] merges") auto

lemma byte_tok_parts: "from_gguf_parts byte_tokens [] [] [] = Ret byte_tok"
  using no_types_Ret[of byte_tokens "[]"] by (auto simp: byte_tok_def tok_of_def)

lemma byte_tokens_length: "length byte_tokens = 256"
  by (simp add: byte_tokens_def)

lemma token_text_gpt2_char: "token_text (of_bytes (gpt2_char b)) = gpt2_char b"
proof -
  have "length (of_bytes (gpt2_char b)) < 3" using gpt2_char_length[of b] by auto
  then have "parse_byte_token (of_bytes (gpt2_char b)) = None"
    by (auto simp: parse_byte_token_def strip_prefix_def dest!: arg_cong[where f = length])
  then show ?thesis by (simp add: token_text_def)
qed

lemma byte_tokens_valid: "\<forall>tok\<in>set byte_tokens. utf8_valid (as_bytes tok)"
  using gpt2_utf8_valid[of "[_]"] by (auto simp: byte_tokens_def)

lemma byte_tokens_cover: "\<forall>b. gpt2_char b \<in> token_text ` set byte_tokens"
proof
  fix b :: u8
  have "of_bytes (gpt2_char b) \<in> set byte_tokens"
    unfolding byte_tokens_def using unat_u8_less[of b] by (force intro!: image_eqI[of _ _ "unat b"])
  then show "gpt2_char b \<in> token_text ` set byte_tokens"
    by (intro image_eqI[of _ _ "of_bytes (gpt2_char b)"]) (simp_all add: token_text_gpt2_char)
qed

lemma byte_tok_wf: "wf_tok byte_tok" "map ve_text (tk_vocab byte_tok) = map token_text byte_tokens"
  using wf_from_gguf_parts[OF byte_tok_parts] by (simp_all add: byte_tokens_length)

lemma from_gguf_parts_fields:
  assumes "from_gguf_parts tokens scores types merges = Ret tk"
  obtains vocab ids table where
    "add_tokens scores types 0 tokens ([], Map.empty) = (vocab, ids)"
    "byte_pass 0 vocab (replicate 256 U32_MAX) = Ret table"
    "tk_vocab tk = vocab" "tk_ids tk = ids" "tk_bytes tk = map (byte_gap ids table) [0..<256]"
  by (rule from_gguf_parts_RetE[OF assms]) (use that in simp)

text \<open>Every id of the byte vocabulary is an ordinary token.\<close>

lemma byte_tok_plain:
  assumes "known byte_tok t"
  shows "plain_token byte_tok t"
proof -
  have len: "length (tk_vocab byte_tok) = 256"
    using arg_cong[OF byte_tok_wf(2), of length] by (simp add: byte_tokens_length)
  then have t: "unat t < 256" using assms by (simp add: known_def)
  obtain vocab ids where v: "add_tokens [] [] 0 byte_tokens ([], Map.empty) = (vocab, ids)" by fastforce
  have vocab: "tk_vocab byte_tok = vocab"
    by (rule from_gguf_parts_fields[OF byte_tok_parts]) (use v in simp)
  have "map ve_type vocab = map (\<lambda>j. 1) [0..<length byte_tokens]"
    using add_tokens_types[OF v] by simp
  from arg_cong[OF this, of "\<lambda>l. l ! unat t"] have "ve_type (vocab ! unat t) = 1"
    using t len vocab by (simp add: byte_tokens_length)
  moreover have "t \<notin> {TOKEN_BOS, TOKEN_EOS, TOKEN_EOT, TOKEN_PAD}"
    using t by (auto simp: TOKEN_BOS_def TOKEN_EOS_def TOKEN_EOT_def TOKEN_PAD_def)
  ultimately show ?thesis by (simp add: plain_token_def vocab)
qed

lemma streamable_text: "list_all streamable (as_bytes ''a b'')"
  by (simp add: as_bytes_def byte_of_char_def streamable_def)

lemma blank_text: "token_text ''<0x00>'' = [0]" "token_text ''<0x01>'' = [1]" "token_text ''<0x20>'' = [0x20]"
  by code_simp+

lemma control_text: "token_text ''<|eot_id|>'' = as_bytes ''<|eot_id|>''"
  by (simp add: token_text_def parse_byte_token_def strip_prefix_def)

lemma control_tok_parts: "from_gguf_parts [''<|eot_id|>''] [] [3] [] = Ret control_tok"
  by (simp add: control_tok_def tok_of_def from_gguf_parts_def control_text as_bytes_def)

lemma control_tok_ids: "tk_ids control_tok = [as_bytes ''<|eot_id|>'' \<mapsto> 0]"
  by (rule from_gguf_parts_fields[OF control_tok_parts]) (auto simp: control_text)

lemma gpt2_char_visible: "33 \<le> unat b \<Longrightarrow> unat b < 127 \<Longrightarrow> gpt2_char b = [b]"
  using utf8_of_cp_one[of "unat b"] by (simp add: gpt2_char_cp gpt2_cp_def)

lemma control_gpt2: "bytes_to_gpt2_unicode (as_bytes ''<|eot_id|>'') = as_bytes ''<|eot_id|>''"
  by (simp add: as_bytes_def byte_of_char_def gpt2_char_visible)

lemma byte_encoding:
  obtains ids where "encode_no_bos byte_tok s = Ret ids" "\<forall>t\<in>set ids. plain_token byte_tok t"
proof -
  obtain ids where ids: "encode byte_tok s False = Ret ids" "\<forall>t\<in>set ids. known byte_tok t"
    using encode_ok[OF byte_tok_wf(1) covers_from_gguf_parts[OF byte_tok_parts _ byte_tokens_cover]
        whole_keys_from_gguf_parts[OF byte_tok_parts _ byte_tokens_valid], of s False]
    by (auto simp: byte_tokens_length)
  then show thesis by (intro that[of ids]) (auto simp: encode_no_bos_def intro: byte_tok_plain)
qed

theorem tokenizer_construction_witness:
  "wf_tok byte_tok \<and> map ve_text (tk_vocab byte_tok) = map token_text byte_tokens"
  using tokenizer_construction[OF byte_tok_parts] by (simp add: byte_tokens_length)

definition two_owners_tok :: tokenizer where
  "two_owners_tok = tok_of (from_gguf_parts [''A'', ''AB''] [] [6, 6] [])"

lemma two_owners_text: "token_text ''A'' = [65]" "token_text ''AB'' = [65, 66]"
  by code_simp+

lemma two_owners_parts: "from_gguf_parts [''A'', ''AB''] [] [6, 6] [] = Ret two_owners_tok"
  by (simp add: two_owners_tok_def tok_of_def from_gguf_parts_def two_owners_text)

text \<open>Two entries of type 6 that begin with the byte: the longer one, which comes last, is taken.\<close>

theorem tokenizer_byte_table_witness:
  "tk_bytes two_owners_tok ! 65 = 1 \<and> tk_ids two_owners_tok (as_bytes (byte_repr 65)) = None"
proof -
  have "byte_owners (tk_vocab two_owners_tok) 65 = [0, 1]"
    by (rule from_gguf_parts_fields[OF two_owners_parts])
      (auto simp: byte_owners_def byte_entry_def two_owners_text)
  then show ?thesis using tokenizer_byte_table[OF two_owners_parts, of 65] by (simp add: U32_MAX_def)
qed

theorem bpe_merge_correct_witness:
  "\<exists>out. bpe_merge control_tok [0, 0] = Ret out \<and> spell control_tok out =
     as_bytes ''<|eot_id|><|eot_id|>''"
proof -
  have wf: "wf_tok control_tok" and texts: "map ve_text (tk_vocab control_tok) = [as_bytes ''<|eot_id|>'']"
    using wf_from_gguf_parts[OF control_tok_parts] by (simp_all add: control_text)
  then obtain e where e: "tk_vocab control_tok = [e]" "ve_text e = as_bytes ''<|eot_id|>''" by auto
  then have "\<forall>t\<in>set [0, 0]. known control_tok t" by (simp add: known_def)
  from bpe_merge_correct[OF wf this] e show ?thesis
    by (auto simp: spelling_def as_bytes_def)
qed

theorem encode_lossless_witness:
  "\<exists>ids. encode byte_tok ''a b'' True = Ret (TOKEN_BOS # ids) \<and>
     spell byte_tok ids = bytes_to_gpt2_unicode (as_bytes ''a b'')"
  using encode_lossless[OF byte_tok_parts _ byte_tokens_valid byte_tokens_cover, of "''a b''" True]
  by (auto simp: byte_tokens_length)

text \<open>The byte vocabulary has ordinary tokens only, so the round trips apply outright.\<close>

theorem stream_roundtrip_witness:
  "\<exists>ids. encode_no_bos byte_tok ''a b'' = Ret ids \<and>
     concat (map (\<lambda>t. the (decode_one byte_tok t)) ids) = ''a b''"
proof -
  obtain ids where "encode_no_bos byte_tok ''a b'' = Ret ids" "\<forall>t\<in>set ids. plain_token byte_tok t"
    by (rule byte_encoding)
  then show ?thesis
    using stream_roundtrip[OF byte_tok_parts _ byte_tokens_valid byte_tokens_cover streamable_text]
    by (auto simp: byte_tokens_length)
qed

lemma control_encoding: "encode_no_bos control_tok ''<|eot_id|>'' = Ret [0]"
proof (rule encode_entry)
  show "tk_ids control_tok (bytes_to_gpt2_unicode (as_bytes ''<|eot_id|>'')) = Some 0"
    unfolding control_gpt2 control_tok_ids by simp
qed (simp_all only: control_gpt2 length_as_bytes, simp_all)

lemma blank_tok_parts: "from_gguf_parts [''<0x00>'', ''<0x01>'', ''<0x20>''] [] [6, 6, 6] [] = Ret blank_tok"
  by (simp add: blank_tok_def tok_of_def from_gguf_parts_def blank_text)

lemma blank_tok_fields:
  "tk_ids blank_tok = [[0] \<mapsto> 0, [1] \<mapsto> 1, [0x20] \<mapsto> 2]" "length (tk_bytes blank_tok) = 256"
  "tk_bytes blank_tok ! 0 = 0" "tk_bytes blank_tok ! 1 = 1" "tk_bytes blank_tok ! 0x20 = 2"
  by (rule from_gguf_parts_fields[OF blank_tok_parts];
      auto simp: blank_text byte_gap_def U32_MAX_def simp del: upt_rec_numeral)+

theorem byte_fallback_uses_position_witness:
  "initial_tokenise blank_tok ''  '' = Ret [0, 1] \<and> tk_bytes blank_tok ! 0x20 = 2"
proof -
  have two: "take 2 (tk_bytes blank_tok) = [0, 1]"
    using blank_tok_fields(2-4) by (simp add: take_Suc_conv_app_nth numeral_2_eq_2)
  have "bytes_to_gpt2_unicode (as_bytes ''  '') = [0xC4, 0xA0, 0xC4, 0xA0]"
    by (simp add: as_bytes_def byte_of_char_def gpt2_char_streamable streamable_def)
  moreover have "char_start ''  '' 0 = 0" "char_start ''  '' 1 = 2"
    by (simp_all add: char_start_def as_bytes_def byte_of_char_def gpt2_char_streamable streamable_def)
  moreover have first: "take l (0xC4 # w) \<noteq> [x]" if "x \<noteq> 0xC4" "0 < l" for l and x :: u8 and w
    using that by (cases l) auto
  ultimately have "unmatched blank_tok ''  '' 0" "unmatched blank_tok ''  '' 1"
    using first by (auto simp: unmatched_def longest_match_None blank_tok_fields(1) simp del: take_Cons_numeral)
  then have "\<forall>k < length ''  ''. unmatched blank_tok ''  '' k" by (auto simp: less_Suc_eq)
  then show ?thesis
    using byte_fallback_uses_position[OF blank_tok_fields(2), of "''  ''"] two blank_tok_fields(5)
    by (simp add: numeral_2_eq_2)
qed

theorem decode_keeps_gpt2_form_witness:
  "\<exists>ids. encode_no_bos byte_tok ''a b'' = Ret ids \<and>
     as_bytes (decode byte_tok ids) = [97, 0xC4, 0xA0, 98]"
proof -
  obtain ids where ids: "encode_no_bos byte_tok ''a b'' = Ret ids" "\<forall>t\<in>set ids. plain_token byte_tok t"
    by (rule byte_encoding)
  then have "decode byte_tok ids = of_bytes (bytes_to_gpt2_unicode (as_bytes ''a b''))"
    using decode_keeps_gpt2_form[OF byte_tok_parts _ byte_tokens_valid byte_tokens_cover, of "''a b''"]
    by (auto simp: byte_tokens_length)
  then have "as_bytes (decode byte_tok ids) = bytes_to_gpt2_unicode (as_bytes ''a b'')" by simp
  also have "\<dots> = [97, 0xC4, 0xA0, 98]"
    by (simp add: as_bytes_def byte_of_char_def gpt2_char_streamable streamable_def)
  finally show ?thesis using ids(1) by blast
qed

end
