(* ===== verification/Logits.thy ===== *)
theory Logits imports Prelude Ieee_Float "HOL-Library.Multiset" begin

text \<open>
  \<^verbatim>\<open>src/src/logits.rs\<close>: the final RMS norm, the projection to the vocabulary, the repeat
  penalty, the sampler and its random generator, on binary32 values. What the standard
  library leaves open is a parameter: the exponential \<open>expf\<close>, whose last bits are the
  platform's, and the two unstable sorting routines, which may order equal elements either
  way and may panic when the comparison is not a total order.
\<close>

section \<open>Errors\<close>

datatype logit_error =
    ShapeMismatch nat nat | EmptyLogits | InvalidTemperature f32 | InvalidTopP f32

section \<open>RMS norm and projection\<close>

text \<open>\<^verbatim>\<open>Iterator::sum\<close> for floats starts at \<open>-0.0\<close>, so that a sum of negative zeros keeps its sign.\<close>

definition fsum :: "f32 list \<Rightarrow> f32" where
  "fsum xs = foldl (+) (Bits32 0x80000000) xs"

definition rms_norm_inplace :: "f32 list \<Rightarrow> f32 list \<Rightarrow> f32 \<Rightarrow> (f32 list, logit_error) outcome" where
  "rms_norm_inplace hidden weight eps =
     (let n = length hidden in
      if length weight \<noteq> n then Fail (ShapeMismatch n (length weight))
      else if n = 0 then Fail EmptyLogits
      else
        let mean_sq = fsum (map (\<lambda>x. x * x) hidden) div of_nat32 n;
            rms_inv = 1 div sqrt32 (mean_sq + eps)
        in Ret (map2 (\<lambda>h w. h * rms_inv * w) hidden weight))"

text \<open>\<^verbatim>\<open>chunks_exact\<close>: full chunks only, the remainder is dropped.\<close>

fun chunks_exact :: "nat \<Rightarrow> nat \<Rightarrow> 'a list \<Rightarrow> 'a list list" where
  "chunks_exact k 0 xs = []"
| "chunks_exact k (Suc n) xs = take k xs # chunks_exact k n (drop k xs)"

definition dot :: "f32 list \<Rightarrow> f32 list \<Rightarrow> f32" where
  "dot row hidden = fsum (map2 (*) row hidden)"

text \<open>The rows overwrite the front of the buffer; \<^verbatim>\<open>chunks_exact(0)\<close> panics.\<close>

definition project_into ::
    "f32 list \<Rightarrow> f32 list \<Rightarrow> nat \<Rightarrow> f32 list \<Rightarrow> (f32 list, logit_error) outcome" where
  "project_into hidden lm_head vocab_size out =
     (let hidden_size = length hidden in
      if length out \<noteq> vocab_size then Fail (ShapeMismatch vocab_size (length out))
      else if hidden_size = 0 then Panic
      else
        let rows = map (\<lambda>row. dot row hidden) (chunks_exact hidden_size (length lm_head div hidden_size) lm_head)
        in Ret (take (length out) rows @ drop (length rows) out))"

text \<open>The product of the sizes wraps in the release profile.\<close>

definition usize_mul :: "nat \<Rightarrow> nat \<Rightarrow> nat" where
  "usize_mul a b = a * b mod 2 ^ 64"

definition project_to_logits ::
    "f32 list \<Rightarrow> f32 list \<Rightarrow> nat \<Rightarrow> (f32 list, logit_error) outcome" where
  "project_to_logits hidden lm_head vocab_size =
     (let hidden_size = length hidden in
      if length lm_head \<noteq> usize_mul vocab_size hidden_size
      then Fail (ShapeMismatch (usize_mul vocab_size hidden_size) (length lm_head))
      else project_into hidden lm_head vocab_size (replicate vocab_size 0))"

section \<open>Configuration\<close>

record sampling_config =
  sc_temperature :: f32
  sc_top_p :: f32
  sc_top_k :: "nat option"
  sc_repeat_penalty :: f32

definition default_sampling :: sampling_config where
  "default_sampling =
     \<lparr>sc_temperature = lit32 7 10, sc_top_p = lit32 9 10, sc_top_k = Some 40,
      sc_repeat_penalty = lit32 11 10\<rparr>"

definition validate :: "sampling_config \<Rightarrow> (unit, logit_error) outcome" where
  "validate cfg =
     (if sc_temperature cfg \<le> 0 then Fail (InvalidTemperature (sc_temperature cfg))
      else if sc_top_p cfg \<le> 0 \<or> sc_top_p cfg > 1 then Fail (InvalidTopP (sc_top_p cfg))
      else Ret ())"

section \<open>Repeat penalty\<close>

definition penalise :: "f32 \<Rightarrow> f32 \<Rightarrow> f32" where
  "penalise penalty x = (if x > 0 then x div penalty else x * penalty)"

fun penalty_loop :: "f32 list \<Rightarrow> u32 list \<Rightarrow> f32 \<Rightarrow> f32 list" where
  "penalty_loop logits [] penalty = logits"
| "penalty_loop logits (t # ts) penalty =
     penalty_loop
       (if unat t < length logits then logits[unat t := penalise penalty (logits ! unat t)] else logits)
       ts penalty"

definition apply_repeat_penalty :: "f32 list \<Rightarrow> u32 list \<Rightarrow> f32 \<Rightarrow> f32 list" where
  "apply_repeat_penalty logits recent penalty =
     (if abs32 (penalty - 1) < lit32 1 1000000 then logits
      else penalty_loop logits recent penalty)"

section \<open>Random numbers\<close>

definition xorshift64 :: "u64 \<Rightarrow> u64" where
  "xorshift64 state =
     (let x = state XOR push_bit 13 state;
          x = x XOR drop_bit 7 x;
          x = x XOR push_bit 17 x
      in x)"

text \<open>The clock: whole seconds and nanoseconds since 1970, or nothing before it.\<close>

definition rng_seed_from_time :: "(u64 \<times> u32) option \<Rightarrow> u64" where
  "rng_seed_from_time clock =
     (let ns = (case clock of
                  Some (secs, nanos) \<Rightarrow> ucast nanos + secs * 1000000000
                | None \<Rightarrow> 0x517cc1b727220a95)
      in if ns = 0 then 0x517cc1b727220a95 else ns)"

section \<open>Sampling\<close>

type_synonym comparator = "nat \<Rightarrow> nat \<Rightarrow> ordering"

text \<open>The two sorting routines, with \<open>None\<close> for a panic.\<close>

record std_sort =
  select_nth_unstable_by :: "comparator \<Rightarrow> nat \<Rightarrow> nat list \<Rightarrow> nat list option"
  sort_unstable_by :: "comparator \<Rightarrow> nat list \<Rightarrow> nat list option"

definition desc_cmp :: "f32 list \<Rightarrow> comparator" where
  "desc_cmp logits a b = unwrap_or (partial_cmp32 (logits ! b) (logits ! a)) Equal"

definition option_outcome :: "'a option \<Rightarrow> ('a, 'e) outcome" where
  "option_outcome m = (case m of Some x \<Rightarrow> Ret x | None \<Rightarrow> Panic)"

text \<open>
  The \<open>k\<close> first indices in descending order: \<open>select_nth_unstable_by\<close> is called with
  \<open>k - 1\<close>, which wraps for \<open>k = 0\<close>, and panics on an index out of range.
\<close>

definition top_indices :: "std_sort \<Rightarrow> f32 list \<Rightarrow> nat option \<Rightarrow> (nat list, logit_error) outcome" where
  "top_indices std logits top_k =
     (let vocab = length logits; k = min (unwrap_or top_k vocab) vocab in
      if k = 0 then Panic
      else
      res_bind (option_outcome (select_nth_unstable_by std (desc_cmp logits) (k - 1) [0..<vocab])) (\<lambda>indices.
      option_outcome (sort_unstable_by std (desc_cmp logits) (take k indices))))"

text \<open>The nucleus: the position after the first prefix whose mass reaches \<open>top_p\<close>.\<close>

fun cutoff_scan :: "f32 \<Rightarrow> f32 list \<Rightarrow> nat \<Rightarrow> f32 \<Rightarrow> nat option" where
  "cutoff_scan top_p [] idx cum = None"
| "cutoff_scan top_p (p # ps) idx cum =
     (if cum + p \<ge> top_p then Some (idx + 1) else cutoff_scan top_p ps (Suc idx) (cum + p))"

fun draw_scan :: "f32 \<Rightarrow> (nat \<times> f32) list \<Rightarrow> f32 \<Rightarrow> nat option" where
  "draw_scan threshold [] cum = None"
| "draw_scan threshold ((idx, p) # ps) cum =
     (if threshold \<le> cum + p then Some idx else draw_scan threshold ps (cum + p))"

definition draw :: "(f32 \<Rightarrow> f32) \<Rightarrow> f32 list \<Rightarrow> f32 \<Rightarrow> nat list \<Rightarrow> u64 \<Rightarrow> nat" where
  "draw expf logits top_p indices r =
     (let max_l = logits ! (indices ! 0);
          exps = map (\<lambda>i. expf (logits ! i - max_l)) indices;
          total = fsum exps;
          exps = map (\<lambda>e. e div total) exps;
          cutoff = unwrap_or (cutoff_scan top_p exps 0 0) (length exps);
          exps = take cutoff exps;
          indices = take cutoff indices;
          nucleus_sum = fsum exps;
          exps = map (\<lambda>e. e div nucleus_sum) exps;
          threshold = of_nat32 (unat r) div of_nat32 (2 ^ 64 - 1)
      in unwrap_or (draw_scan threshold (zip indices exps) 0) (indices ! 0))"

text \<open>The logits after penalty and temperature, which the caller's buffer keeps.\<close>

definition scaled_logits :: "f32 list \<Rightarrow> sampling_config \<Rightarrow> u32 list \<Rightarrow> f32 list" where
  "scaled_logits logits cfg recent =
     (let inv_temp = 1 div sc_temperature cfg
      in map (\<lambda>l. l * inv_temp) (apply_repeat_penalty logits recent (sc_repeat_penalty cfg)))"

definition sample_token ::
    "(f32 \<Rightarrow> f32) \<Rightarrow> std_sort \<Rightarrow> f32 list \<Rightarrow> sampling_config \<Rightarrow> u32 list \<Rightarrow> u64 \<Rightarrow>
     (u32 \<times> u64, logit_error) outcome" where
  "sample_token expf std logits cfg recent rng =
     res_bind (validate cfg) (\<lambda>_.
     if logits = [] then Fail EmptyLogits
     else
     let logits = scaled_logits logits cfg recent in
     res_bind (top_indices std logits (sc_top_k cfg)) (\<lambda>indices.
     let r = xorshift64 rng in
     Ret (of_nat (draw expf logits (sc_top_p cfg) indices r), r)))"

end
