(* ===== verification/Logits_Facts.thy ===== *)
theory Logits_Facts imports Logits begin

text \<open>
  What the sampler promises. The contract of the standard library's unstable sorts is the
  locale \<open>unstable_sort\<close>, interpreted on a reference insertion sort; under it the sampled
  token is among the \<open>k\<close> best. Then the order facts of binary32 that the repeat penalty
  rests on, the algebra of the random generator, and the shape of the projection.
\<close>

section \<open>The contract of the unstable sorts\<close>

definition total_cmp :: "comparator \<Rightarrow> nat set \<Rightarrow> bool" where
  "total_cmp cmp A \<longleftrightarrow>
     (\<forall>a\<in>A. \<forall>b\<in>A. cmp a b = Greater \<longleftrightarrow> cmp b a = Less) \<and>
     (\<forall>a\<in>A. \<forall>b\<in>A. \<forall>c\<in>A. cmp a b \<noteq> Greater \<longrightarrow> cmp b c \<noteq> Greater \<longrightarrow> cmp a c \<noteq> Greater)"

lemma total_cmp_subset:
  assumes "total_cmp cmp A" and "B \<subseteq> A"
  shows "total_cmp cmp B"
  unfolding total_cmp_def
proof (intro conjI ballI impI)
  fix a b assume "a \<in> B" "b \<in> B"
  then have "a \<in> A" "b \<in> A" using assms(2) by auto
  then show "(cmp a b = Greater) = (cmp b a = Less)" using assms(1) unfolding total_cmp_def by simp
next
  fix a b c assume "a \<in> B" "b \<in> B" "c \<in> B" "cmp a b \<noteq> Greater" "cmp b c \<noteq> Greater"
  moreover from this have "a \<in> A" "b \<in> A" "c \<in> A" using assms(2) by auto
  ultimately show "cmp a c \<noteq> Greater" using assms(1) unfolding total_cmp_def by blast
qed

lemma total_cmp_swap: "total_cmp cmp A \<Longrightarrow> a \<in> A \<Longrightarrow> b \<in> A \<Longrightarrow> cmp a b = Greater \<Longrightarrow> cmp b a = Less"
  by (simp add: total_cmp_def)

text \<open>
  Documented behaviour: whatever the comparison, the elements stay the same; if it is a total
  order the routine returns, selection with everything before the chosen position not
  greater and everything after it not less, sorting with no descent.
\<close>

locale unstable_sort =
  fixes std :: std_sort
  assumes select_perm: "i < length xs \<Longrightarrow> select_nth_unstable_by std cmp i xs = Some ys \<Longrightarrow> mset ys = mset xs"
    and select_total: "i < length xs \<Longrightarrow> total_cmp cmp (set xs) \<Longrightarrow>
      \<exists>ys. select_nth_unstable_by std cmp i xs = Some ys \<and>
        (\<forall>a\<in>set (take i ys). cmp a (ys ! i) \<noteq> Greater) \<and> (\<forall>b\<in>set (drop (Suc i) ys). cmp (ys ! i) b \<noteq> Greater)"
    and sort_perm: "sort_unstable_by std cmp xs = Some ys \<Longrightarrow> mset ys = mset xs"
    and sort_total: "total_cmp cmp (set xs) \<Longrightarrow>
      \<exists>ys. sort_unstable_by std cmp xs = Some ys \<and> sorted_wrt (\<lambda>a b. cmp a b \<noteq> Greater) ys"
begin

lemma top_indices_members:
  assumes "top_indices std logits top_k = Ret is"
  shows "is \<noteq> []" and "set is \<subseteq> {..<length logits}" and "distinct is"
    and "length is = min (unwrap_or top_k (length logits)) (length logits)"
proof -
  let ?n = "length logits"
  define k where k_def: "k = min (unwrap_or top_k ?n) ?n"
  have kn: "k \<le> ?n" by (simp add: k_def)
  obtain sel where k: "k \<noteq> 0" and sel: "select_nth_unstable_by std (desc_cmp logits) (k - 1) [0..<?n] = Some sel"
    and srt: "sort_unstable_by std (desc_cmp logits) (take k sel) = Some is"
    using assms unfolding top_indices_def Let_def k_def[symmetric]
    by (auto simp: option_outcome_def split: if_splits option.splits)
  have ms: "mset sel = mset [0..<?n]" using k kn by (intro select_perm[OF _ sel]) simp
  then have sel': "set sel = {..<?n}" "distinct sel" "length sel = ?n"
    using mset_eq_setD[OF ms] mset_eq_imp_distinct_iff[OF ms] mset_eq_length[OF ms]
    by (simp_all add: atLeast0LessThan)
  have ms2: "mset is = mset (take k sel)" by (rule sort_perm[OF srt])
  from mset_eq_length[OF ms2] have len: "length is = k" using sel'(3) kn by simp
  then show "length is = min (unwrap_or top_k ?n) ?n" by (simp add: k_def)
  show "is \<noteq> []" using len k by (cases "is") simp_all
  show "set is \<subseteq> {..<?n}" using mset_eq_setD[OF ms2] sel'(1) set_take_subset by fastforce
  show "distinct is" using mset_eq_imp_distinct_iff[OF ms2] sel'(2) by simp
qed

text \<open>With a total order, no index outside the list is better than one inside.\<close>

lemma top_indices_best:
  assumes "total_cmp (desc_cmp logits) {..<length logits}"
    and "logits \<noteq> []" and "top_k \<noteq> Some 0"
  obtains "is" where "top_indices std logits top_k = Ret is"
    "sorted_wrt (\<lambda>a b. desc_cmp logits a b \<noteq> Greater) is"
    "\<And>a b. a \<in> set is \<Longrightarrow> b < length logits \<Longrightarrow> b \<notin> set is \<Longrightarrow> desc_cmp logits a b \<noteq> Greater"
proof -
  let ?n = "length logits" and ?c = "desc_cmp logits"
  define k where k_def: "k = min (unwrap_or top_k ?n) ?n"
  have k: "0 < k" "k \<le> ?n" using assms(2,3) by (auto simp: k_def unwrap_or_def split: option.split)
  have up: "set [0..<?n] = {..<?n}" by auto
  have "k - 1 < length [0..<?n]" using k by simp
  from select_total[OF this, of ?c] obtain sel where
    sel: "select_nth_unstable_by std ?c (k - 1) [0..<?n] = Some sel"
    and lo: "\<forall>a\<in>set (take (k - 1) sel). ?c a (sel ! (k - 1)) \<noteq> Greater"
    and hi: "\<forall>b\<in>set (drop (Suc (k - 1)) sel). ?c (sel ! (k - 1)) b \<noteq> Greater"
    using assms(1) unfolding up by auto
  have ms: "mset sel = mset [0..<?n]" using k by (intro select_perm[OF _ sel]) simp
  have sel': "set sel = {..<?n}" "length sel = ?n" using mset_eq_setD[OF ms] mset_eq_length[OF ms]
    by (simp_all add: atLeast0LessThan)
  have "set (take k sel) \<subseteq> {..<?n}" unfolding sel'(1)[symmetric] by (rule set_take_subset)
  then have "total_cmp ?c (set (take k sel))" using assms(1) unfolding total_cmp_def by blast
  from sort_total[OF this] obtain "is" where srt: "sort_unstable_by std ?c (take k sel) = Some is"
    and sorted: "sorted_wrt (\<lambda>a b. ?c a b \<noteq> Greater) is" by auto
  have isset: "set is = set (take k sel)" using mset_eq_setD[OF sort_perm[OF srt]] by simp
  have tk: "take k sel = take (k - 1) sel @ [sel ! (k - 1)]"
    using k sel'(2) by (subst take_Suc_conv_app_nth[symmetric]) simp_all
  have "?c a b \<noteq> Greater" if a: "a \<in> set is" and b: "b < ?n" "b \<notin> set is" for a b
  proof -
    let ?p = "sel ! (k - 1)"
    have ps: "?p \<in> {..<?n}" using k sel' by (metis Suc_pred' lessI min.cobounded2 nth_mem order_less_le_trans)
    have refl: "?c ?p ?p \<noteq> Greater" using assms(1) ps unfolding total_cmp_def by (metis ordering.distinct(3))
    have ap: "?c a ?p \<noteq> Greater" using a lo refl by (auto simp: isset tk)
    have "set sel = set (take k sel) \<union> set (drop k sel)" by (metis append_take_drop_id set_append)
    then have "b \<in> set (drop k sel)" using b sel'(1) by (auto simp: isset)
    then have "?c ?p b \<noteq> Greater" using hi k by simp
    moreover have "a \<in> {..<?n}" using a sel'(1) by (auto simp: isset dest: in_set_takeD)
    ultimately show ?thesis using ap assms(1) ps b(1) unfolding total_cmp_def by (metis lessThan_iff)
  qed
  moreover have "top_indices std logits top_k = Ret is"
    using k sel srt unfolding top_indices_def Let_def k_def[symmetric] by (simp add: option_outcome_def)
  ultimately show thesis using that sorted by blast
qed

end

section \<open>Reference routines\<close>

fun insert_cmp :: "comparator \<Rightarrow> nat \<Rightarrow> nat list \<Rightarrow> nat list" where
  "insert_cmp cmp x [] = [x]"
| "insert_cmp cmp x (y # ys) = (if cmp x y \<noteq> Greater then x # y # ys else y # insert_cmp cmp x ys)"

definition sort_cmp :: "comparator \<Rightarrow> nat list \<Rightarrow> nat list" where
  "sort_cmp cmp xs = foldr (insert_cmp cmp) xs []"

definition insertion_std :: std_sort where
  "insertion_std =
     \<lparr>select_nth_unstable_by = (\<lambda>cmp i xs. if i < length xs then Some (sort_cmp cmp xs) else None),
      sort_unstable_by = (\<lambda>cmp xs. Some (sort_cmp cmp xs))\<rparr>"

lemma mset_insert_cmp: "mset (insert_cmp cmp x ys) = add_mset x (mset ys)"
  by (induction ys) auto

lemma mset_sort_cmp: "mset (sort_cmp cmp xs) = mset xs"
  by (induction xs) (simp_all add: sort_cmp_def mset_insert_cmp)

lemma set_insert_cmp: "set (insert_cmp cmp x ys) = insert x (set ys)"
  by (induction ys) auto

lemma sorted_insert_cmp:
  "total_cmp cmp (insert x (set ys)) \<Longrightarrow> sorted_wrt (\<lambda>a b. cmp a b \<noteq> Greater) ys \<Longrightarrow>
     sorted_wrt (\<lambda>a b. cmp a b \<noteq> Greater) (insert_cmp cmp x ys)"
proof (induction ys)
  case (Cons y ys)
  have ih: "total_cmp cmp (insert x (set ys))" by (rule total_cmp_subset[OF Cons.prems(1)]) auto
  show ?case
  proof (cases "cmp x y = Greater")
    case True
    then have "cmp y x \<noteq> Greater"
      using total_cmp_swap[OF Cons.prems(1), of x y] by simp
    then show ?thesis using True Cons.IH[OF ih] Cons.prems(2) by (simp add: set_insert_cmp)
  next
    case False
    have "cmp x z \<noteq> Greater" if "z \<in> set ys" for z
    proof -
      have "cmp y z \<noteq> Greater" using Cons.prems(2) that by simp
      then show ?thesis using Cons.prems(1) False that unfolding total_cmp_def by (meson insert_iff list.set_intros)
    qed
    then show ?thesis using False Cons.prems(2) by simp
  qed
qed simp

lemma sorted_sort_cmp: "total_cmp cmp (set xs) \<Longrightarrow> sorted_wrt (\<lambda>a b. cmp a b \<noteq> Greater) (sort_cmp cmp xs)"
proof (induction xs)
  case (Cons x xs)
  have "set (sort_cmp cmp xs) = set xs" using mset_sort_cmp mset_eq_setD by blast
  moreover have "total_cmp cmp (set xs)" by (rule total_cmp_subset[OF Cons.prems]) auto
  ultimately show ?case using Cons sorted_insert_cmp[of cmp x "sort_cmp cmp xs"] by (simp add: sort_cmp_def)
qed (simp add: sort_cmp_def)

interpretation insertion: unstable_sort insertion_std
proof
  fix i :: nat and xs ys :: "nat list" and cmp
  assume i: "i < length xs" and t: "total_cmp cmp (set xs)"
  let ?s = "sort_cmp cmp xs"
  have len: "length ?s = length xs" using mset_sort_cmp mset_eq_length by blast
  have "sorted_wrt (\<lambda>a b. cmp a b \<noteq> Greater) (take i ?s @ ?s ! i # drop (Suc i) ?s)"
    using sorted_sort_cmp[OF t] i len by (simp add: id_take_nth_drop[symmetric])
  then show "\<exists>ys. select_nth_unstable_by insertion_std cmp i xs = Some ys \<and>
      (\<forall>a\<in>set (take i ys). cmp a (ys ! i) \<noteq> Greater) \<and> (\<forall>b\<in>set (drop (Suc i) ys). cmp (ys ! i) b \<noteq> Greater)"
    using i by (simp add: insertion_std_def sorted_wrt_append)
qed (auto simp: insertion_std_def mset_sort_cmp sorted_sort_cmp split: if_splits)

section \<open>The sampler\<close>

lemma draw_scan_member: "draw_scan th ps c = Some i \<Longrightarrow> i \<in> fst ` set ps"
  by (induction th ps c rule: draw_scan.induct) (auto split: if_splits)

lemma cutoff_scan_pos: "cutoff_scan p ps i c = Some k \<Longrightarrow> 0 < k"
  by (induction p ps i c rule: cutoff_scan.induct) (auto split: if_splits)

lemma draw_member:
  assumes "is \<noteq> []"
  shows "draw expf logits top_p is r \<in> set is"
proof -
  define exps where "exps = map (\<lambda>e. e div fsum (map (\<lambda>i. expf (logits ! i - logits ! (is ! 0))) is))
    (map (\<lambda>i. expf (logits ! i - logits ! (is ! 0))) is)"
  define k where "k = unwrap_or (cutoff_scan top_p exps 0 0) (length exps)"
  have k: "0 < k" using assms cutoff_scan_pos by (auto simp: k_def unwrap_or_def exps_def split: option.split)
  have d: "draw expf logits top_p is r =
      unwrap_or (draw_scan (of_nat32 (unat r) div of_nat32 (2 ^ 64 - 1))
        (zip (take k is) (map (\<lambda>e. e div fsum (take k exps)) (take k exps))) 0) (take k is ! 0)"
    unfolding draw_def Let_def k_def exps_def by (rule refl)
  have "take k is ! 0 \<in> set is" using k assms by simp
  moreover have "i \<in> set is" if "draw_scan th (zip (take k is) ps) c = Some i" for th ps c i
    using draw_scan_member[OF that] by (auto dest!: set_zip_leftD intro: in_set_takeD)
  ultimately show ?thesis unfolding d by (auto simp: unwrap_or_def split: option.split)
qed

lemma length_penalty_loop [simp]: "length (penalty_loop logits ts p) = length logits"
  by (induction logits ts p rule: penalty_loop.induct) simp_all

lemma length_scaled [simp]: "length (scaled_logits logits cfg recent) = length logits"
  by (simp add: scaled_logits_def apply_repeat_penalty_def Let_def)

lemma desc_cmp_total:
  assumes "\<forall>x\<in>set logits. \<not> is_nan32 x"
  shows "total_cmp (desc_cmp logits) {..<length logits}"
  using assms by (auto simp: total_cmp_def desc_cmp_def partial_cmp32_def unwrap_or_def split: if_splits)

lemma desc_cmp_Greater:
  "desc_cmp logits a b = Greater \<longleftrightarrow> logits ! b > logits ! a"
  by (auto simp: desc_cmp_def partial_cmp32_def unwrap_or_def less_f32_def)

text \<open>A sampled index has fewer than \<open>k\<close> better ones.\<close>

lemma rank_of_top:
  assumes "length is \<le> k" and "a \<in> set is" and "set is \<subseteq> {..<length logits}"
    and "\<And>b. b < length logits \<Longrightarrow> b \<notin> set is \<Longrightarrow> desc_cmp logits a b \<noteq> Greater"
  shows "card {j. j < length logits \<and> logits ! a < logits ! j} < k"
proof -
  let ?B = "{j. j < length logits \<and> logits ! a < logits ! j}"
  have "?B \<subseteq> set is - {a}"
  proof
    fix j assume j: "j \<in> ?B"
    have "j \<in> set is" using assms(4)[of j] j desc_cmp_Greater by auto
    moreover have "j \<noteq> a" using j by (auto simp: less_f32_def)
    ultimately show "j \<in> set is - {a}" by simp
  qed
  then have "card ?B \<le> card (set is - {a})" by (intro card_mono) simp_all
  also have "\<dots> < card (set is)" using assms(2) by (intro psubset_card_mono) auto
  also have "\<dots> \<le> k" using assms(1) card_length le_trans by blast
  finally show ?thesis .
qed

section \<open>Products and quotients by a factor of at least one\<close>

lemma bit_top32: "bit (w :: u32) 31 \<longleftrightarrow> 2 ^ 31 \<le> unat w"
proof -
  have "bit w 31 = bit (unat w) 31" by (simp add: bit_unsigned_iff)
  then have "bit w 31 = odd (unat w div 2 ^ 31)" by (simp only: bit_iff_odd)
  moreover have "unat w < 2 ^ 32" using unsigned_less[where w = w and ?'a = nat] by simp
  moreover have "unat w div 2 ^ 31 = (if 2 ^ 31 \<le> unat w then 1 else 0)"
    using calculation(2) by (auto intro!: div_nat_eqI)
  ultimately show ?thesis by simp
qed

lemma num32_mk32:
  assumes "snd x < 2 ^ 31"
  shows "num32 (mk32 x) = x"
proof -
  have "unat (bits32 (mk32 x)) = (if fst x then 2 ^ 31 else 0) + snd x"
    using assms unfolding mk32_def f32.sel unat_of_nat by (simp add: take_bit_nat_eq_self)
  then show ?thesis using assms by (cases x) (simp add: num32_def bit_top32)
qed

lemma inf_mag32: "inf_mag 23 8 = 2139095040"
  by (simp add: inf_mag_def)

lemma round_small32: "round_mag 23 8 n d < 2 ^ 31"
  using round_mag_le_inf[of 23 8 n d] by (simp add: inf_mag32)

lemma not_nan32: "\<not> is_nan32 x \<longleftrightarrow> snd (num32 x) \<le> inf_mag 23 8"
  by (auto simp: is_nan32_def fnum_is_nan_def)

text \<open>A finite factor of at least one, as its magnitude in units.\<close>

lemma at_least_one:
  assumes "1 \<le> p" and "is_finite32 p"
  shows "\<not> fst (num32 p)" "snd (num32 p) < inf_mag 23 8" "2 ^ unit_exp 23 8 \<le> unit_val 23 (snd (num32 p))"
    "snd (num32 p) \<noteq> 0"
proof -
  have one: "num32 1 = (False, 1065353216)" by (simp add: one_f32_def num32_def bit_top32)
  have k: "1065353216 \<le> fnum_key (num32 p)"
    using assms(1) by (simp add: less_eq_f32_def key32_def one fnum_key_def)
  then show pos: "\<not> fst (num32 p)" by (auto simp: fnum_key_def split: if_splits)
  show "snd (num32 p) < inf_mag 23 8" using assms(2) by (simp add: is_finite32_def)
  have m: "1065353216 \<le> snd (num32 p)" using k pos by (simp add: fnum_key_def)
  then show "snd (num32 p) \<noteq> 0" by simp
  have "unit_val 23 1065353216 = 2 ^ unit_exp 23 8" by (simp add: unit_val_def unit_exp_def)
  moreover have "unit_val 23 1065353216 \<le> unit_val 23 (snd (num32 p))"
    using m unit_val_mono_strict[of 1065353216 "snd (num32 p)" 23] by (cases "snd (num32 p) = 1065353216") auto
  ultimately show "2 ^ unit_exp 23 8 \<le> unit_val 23 (snd (num32 p))" by simp
qed

lemma div_at_least_one:
  assumes "x > 0" and "1 \<le> p" and "is_finite32 p"
  shows "\<not> is_nan32 (x div p)" "x div p \<le> x"
proof -
  let ?m = "snd (num32 x)" and ?u = "unit_val 23 (snd (num32 p))"
  note p = at_least_one[OF assms(2,3)]
  have zero: "num32 0 = (False, 0)" by (simp add: zero_f32_def num32_def)
  have x: "?m \<le> inf_mag 23 8" "\<not> fst (num32 x)"
    using assms(1) by (auto simp: less_f32_def not_nan32 zero key32_def fnum_key_def split: if_splits)
  have upos: "0 < ?u" using p(3) by (rule order_less_le_trans[rotated]) simp
  define q where "q = (if ?m = inf_mag 23 8 then inf_mag 23 8
    else round_mag 23 8 (unit_val 23 ?m * 2 ^ unit_exp 23 8) ?u)"
  have num: "fnum_div 23 8 (num32 x) (num32 p) = (False, q)"
    using x p(1,2,4) by (simp add: fnum_div_def fnum_is_nan_def fnum_is_inf_def q_def)
  have "round_mag 23 8 (unit_val 23 ?m * 2 ^ unit_exp 23 8) ?u \<le> round_mag 23 8 (unit_val 23 ?m * ?u) ?u"
    using p(3) upos by (intro round_mag_mono) simp_all
  also have "\<dots> = ?m" by (rule round_mag_exact[OF x(1) upos])
  finally have q: "q \<le> ?m" using x(1) by (simp add: q_def)
  then have nq: "num32 (x div p) = (False, q)"
    using num x(1) num32_mk32[of "(False, q)"] by (simp add: divide_f32_def inf_mag32)
  show nn: "\<not> is_nan32 (x div p)" using q x(1) by (simp add: not_nan32 nq)
  show "x div p \<le> x" using nn x q by (simp add: less_eq_f32_def key32_def nq fnum_key_def not_nan32)
qed

lemma mul_at_least_one:
  assumes "\<not> x > 0" and "\<not> is_nan32 x" and "1 \<le> p" and "is_finite32 p"
  shows "\<not> is_nan32 (x * p)" "x * p \<le> x"
proof -
  let ?m = "snd (num32 x)" and ?u = "unit_val 23 (snd (num32 p))"
  note p = at_least_one[OF assms(3,4)]
  have zero: "num32 0 = (False, 0)" by (simp add: zero_f32_def num32_def)
  have x: "?m \<le> inf_mag 23 8" "fst (num32 x) \<or> ?m = 0"
    using assms(1,2) by (auto simp: less_f32_def not_nan32 zero key32_def fnum_key_def split: if_splits)
  define q where "q = (if ?m = inf_mag 23 8 then inf_mag 23 8
    else round_mag 23 8 (unit_val 23 ?m * ?u) (2 ^ unit_exp 23 8))"
  have num: "fnum_mul 23 8 (num32 x) (num32 p) = (fst (num32 x), q)"
    using x p(1,2,4) by (auto simp: fnum_mul_def fnum_is_nan_def fnum_is_inf_def q_def inf_mag32)
  have "?m = round_mag 23 8 (unit_val 23 ?m * 2 ^ unit_exp 23 8) (2 ^ unit_exp 23 8)"
    by (rule round_mag_exact[OF x(1), symmetric]) simp
  also have "\<dots> \<le> round_mag 23 8 (unit_val 23 ?m * ?u) (2 ^ unit_exp 23 8)"
    using p(3) by (intro round_mag_mono) simp_all
  finally have q: "?m \<le> q" "q \<le> inf_mag 23 8" using x(1) round_mag_le_inf by (auto simp: q_def)
  have q0: "?m = 0 \<Longrightarrow> q = 0"
    using round_mag_exact[of 0 23 8 1] by (simp add: q_def inf_mag32 unit_val_def round_mag_def round_shift_def rne_def)
  have nq: "num32 (x * p) = (fst (num32 x), q)"
    using num q(2) num32_mk32[of "(fst (num32 x), q)"] by (simp add: times_f32_def inf_mag32)
  show nn: "\<not> is_nan32 (x * p)" using q(2) by (simp add: not_nan32 nq)
  show "x * p \<le> x" using nn x q q0 assms(2) by (auto simp: less_eq_f32_def key32_def nq fnum_key_def)
qed

lemma le_trans32: "(x :: f32) \<le> y \<Longrightarrow> y \<le> z \<Longrightarrow> x \<le> z"
  by (auto simp: less_eq_f32_def)

lemma le_refl32: "\<not> is_nan32 x \<Longrightarrow> x \<le> x"
  by (simp add: less_eq_f32_def)

lemma penalise_lowers:
  assumes "\<not> is_nan32 x" and "1 \<le> p" and "is_finite32 p"
  shows "\<not> is_nan32 (penalise p x)" "penalise p x \<le> x"
  using div_at_least_one[of x p] mul_at_least_one[of x p] assms by (auto simp: penalise_def)

lemma penalise_iter_lowers:
  assumes "\<not> is_nan32 x" and "1 \<le> p" and "is_finite32 p"
  shows "\<not> is_nan32 ((penalise p ^^ n) x) \<and> (penalise p ^^ n) x \<le> x"
proof (induction n)
  case 0
  show ?case using assms(1) by (simp add: le_refl32)
next
  case (Suc n)
  then show ?case using penalise_lowers[OF _ assms(2,3), of "(penalise p ^^ n) x"] le_trans32 by auto
qed

text \<open>The loop applies the penalty once per occurrence.\<close>

lemma penalty_loop_nth:
  "i < length logits \<Longrightarrow>
     penalty_loop logits ts p ! i = (penalise p ^^ length (filter (\<lambda>t. unat t = i) ts)) (logits ! i)"
proof (induction logits ts p rule: penalty_loop.induct)
  case (2 logits t ts p)
  show ?case
  proof (cases "unat t = i")
    case True
    then show ?thesis using 2 by (simp add: funpow_swap1)
  next
    case False
    then show ?thesis using 2 by simp
  qed
qed simp

section \<open>Scaling keeps NaN out\<close>

lemma fnum_mul_small: "snd (fnum_mul 23 8 x y) < 2 ^ 31"
  using round_small32 by (auto simp: fnum_mul_def fnum_nan_def inf_mag32)

lemma fnum_mul_number:
  assumes "\<not> fnum_is_nan 23 8 x" "\<not> fnum_is_nan 23 8 y" "\<not> fnum_is_inf 23 8 y" "snd y \<noteq> 0"
  shows "\<not> fnum_is_nan 23 8 (fnum_mul 23 8 x y)"
  using assms round_mag_le_inf[of 23 8] by (auto simp: fnum_mul_def fnum_is_nan_def fnum_is_inf_def not_less)

lemma mul_no_nan:
  assumes "\<not> is_nan32 x" "is_finite32 y" "0 < y"
  shows "\<not> is_nan32 (x * y)"
proof -
  have y: "\<not> fnum_is_nan 23 8 (num32 y)" "\<not> fnum_is_inf 23 8 (num32 y)" "snd (num32 y) \<noteq> 0"
    using assms(2,3) by (auto simp: is_finite32_def fnum_is_nan_def fnum_is_inf_def less_f32_def key32_def fnum_key_def
        zero_f32_def num32_def split: if_splits)
  have "num32 (x * y) = fnum_mul 23 8 (num32 x) (num32 y)"
    by (simp add: times_f32_def num32_mk32[OF fnum_mul_small])
  then show ?thesis using fnum_mul_number[OF _ y] assms(1) by (simp add: is_nan32_def)
qed

text \<open>
  Settings that turn no number into NaN: a finite penalty of at least 1, and a temperature whose
  reciprocal is positive and finite. Validation alone lets a NaN temperature through, and a
  temperature so small that the reciprocal is infinite.
\<close>

definition scaling_safe :: "sampling_config \<Rightarrow> bool" where
  "scaling_safe cfg \<longleftrightarrow> 1 \<le> sc_repeat_penalty cfg \<and> is_finite32 (sc_repeat_penalty cfg) \<and>
     is_finite32 (1 div sc_temperature cfg) \<and> 0 < 1 div sc_temperature cfg"

lemma scaled_no_nan:
  assumes "scaling_safe cfg" "\<forall>x\<in>set logits. \<not> is_nan32 x"
  shows "\<forall>x\<in>set (scaled_logits logits cfg recent). \<not> is_nan32 x"
proof -
  let ?p = "sc_repeat_penalty cfg" and ?l = "apply_repeat_penalty logits recent (sc_repeat_penalty cfg)"
  have p: "1 \<le> ?p" "is_finite32 ?p" using assms(1) by (simp_all add: scaling_safe_def)
  have "\<not> is_nan32 (?l ! i)" if i: "i < length logits" for i
    using penalise_iter_lowers[OF _ p, of "logits ! i"] assms(2) i
    by (simp add: apply_repeat_penalty_def penalty_loop_nth)
  then have "\<forall>x\<in>set ?l. \<not> is_nan32 x"
    by (auto simp: in_set_conv_nth apply_repeat_penalty_def)
  then show ?thesis
    using assms(1) by (auto simp: scaled_logits_def Let_def scaling_safe_def mul_no_nan)
qed

section \<open>A dominant logit\<close>

lemma unit_sums: "Bits32 0x80000000 + 1 = (1 :: f32)" "(0::f32) + 1 = 1" "(1::f32) + 0 = 1" "(1::f32) div 1 = 1" "(0::f32) div 1 = 0"
  by (simp_all add: float_eval)

lemma fsum_one: "fsum (1 # replicate n 0) = (1 :: f32)"
proof -
  have "foldl (+) 1 (replicate n 0) = (1 :: f32)" by (induction n) (simp_all add: unit_sums)
  then show ?thesis by (simp add: fsum_def unit_sums)
qed

lemma draw_scan_unit:
  "unwrap_or (draw_scan th (zip (m # xs) (1 # replicate n 0)) 0) m = m"
proof -
  have "draw_scan th (zip ys (replicate k 0)) 1 = None" if "\<not> th \<le> 1" for ys k
  proof (induction ys arbitrary: k)
    case (Cons y ys)
    then show ?case using that by (cases k) (simp_all add: unit_sums)
  qed simp
  then show ?thesis by (simp add: unit_sums unwrap_or_def)
qed

text \<open>
  One index has the greatest logit and the others' exponentials underflow: it comes first, takes
  the whole mass, and is drawn whatever the random word.
\<close>

lemma draw_dominant:
  assumes std: "unstable_sort std" and num: "\<forall>x\<in>set l. \<not> is_nan32 x"
    and k: "top_k \<noteq> Some 0" and m: "m < length l"
    and dom: "\<forall>j < length l. j \<noteq> m \<longrightarrow> l ! j < l ! m \<and> expf (l ! j - l ! m) = 0"
    and one: "expf (l ! m - l ! m) = 1"
  obtains "is" where "top_indices std l top_k = Ret is" "draw expf l top_p is r = m"
proof -
  have ne: "l \<noteq> []" using m by auto
  obtain "is" where top: "top_indices std l top_k = Ret is"
    and srt: "sorted_wrt (\<lambda>a b. desc_cmp l a b \<noteq> Greater) is"
    and best: "\<And>a b. a \<in> set is \<Longrightarrow> b < length l \<Longrightarrow> b \<notin> set is \<Longrightarrow> desc_cmp l a b \<noteq> Greater"
    using unstable_sort.top_indices_best[OF std desc_cmp_total[OF num] ne k] by metis
  note mem = unstable_sort.top_indices_members[OF std top]
  obtain a rest where is_def: "is = a # rest" using mem(1) by (cases "is") auto
  have a: "a = m"
  proof (rule ccontr)
    assume n: "a \<noteq> m"
    have "desc_cmp l a m \<noteq> Greater"
      using srt best[of a m] m n is_def by (cases "m \<in> set is") auto
    moreover have "l ! a < l ! m" using dom n mem(2) is_def by auto
    ultimately show False by (simp add: desc_cmp_Greater)
  qed
  have "expf (l ! j - l ! m) = 0" if "j \<in> set rest" for j
    using dom that mem(2,3) unfolding is_def a by auto
  then have "map (\<lambda>i. expf (l ! i - l ! m)) rest = replicate (length rest) 0"
    by (simp add: list_eq_iff_nth_eq)
  then have exps: "map (\<lambda>i. expf (l ! i - l ! (is ! 0))) is = 1 # replicate (length rest) 0"
    using one unfolding is_def a by simp
  define c where "c = unwrap_or (cutoff_scan top_p (1 # replicate (length rest) 0) 0 0) (Suc (length rest))"
  have "0 < c" using cutoff_scan_pos by (auto simp: c_def unwrap_or_def split: option.split)
  then obtain d where d: "c = Suc d" by (cases c) auto
  have "draw expf l top_p is r = unwrap_or (draw_scan (of_nat32 (unat r) div of_nat32 (2 ^ 64 - 1))
      (zip (m # take d rest) (1 # replicate (min d (length rest)) 0)) 0) m"
    unfolding draw_def Let_def exps fsum_one list.map map_replicate length_Cons length_replicate unit_sums
      c_def[symmetric] d
    by (simp add: is_def a unit_sums fsum_one min.commute)
  then have "draw expf l top_p is r = m" by (simp only: draw_scan_unit)
  with top show thesis by (rule that)
qed

section \<open>The random generator\<close>

text \<open>A word that equals its own shift by a positive amount is zero.\<close>

lemma push_bit_fixed: "push_bit k w = w \<Longrightarrow> 0 < k \<Longrightarrow> w = (0 :: u64)"
proof (rule bit_word_eqI)
  fix n assume fixed: "push_bit k w = w" and k: "0 < k" and "n < LENGTH(64)"
  have "\<not> bit w n" for n
  proof (induction n rule: less_induct)
    case (less n)
    show ?case
    proof
      assume b: "bit w n"
      then have "bit (push_bit k w) n" using fixed by simp
      then have "k \<le> n" "bit w (n - k)" by (simp_all add: bit_push_bit_iff)
      then show False using less[of "n - k"] k by simp
    qed
  qed
  then show "bit w n = bit 0 n" by simp
qed

lemma drop_bit_fixed: "drop_bit k w = w \<Longrightarrow> 0 < k \<Longrightarrow> w = (0 :: u64)"
proof (rule bit_word_eqI)
  fix n assume fixed: "drop_bit k w = w" and k: "0 < k" and "n < LENGTH(64)"
  have "\<not> bit w n" for n
  proof (induction "64 - n" arbitrary: n rule: less_induct)
    case less
    show ?case
    proof
      assume b: "bit w n"
      then have "n < 64" using bit_imp_le_length[of w n] by simp
      moreover have "bit (drop_bit k w) n" using b fixed by simp
      then have "bit w (k + n)" by (simp add: bit_drop_bit_eq)
      ultimately show False using less[of "k + n"] k by simp
    qed
  qed
  then show "bit w n = bit 0 n" by simp
qed

lemma xor_eq_cancel: "(a XOR b = c XOR d) \<longleftrightarrow> (a XOR c = b XOR (d :: u64))"
  by (metis (no_types) xor.assoc xor.commute xor.left_neutral xor_self_eq)

lemma xor_zero: "x XOR y = 0 \<Longrightarrow> x = (y :: u64)"
proof -
  assume z: "x XOR y = 0"
  have "x = (x XOR y) XOR y" by (simp add: xor.assoc)
  then show "x = y" unfolding z by simp
qed

lemma inj_xor_push: "0 < k \<Longrightarrow> x XOR push_bit k x = y XOR push_bit k y \<Longrightarrow> x = (y :: u64)"
proof -
  assume k: "0 < k" and eq: "x XOR push_bit k x = y XOR push_bit k y"
  have "x XOR y = push_bit k x XOR push_bit k y" by (rule iffD1[OF xor_eq_cancel eq])
  also have "\<dots> = push_bit k (x XOR y)" by (simp only: push_bit_xor)
  finally have "x XOR y = push_bit k (x XOR y)" .
  from push_bit_fixed[OF this[symmetric] k] have "x XOR y = 0" .
  then show "x = y" by (rule xor_zero)
qed

lemma inj_xor_drop: "0 < k \<Longrightarrow> x XOR drop_bit k x = y XOR drop_bit k y \<Longrightarrow> x = (y :: u64)"
proof -
  assume k: "0 < k" and eq: "x XOR drop_bit k x = y XOR drop_bit k y"
  have "x XOR y = drop_bit k x XOR drop_bit k y" by (rule iffD1[OF xor_eq_cancel eq])
  also have "\<dots> = drop_bit k (x XOR y)" by (simp only: drop_bit_xor)
  finally have "x XOR y = drop_bit k (x XOR y)" .
  from drop_bit_fixed[OF this[symmetric] k] have "x XOR y = 0" .
  then show "x = y" by (rule xor_zero)
qed

lemma inj_xorshift64: "xorshift64 x = xorshift64 y \<Longrightarrow> x = y"
  unfolding xorshift64_def Let_def
  by (drule inj_xor_push[rotated], simp, drule inj_xor_drop[rotated], simp, drule inj_xor_push[rotated]) simp_all

lemma xorshift64_0: "xorshift64 0 = 0"
  by (simp add: xorshift64_def)

end
