(* ===== verification/Logits_Properties.thy ===== *)
theory Logits_Properties imports Logits_Facts begin

text \<open>
  The properties of the sampler, the repeat penalty, the projection and the random
  generator, with their witnesses. The exponential stays a free parameter of every
  statement; the sorting routines are any that keep their documented contract.
\<close>

section \<open>Properties\<close>

text \<open>
  C11: for a configuration that passes validation with \<open>top_k\<close> not 0, and at least one and at
  most \<open>2 ^ 32\<close> logits none of which is NaN after the repeat penalty and the temperature have
  been applied, the sampler returns a token: it is an index of the vocabulary, fewer than
  \<open>k\<close> entries have a greater logit after penalty and temperature (so \<open>top_k = 1\<close> is greedy
  decoding), whatever the exponential, and the generator made exactly one step. Scaled logits
  are free of NaN when the raw ones are and \<open>scaling_safe\<close> holds of the configuration
  (\<open>scaled_no_nan\<close>); validation alone does not give that, since it accepts a NaN temperature,
  and a temperature so small that its reciprocal is infinite makes a zero logit NaN.
\<close>

theorem sample_token_top_k:
  assumes "unstable_sort std" and "validate cfg = Ret ()" and "logits \<noteq> []"
    and "length logits \<le> 2 ^ 32" and "sc_top_k cfg \<noteq> Some 0"
    and "\<forall>x\<in>set (scaled_logits logits cfg recent). \<not> is_nan32 x"
  shows "\<exists>t. sample_token expf std logits cfg recent rng = Ret (t, xorshift64 rng) \<and>
    unat t < length logits \<and>
    card {j. j < length logits \<and>
      scaled_logits logits cfg recent ! unat t < scaled_logits logits cfg recent ! j}
    < unwrap_or (sc_top_k cfg) (length logits)"
proof -
  let ?l = "scaled_logits logits cfg recent" and ?n = "length logits"
  have ne: "?l \<noteq> []" using assms(3) length_scaled[of logits cfg recent] by (metis length_0_conv)
  from unstable_sort.top_indices_best[OF assms(1) desc_cmp_total[OF assms(6)] ne assms(5)] obtain "is"
    where top: "top_indices std ?l (sc_top_k cfg) = Ret is"
    and best: "\<And>a b. a \<in> set is \<Longrightarrow> b < length ?l \<Longrightarrow> b \<notin> set is \<Longrightarrow> desc_cmp ?l a b \<noteq> Greater"
    by metis
  note mem = unstable_sort.top_indices_members[OF assms(1) top]
  let ?i = "draw expf ?l (sc_top_p cfg) is (xorshift64 rng)"
  have i: "?i \<in> set is" by (rule draw_member[OF mem(1)])
  then have lt: "?i < ?n" using mem(2) by auto
  then have u: "unat (of_nat ?i :: u32) = ?i" using assms(4) by (simp add: unat_of_nat take_bit_nat_eq_self)
  have "sample_token expf std logits cfg recent rng = Ret (of_nat ?i, xorshift64 rng)"
    using assms(2,3) top by (simp add: sample_token_def Let_def)
  moreover have "card {j. j < length ?l \<and> ?l ! ?i < ?l ! j} < unwrap_or (sc_top_k cfg) ?n"
    using mem(4) i mem(2) best by (intro rank_of_top[of "is"]) simp_all
  ultimately show ?thesis using lt u by auto
qed

text \<open>
  C30: whatever the logits (NaN included), a token the sampler returns is an index of the
  vocabulary.
\<close>

theorem sample_token_in_range:
  assumes "unstable_sort std" and "sample_token expf std logits cfg recent rng = Ret (t, s)"
    and "length logits \<le> 2 ^ 32"
  shows "unat t < length logits"
proof -
  let ?l = "scaled_logits logits cfg recent"
  obtain "is" where top: "top_indices std ?l (sc_top_k cfg) = Ret is"
    and t: "t = of_nat (draw expf ?l (sc_top_p cfg) is (xorshift64 rng))"
    using assms(2) by (auto simp: sample_token_def Let_def split: if_splits)
  note mem = unstable_sort.top_indices_members[OF assms(1) top]
  have "draw expf ?l (sc_top_p cfg) is (xorshift64 rng) < length logits"
    using subsetD[OF mem(2) draw_member[OF mem(1)]] by simp
  then show ?thesis using assms(3) by (simp add: t unat_of_nat take_bit_nat_eq_self)
qed

text \<open>
  C39: sampling is greedy in the limit. When one logit is, after penalty and temperature, so far
  above all others that the exponential of every difference underflows to 0, the sampler
  returns its index: for every random state, every choice of \<open>top_k\<close> other than 0 and of
  \<open>top_p\<close> that passes validation, every exponential that is 1 at the difference of that
  logit with itself, and every pair of sorting routines that keep their contract.
\<close>

theorem sample_token_dominant:
  assumes "unstable_sort std" and "validate cfg = Ret ()" and "length logits \<le> 2 ^ 32" and "sc_top_k cfg \<noteq> Some 0"
    and "m < length logits" and "\<forall>x\<in>set (scaled_logits logits cfg recent). \<not> is_nan32 x"
    and "\<forall>j < length logits. j \<noteq> m \<longrightarrow> scaled_logits logits cfg recent ! j < scaled_logits logits cfg recent ! m \<and>
      expf (scaled_logits logits cfg recent ! j - scaled_logits logits cfg recent ! m) = 0"
    and "expf (scaled_logits logits cfg recent ! m - scaled_logits logits cfg recent ! m) = 1"
  shows "\<exists>t. sample_token expf std logits cfg recent rng = Ret (t, xorshift64 rng) \<and> unat t = m"
proof -
  let ?l = "scaled_logits logits cfg recent"
  have ne: "logits \<noteq> []" using assms(5) by auto
  obtain "is" where "top_indices std ?l (sc_top_k cfg) = Ret is" "draw expf ?l (sc_top_p cfg) is (xorshift64 rng) = m"
    by (rule draw_dominant[OF assms(1,6,4), where m = m and expf = expf and top_p = "sc_top_p cfg" and r = "xorshift64 rng"])
      (use assms(5,7,8) in simp_all)
  then have "sample_token expf std logits cfg recent rng = Ret (of_nat m, xorshift64 rng)"
    using assms(2) ne by (simp add: sample_token_def Let_def)
  then show ?thesis using assms(3,5) by (simp add: unat_of_nat take_bit_nat_eq_self)
qed

text \<open>
  C33: the sampler's errors: the first invalid parameter is reported with its value, an empty
  logit slice is reported, and \<open>top_k = Some 0\<close> panics; NaN parameters pass validation.
\<close>

theorem sample_token_errors:
  "(sc_temperature cfg \<le> 0 \<longrightarrow>
      sample_token expf std logits cfg recent rng = Fail (InvalidTemperature (sc_temperature cfg))) \<and>
   (\<not> sc_temperature cfg \<le> 0 \<and> (sc_top_p cfg \<le> 0 \<or> sc_top_p cfg > 1) \<longrightarrow>
      sample_token expf std logits cfg recent rng = Fail (InvalidTopP (sc_top_p cfg))) \<and>
   (validate cfg = Ret () \<longrightarrow> sample_token expf std [] cfg recent rng = Fail EmptyLogits) \<and>
   (validate cfg = Ret () \<and> logits \<noteq> [] \<and> sc_top_k cfg = Some 0 \<longrightarrow>
      sample_token expf std logits cfg recent rng = Panic) \<and>
   (is_nan32 (sc_temperature cfg) \<and> is_nan32 (sc_top_p cfg) \<longrightarrow> validate cfg = Ret ())"
  by (auto simp: sample_token_def validate_def top_indices_def unwrap_or_def Let_def
      less_eq_f32_def less_f32_def)

text \<open>
  C29: the repeat penalty multiplies up: an entry whose id occurs \<open>n\<close> times in the recent ids
  is penalised \<open>n\<close> times, all others stay; a finite penalty of at least 1 never raises a
  logit and never makes one NaN.
\<close>

theorem repeat_penalty_correct:
  assumes "\<not> abs32 (p - 1) < lit32 1 1000000" and "i < length logits"
  shows "length (apply_repeat_penalty logits recent p) = length logits \<and>
    apply_repeat_penalty logits recent p ! i =
      (penalise p ^^ length (filter (\<lambda>t. unat t = i) recent)) (logits ! i) \<and>
    (\<not> is_nan32 (logits ! i) \<and> 1 \<le> p \<and> is_finite32 p \<longrightarrow>
      \<not> is_nan32 (apply_repeat_penalty logits recent p ! i) \<and>
      apply_repeat_penalty logits recent p ! i \<le> logits ! i)"
  using assms penalise_iter_lowers by (simp add: apply_repeat_penalty_def penalty_loop_nth)

text \<open>
  The generator's step is a bijection of the 64-bit words that fixes 0, so from a seed
  other than 0 it never reaches 0 and never merges two histories; the seed taken from the
  clock is never 0.
\<close>

theorem xorshift64_bijective:
  "bij xorshift64 \<and> (xorshift64 x = 0 \<longleftrightarrow> x = 0) \<and> rng_seed_from_time clock \<noteq> 0"
proof (intro conjI)
  have inj: "inj xorshift64" by (rule injI) (rule inj_xorshift64)
  then show "bij xorshift64" by (simp add: bij_def finite_UNIV_inj_surj)
  show "xorshift64 x = 0 \<longleftrightarrow> x = 0" using inj_xorshift64[of x 0] xorshift64_0 by auto
  show "rng_seed_from_time clock \<noteq> 0" by (simp add: rng_seed_from_time_def Let_def)
qed

lemma chunks_exact_nth: "i < n \<Longrightarrow> chunks_exact k n xs ! i = take k (drop (i * k) xs)"
proof (induction k n xs arbitrary: i rule: chunks_exact.induct)
  case (2 k n xs)
  then show ?case by (cases i) (simp_all add: add.commute)
qed simp

lemma length_chunks_exact [simp]: "length (chunks_exact k n xs) = n"
  by (induction k n xs rule: chunks_exact.induct) simp_all

text \<open>
  C32: with a matrix of the right size the projection returns one logit per vocabulary entry,
  each the dot product of its row with the hidden state; a wrong size is reported, and an
  empty hidden state panics.
\<close>

theorem project_correct:
  assumes "vocab * length hidden < 2 ^ 64"
  shows "(length lm_head \<noteq> vocab * length hidden \<longrightarrow>
      project_to_logits hidden lm_head vocab = Fail (ShapeMismatch (vocab * length hidden) (length lm_head))) \<and>
    (length lm_head = vocab * length hidden \<and> hidden \<noteq> [] \<longrightarrow>
      project_to_logits hidden lm_head vocab =
        Ret (map (\<lambda>v. dot (take (length hidden) (drop (v * length hidden) lm_head)) hidden) [0..<vocab])) \<and>
    (lm_head = [] \<longrightarrow> project_to_logits [] lm_head vocab = Panic)"
proof -
  have "map (\<lambda>row. dot row hidden) (chunks_exact (length hidden) vocab lm_head) =
      map (\<lambda>v. dot (take (length hidden) (drop (v * length hidden) lm_head)) hidden) [0..<vocab]"
    by (rule nth_equalityI) (simp_all add: chunks_exact_nth)
  then show ?thesis using assms
    by (auto simp: project_to_logits_def project_into_def usize_mul_def Let_def)
qed

text \<open>
  The norm keeps the shape: it fails exactly on a weight vector of another length or an
  empty state, and otherwise scales every component by one common factor and its weight.
\<close>

theorem rms_norm_correct:
  "(length weight \<noteq> length hidden \<longrightarrow>
      rms_norm_inplace hidden weight eps = Fail (ShapeMismatch (length hidden) (length weight))) \<and>
   (hidden = [] \<and> weight = [] \<longrightarrow> rms_norm_inplace hidden weight eps = Fail EmptyLogits) \<and>
   (length weight = length hidden \<and> hidden \<noteq> [] \<longrightarrow>
      (\<exists>out. rms_norm_inplace hidden weight eps = Ret out \<and> length out = length hidden \<and>
        (\<forall>i < length hidden. out ! i =
          hidden ! i * (1 div sqrt32 (fsum (map (\<lambda>x. x * x) hidden) div of_nat32 (length hidden) + eps)) * weight ! i)))"
  by (simp add: rms_norm_inplace_def Let_def)

section \<open>Witnesses\<close>

definition sample_cfg :: sampling_config where
  "sample_cfg = \<lparr>sc_temperature = 1, sc_top_p = 1, sc_top_k = Some 1, sc_repeat_penalty = 1\<rparr>"

text \<open>The logits 1, 3, 2.\<close>

definition sample_logits :: "f32 list" where
  "sample_logits = [Bits32 0x3F800000, Bits32 0x40400000, Bits32 0x40000000]"

lemma sample_values:
  "(1 :: f32) / 1 = 1" "(1 :: f32) * 1 = 1"
  "Bits32 1065353216 * 1 = Bits32 1065353216" "Bits32 1077936128 * 1 = Bits32 1077936128"
  "Bits32 1073741824 * 1 = Bits32 1073741824"
  by (simp_all add: float_eval)

lemma sample_scaled: "scaled_logits sample_logits sample_cfg [] = sample_logits"
  by (simp add: scaled_logits_def sample_cfg_def apply_repeat_penalty_def sample_logits_def sample_values)

lemma sample_shape: "sample_logits \<noteq> []" "length sample_logits = 3" "sc_top_k sample_cfg = Some 1"
  by (simp_all add: sample_logits_def sample_cfg_def)

lemma sample_cfg_valid: "validate sample_cfg = Ret ()"
  by (simp add: validate_def sample_cfg_def float_eval)

lemma sample_no_nan: "\<forall>x\<in>set sample_logits. \<not> is_nan32 x"
  by (simp add: sample_logits_def float_eval)

lemma sample_less: "Bits32 1065353216 < Bits32 1077936128" "Bits32 1073741824 < Bits32 1077936128"
  by (simp_all add: float_eval)

theorem sample_token_top_k_witness:
  "\<exists>t. sample_token (\<lambda>_. 1) insertion_std sample_logits sample_cfg [] 1 = Ret (t, xorshift64 1) \<and>
     card {j. j < 3 \<and> sample_logits ! unat t < sample_logits ! j} < 1"
  using sample_token_top_k[OF insertion.unstable_sort_axioms sample_cfg_valid sample_shape(1), of "[]" "\<lambda>_. 1" 1]
    sample_no_nan
  unfolding sample_scaled sample_shape(2,3) by (auto simp: unwrap_or_def)

theorem sample_token_in_range_witness:
  "\<exists>t s. sample_token (\<lambda>_. 1) insertion_std sample_logits sample_cfg [] 7 = Ret (t, s) \<and> unat t < 3"
proof -
  obtain "is" where "top_indices insertion_std sample_logits (Some 1) = Ret is"
    by (rule insertion.top_indices_best[OF desc_cmp_total[OF sample_no_nan] sample_shape(1), of "Some 1"]) simp_all
  then obtain t s where r: "sample_token (\<lambda>_. 1) insertion_std sample_logits sample_cfg [] 7 = Ret (t, s)"
    by (simp add: sample_token_def sample_cfg_valid sample_scaled sample_shape Let_def)
  from sample_token_in_range[OF insertion.unstable_sort_axioms r] r show ?thesis
    by (simp add: sample_shape)
qed

text \<open>The logits 1, 3, 2 once more, with all of them kept and an exponential that underflows at once.\<close>

theorem sample_token_dominant_witness:
  "\<exists>t. sample_token (\<lambda>x. if x = 0 then 1 else 0) insertion_std sample_logits (sample_cfg\<lparr>sc_top_k := None\<rparr>) [] 1 = Ret (t, xorshift64 1) \<and>
     unat t = 1"
proof -
  let ?cfg = "sample_cfg\<lparr>sc_top_k := None\<rparr>" and ?e = "\<lambda>x :: f32. if x = 0 then 1 else (0 :: f32)"
  have sc: "scaled_logits sample_logits ?cfg [] = sample_logits"
    using sample_scaled by (simp add: scaled_logits_def)
  have v: "validate ?cfg = Ret ()" by (simp add: validate_def sample_cfg_def float_eval)
  have gaps: "Bits32 1065353216 - Bits32 1077936128 \<noteq> 0" "Bits32 1073741824 - Bits32 1077936128 \<noteq> 0"
    "Bits32 1077936128 - Bits32 1077936128 = 0"
    by (simp_all add: float_eval)
  have nth: "sample_logits ! 0 = Bits32 1065353216" "sample_logits ! 1 = Bits32 1077936128" "sample_logits ! 2 = Bits32 1073741824"
    by (simp_all add: sample_logits_def)
  have dom: "\<forall>j < 3. j \<noteq> 1 \<longrightarrow> sample_logits ! j < sample_logits ! 1 \<and> ?e (sample_logits ! j - sample_logits ! 1) = 0"
  proof (intro allI impI)
    fix j :: nat assume "j < 3" "j \<noteq> 1"
    then consider "j = 0" | "j = 2" by linarith
    then show "sample_logits ! j < sample_logits ! 1 \<and> ?e (sample_logits ! j - sample_logits ! 1) = 0"
      by cases (simp_all only: nth sample_less gaps if_False simp_thms)
  qed
  have one: "?e (sample_logits ! 1 - sample_logits ! 1) = 1" by (simp only: nth gaps simp_thms if_True)
  show ?thesis
    using sample_token_dominant[where expf = ?e and logits = sample_logits and m = 1 and recent = "[]" and rng = 1,
        OF insertion.unstable_sort_axioms v, unfolded sc sample_shape(2), OF _ _ _ sample_no_nan dom one]
    by simp
qed

text \<open>A penalty of 2 halves the second logit, which occurs once, and doubles a negative one.\<close>

lemma two_penalty: "\<not> abs32 (Bits32 1073741824 - 1) < lit32 1 1000000"
  by (simp add: float_eval)

theorem repeat_penalty_correct_witness:
  "apply_repeat_penalty sample_logits [2, 2] (Bits32 1073741824) ! 2 = Bits32 0x3F000000 \<and>
   apply_repeat_penalty sample_logits [2, 2] (Bits32 1073741824) ! 1 = sample_logits ! 1"
proof -
  have "penalise (Bits32 1073741824) (Bits32 1073741824) = 1" "penalise (Bits32 1073741824) 1 = Bits32 0x3F000000"
    by (simp_all add: penalise_def float_eval)
  then show ?thesis
    using repeat_penalty_correct[OF two_penalty, of 2 sample_logits "[2, 2]"]
      repeat_penalty_correct[OF two_penalty, of 1 sample_logits "[2, 2]"]
    by (simp add: sample_logits_def)
qed

theorem sample_token_errors_witness:
  "sample_token (\<lambda>_. 1) insertion_std [1] (sample_cfg\<lparr>sc_top_k := Some 0\<rparr>) [] 1 = Panic"
  using sample_token_errors[of "sample_cfg\<lparr>sc_top_k := Some 0\<rparr>" "\<lambda>_. 1" insertion_std "[1]" "[]" 1]
    sample_cfg_valid by (simp add: validate_def sample_cfg_def split: if_splits)

theorem project_correct_witness:
  "project_to_logits [1] [1, Bits32 1073741824] 2 = Ret [1, Bits32 1073741824]"
  using project_correct[of 2 "[1]" "[1, Bits32 1073741824]"]
  by (simp add: dot_def fsum_def upt_rec) (simp add: float_eval)

theorem rms_norm_correct_witness:
  "\<exists>out. rms_norm_inplace [1, 1] [1, 1] 0 = Ret out \<and> length out = 2"
  using rms_norm_correct[of "[1, 1]" "[1, 1]" 0] by auto

end
