(* ===== verification/Mapper.thy ===== *)
theory Mapper imports Prelude begin

text \<open>
  \<^verbatim>\<open>src/src/mapper.rs\<close>: the memory-mapped model file, cut into 500 MiB windows that are
  prefetched and evicted with \<^verbatim>\<open>madvise\<close>, and the background prefetch thread. The system
  calls' results are a parameter; their effect on the process (open descriptors, live
  mappings, advice given) is the state \<open>os\<close>. The thread and its owner are a step relation
  whose interleavings are arbitrary.
\<close>

section \<open>Windows\<close>

definition LAYER_SIZE_BYTES :: usize where
  "LAYER_SIZE_BYTES = 500 * 1024 * 1024"

definition PREFETCH_DEPTH :: nat where
  "PREFETCH_DEPTH = 2"

definition MAX_RAM_LAYERS :: nat where
  "MAX_RAM_LAYERS = 4"

definition MADV_WILLNEED :: int where
  "MADV_WILLNEED = 3"

definition MADV_DONTNEED :: int where
  "MADV_DONTNEED = 4"

definition num_layers :: "usize \<Rightarrow> usize" where
  "num_layers tot = (tot + LAYER_SIZE_BYTES - 1) div LAYER_SIZE_BYTES"

section \<open>The operating system\<close>

record os =
  os_fds :: "int list"
  os_maps :: "(usize \<times> usize) list"
  os_log :: "(usize \<times> usize \<times> int) list"

record os_env =
  oe_open :: "string \<Rightarrow> os \<Rightarrow> int"
  oe_size :: "int \<Rightarrow> os \<Rightarrow> usize option"
  oe_mmap :: "int \<Rightarrow> usize \<Rightarrow> bool \<Rightarrow> os \<Rightarrow> usize option"
  oe_advise :: "usize \<times> usize \<times> int \<Rightarrow> os \<Rightarrow> bool"

datatype map_error = NullInPath | OpenError | StatError | EmptyFile | MmapError | AdviseError

type_synonym 'a os_act = "(os, 'a, map_error) sm"

definition safe_open :: "os_env \<Rightarrow> string \<Rightarrow> int os_act" where
  "safe_open env path s =
     (if CHR 0x00 \<in> set path then (Fail NullInPath, s)
      else let fd = oe_open env path s in
        if fd = -1 then (Fail OpenError, s) else (Ret fd, s\<lparr>os_fds := fd # os_fds s\<rparr>))"

definition file_size :: "os_env \<Rightarrow> int \<Rightarrow> usize os_act" where
  "file_size env fd s = (case oe_size env fd s of None \<Rightarrow> (Fail StatError, s) | Some n \<Rightarrow> (Ret n, s))"

definition map_pages :: "usize \<Rightarrow> usize \<Rightarrow> usize os_act" where
  "map_pages addr len s = (Ret addr, s\<lparr>os_maps := (addr, len) # os_maps s\<rparr>)"

text \<open>Huge pages first, standard pages when they are refused.\<close>

definition safe_mmap :: "os_env \<Rightarrow> int \<Rightarrow> usize \<Rightarrow> usize os_act" where
  "safe_mmap env fd len s =
     (case oe_mmap env fd len True s of
        Some p \<Rightarrow> map_pages p len s
      | None \<Rightarrow>
          (case oe_mmap env fd len False s of
             Some p \<Rightarrow> map_pages p len s
           | None \<Rightarrow> (Fail MmapError, s)))"

definition safe_madvise :: "os_env \<Rightarrow> usize \<Rightarrow> usize \<Rightarrow> int \<Rightarrow> unit os_act" where
  "safe_madvise env addr len advice s =
     (let s' = s\<lparr>os_log := os_log s @ [(addr, len, advice)]\<rparr>
      in if oe_advise env (addr, len, advice) s then (Ret (), s') else (Fail AdviseError, s'))"

definition close_fd :: "int \<Rightarrow> unit os_act" where
  "close_fd fd s = (Ret (), s\<lparr>os_fds := remove1 fd (os_fds s)\<rparr>)"

definition munmap :: "usize \<Rightarrow> usize \<Rightarrow> unit os_act" where
  "munmap addr len s = (Ret (), s\<lparr>os_maps := remove1 (addr, len) (os_maps s)\<rparr>)"

text \<open>An error handler that closes the descriptor and passes the error on.\<close>

definition close_on_err :: "int \<Rightarrow> 'a os_act \<Rightarrow> 'a os_act" where
  "close_on_err fd m s =
     (case m s of
        (Fail e, s') \<Rightarrow> bnd (close_fd fd) (\<lambda>_. fail e) s'
      | r \<Rightarrow> r)"

section \<open>FileMapper\<close>

record file_mapper =
  fm_fd :: int
  fm_ptr :: usize
  fm_total :: usize

definition file_mapper_open :: "os_env \<Rightarrow> string \<Rightarrow> file_mapper os_act" where
  "file_mapper_open env path =
     bnd (safe_open env path) (\<lambda>fd.
     bnd (close_on_err fd (file_size env fd)) (\<lambda>sz.
     if sz = 0 then bnd (close_fd fd) (\<lambda>_. fail EmptyFile)
     else
     bnd (close_on_err fd (safe_mmap env fd sz)) (\<lambda>ptr.
     ret \<lparr>fm_fd = fd, fm_ptr = ptr, fm_total = sz\<rparr>)))"

definition layer_ptr :: "file_mapper \<Rightarrow> usize \<Rightarrow> usize" where
  "layer_ptr fm idx = fm_ptr fm + idx * LAYER_SIZE_BYTES"

definition evict_layer :: "os_env \<Rightarrow> file_mapper \<Rightarrow> usize \<Rightarrow> unit os_act" where
  "evict_layer env fm idx =
     (let offset = idx * LAYER_SIZE_BYTES in
      if fm_total fm \<le> offset then ret ()
      else safe_madvise env (fm_ptr fm + offset) (min LAYER_SIZE_BYTES (fm_total fm - offset)) MADV_DONTNEED)"

definition prefetch_layer :: "os_env \<Rightarrow> file_mapper \<Rightarrow> usize \<Rightarrow> unit os_act" where
  "prefetch_layer env fm idx =
     (let offset = idx * LAYER_SIZE_BYTES in
      if fm_total fm \<le> offset then ret ()
      else safe_madvise env (fm_ptr fm + offset) (min LAYER_SIZE_BYTES (fm_total fm - offset)) MADV_WILLNEED)"

definition file_mapper_drop :: "file_mapper \<Rightarrow> unit os_act" where
  "file_mapper_drop fm = bnd (munmap (fm_ptr fm) (fm_total fm)) (\<lambda>_. close_fd (fm_fd fm))"

section \<open>Prefetcher\<close>

text \<open>
  Where the thread is: waiting on the condition variable, awake and about to read the stop
  flag, about to read the position, at turn \<open>i\<close> of the advice loop for position \<open>cur\<close>, gone.
\<close>

datatype thread_pc = Waiting | Woken | Loading | Advising usize nat | Exited

record prefetcher =
  pf_base :: usize
  pf_total :: usize
  pf_nlayers :: usize
  pf_stop :: bool
  pf_current :: usize
  pf_handle :: bool
  pf_pc :: thread_pc
  pf_log :: "(usize \<times> usize) list"

definition prefetcher_spawn :: "usize \<Rightarrow> usize \<Rightarrow> prefetcher" where
  "prefetcher_spawn base tot =
     \<lparr>pf_base = base, pf_total = tot, pf_nlayers = num_layers tot, pf_stop = False,
      pf_current = 0, pf_handle = True, pf_pc = Waiting, pf_log = []\<rparr>"

text \<open>One step of the thread: a wake-up or time-out, an atomic load, or one turn of the loop.\<close>

definition thread_step :: "prefetcher \<Rightarrow> prefetcher" where
  "thread_step p =
     (case pf_pc p of
        Waiting \<Rightarrow> p\<lparr>pf_pc := Woken\<rparr>
      | Woken \<Rightarrow> if pf_stop p then p\<lparr>pf_pc := Exited\<rparr> else p\<lparr>pf_pc := Loading\<rparr>
      | Loading \<Rightarrow> p\<lparr>pf_pc := Advising (pf_current p) 1\<rparr>
      | Advising cur i \<Rightarrow>
          if PREFETCH_DEPTH < i then p\<lparr>pf_pc := Waiting\<rparr>
          else let t = cur + of_nat i in
            if pf_nlayers p \<le> t then p\<lparr>pf_pc := Waiting\<rparr>
            else let offset = t * LAYER_SIZE_BYTES;
                     len = min LAYER_SIZE_BYTES (pf_total p - offset)
                 in p\<lparr>pf_log := pf_log p @ [(pf_base p + offset, len)], pf_pc := Advising cur (Suc i)\<rparr>
      | Exited \<Rightarrow> p)"

definition advance :: "usize \<Rightarrow> prefetcher \<Rightarrow> prefetcher" where
  "advance layer p = p\<lparr>pf_current := layer\<rparr>"

text \<open>The two halves of \<open>shutdown\<close>: raising the flag, and the join, which returns only once
  the thread is gone and takes the handle.\<close>

definition raise_stop :: "prefetcher \<Rightarrow> prefetcher" where
  "raise_stop p = p\<lparr>pf_stop := True\<rparr>"

definition join_handle :: "prefetcher \<Rightarrow> prefetcher" where
  "join_handle p = p\<lparr>pf_handle := False\<rparr>"

datatype pf_action = Thread | Advance usize | Stop | Join

inductive pf_step :: "prefetcher \<Rightarrow> pf_action \<Rightarrow> prefetcher \<Rightarrow> bool" where
  pf_thread: "pf_pc p \<noteq> Exited \<Longrightarrow> pf_step p Thread (thread_step p)"
| pf_advance: "pf_step p (Advance l) (advance l p)"
| pf_stop: "pf_step p Stop (raise_stop p)"
| pf_join: "pf_stop p \<Longrightarrow> pf_handle p \<Longrightarrow> pf_pc p = Exited \<Longrightarrow> pf_step p Join (join_handle p)"

inductive pf_run :: "prefetcher \<Rightarrow> pf_action list \<Rightarrow> prefetcher \<Rightarrow> bool" where
  pf_refl: "pf_run p [] p"
| pf_snoc: "pf_run p as q \<Longrightarrow> pf_step q a r \<Longrightarrow> pf_run p (as @ [a]) r"

inductive_cases pf_threadE: "pf_step p Thread q"
inductive_cases pf_advanceE: "pf_step p (Advance l) q"
inductive_cases pf_stopE: "pf_step p Stop q"
inductive_cases pf_joinE: "pf_step p Join q"
inductive_simps pf_run_Nil: "pf_run p [] q"

section \<open>InferenceMapper\<close>

record inference_mapper =
  im_mapper :: file_mapper
  im_prefetcher :: prefetcher

text \<open>The loop that warms up the first windows only logs an error.\<close>

definition ignore_err :: "unit os_act \<Rightarrow> unit os_act" where
  "ignore_err m s = (case m s of (Fail e, s') \<Rightarrow> (Ret (), s') | r \<Rightarrow> r)"

definition inference_mapper_new :: "os_env \<Rightarrow> string \<Rightarrow> inference_mapper os_act" where
  "inference_mapper_new env path =
     bnd (file_mapper_open env path) (\<lambda>mapper.
     bnd (loop (\<lambda>_ i. ignore_err (prefetch_layer env mapper (of_nat i))) ()
            [0..<min PREFETCH_DEPTH (unat (num_layers (fm_total mapper)))]) (\<lambda>_.
     ret \<lparr>im_mapper = mapper, im_prefetcher = prefetcher_spawn (fm_ptr mapper) (fm_total mapper)\<rparr>))"

definition im_num_layers :: "inference_mapper \<Rightarrow> usize" where
  "im_num_layers im = num_layers (fm_total (im_mapper im))"

definition activate_layer :: "os_env \<Rightarrow> inference_mapper \<Rightarrow> usize \<Rightarrow> unit os_act" where
  "activate_layer env im evict_idx =
     (if im_num_layers im \<le> evict_idx then ret ()
      else ignore_err (evict_layer env (im_mapper im) evict_idx))"

text \<open>
  The end of the mapper, as steps of its owner: \<^verbatim>\<open>shutdown\<close> raises the flag, joins the thread and
  drops the value; \<^verbatim>\<open>Drop\<close> raises the flag (again) and joins if there is still a handle; then the
  fields are dropped, which unmaps the file. \<open>Joining True\<close> is the join of an explicit shutdown.
\<close>

datatype owner_pc = Running | Joining bool | Unmapping | Gone

record im_state =
  is_im :: inference_mapper
  is_os :: os
  is_owner :: owner_pc

definition im_started :: "inference_mapper \<Rightarrow> os \<Rightarrow> im_state" where
  "im_started im o' = \<lparr>is_im = im, is_os = o', is_owner = Running\<rparr>"

definition on_prefetcher :: "(prefetcher \<Rightarrow> prefetcher) \<Rightarrow> im_state \<Rightarrow> im_state" where
  "on_prefetcher f s = s\<lparr>is_im := (is_im s)\<lparr>im_prefetcher := f (im_prefetcher (is_im s))\<rparr>\<rparr>"

definition after_join :: "bool \<Rightarrow> im_state \<Rightarrow> im_state" where
  "after_join explicit s =
     (if explicit then on_prefetcher raise_stop s\<lparr>is_owner := Joining False\<rparr> else s\<lparr>is_owner := Unmapping\<rparr>)"

inductive im_step :: "os_env \<Rightarrow> im_state \<Rightarrow> im_state \<Rightarrow> bool" for env where
  im_thread: "pf_pc (im_prefetcher (is_im s)) \<noteq> Exited \<Longrightarrow> im_step env s (on_prefetcher thread_step s)"
| im_activate: "is_owner s = Running \<Longrightarrow> activate_layer env (is_im s) idx (is_os s) = (r, o') \<Longrightarrow> im_step env s (s\<lparr>is_os := o'\<rparr>)"
| im_advance: "is_owner s = Running \<Longrightarrow> im_step env s (on_prefetcher (advance l) s)"
| im_end: "is_owner s = Running \<Longrightarrow> im_step env s (on_prefetcher raise_stop s\<lparr>is_owner := Joining explicit\<rparr>)"
| im_join: "is_owner s = Joining explicit \<Longrightarrow> pf_handle (im_prefetcher (is_im s)) \<Longrightarrow> pf_pc (im_prefetcher (is_im s)) = Exited \<Longrightarrow>
    im_step env s (after_join explicit (on_prefetcher join_handle s))"
| im_no_join: "is_owner s = Joining explicit \<Longrightarrow> \<not> pf_handle (im_prefetcher (is_im s)) \<Longrightarrow> im_step env s (after_join explicit s)"
| im_unmap: "is_owner s = Unmapping \<Longrightarrow> file_mapper_drop (im_mapper (is_im s)) (is_os s) = (r, o') \<Longrightarrow>
    im_step env s (s\<lparr>is_os := o', is_owner := Gone\<rparr>)"

inductive im_reach :: "os_env \<Rightarrow> im_state \<Rightarrow> im_state \<Rightarrow> bool" for env s where
  im_here: "im_reach env s s"
| im_next: "im_reach env s t \<Longrightarrow> im_step env t u \<Longrightarrow> im_reach env s u"

inductive_cases im_stepE: "im_step env s t"

end
