(* ===== verification/Mapper_Properties.thy ===== *)
theory Mapper_Properties imports Mapper begin

text \<open>
  What the mapper promises: the windows cover the file exactly, every piece of advice given
  by the owner or by the prefetch thread in any interleaving lies inside the mapping, a
  shutdown makes the thread exit after boundedly many of its steps, and opening a file
  never leaks a descriptor or a mapping.
\<close>

section \<open>Windows\<close>

definition LB :: nat where
  "LB = 524288000"

lemma unat_LAYER [simp]: "unat LAYER_SIZE_BYTES = LB"
  by (simp add: LAYER_SIZE_BYTES_def LB_def)

lemma LB_pos: "0 < LB"
  by (simp add: LB_def)

lemma layer_offset:
  assumes "unat idx * LB < 2 ^ 64"
  shows "unat (idx * LAYER_SIZE_BYTES) = unat idx * LB"
  using iffD1[OF unat_mult_lem[of idx LAYER_SIZE_BYTES]] assms by simp

lemma unat_num_layers:
  assumes "unat t + LB < 2 ^ 64"
  shows "unat (num_layers t) = (unat t + LB - 1) div LB"
proof -
  have add: "unat (t + LAYER_SIZE_BYTES) = unat t + LB"
    using iffD1[OF unat_add_lem[of t LAYER_SIZE_BYTES]] assms by simp
  then have "t + LAYER_SIZE_BYTES \<noteq> 0" using LB_pos by (auto simp: word_unat_eq_iff)
  then have "unat (t + LAYER_SIZE_BYTES - 1) = unat t + LB - 1"
    by (simp add: unat_minus_one add)
  then show ?thesis by (simp add: num_layers_def unat_div_distrib)
qed

lemma index_below_layers:
  assumes "unat t + LB < 2 ^ 64"
  shows "i < unat (num_layers t) \<longleftrightarrow> i * LB < unat t"
proof -
  have "i < (unat t + LB - 1) div LB \<longleftrightarrow> (i + 1) * LB \<le> unat t + LB - 1"
    using LB_pos less_eq_div_iff_mult_less_eq[of LB "i + 1" "unat t + LB - 1"] by (simp add: Suc_le_eq)
  also have "\<dots> \<longleftrightarrow> i * LB < unat t" using LB_pos by auto
  finally show ?thesis using unat_num_layers[OF assms] by simp
qed

text \<open>A piece of advice for a window of the mapping.\<close>

definition window_ok :: "usize \<Rightarrow> usize \<Rightarrow> usize \<times> usize \<Rightarrow> bool" where
  "window_ok base tot w \<longleftrightarrow>
     (\<exists>i. i * LB < unat tot \<and> fst w = base + of_nat (i * LB) \<and>
        unat (snd w) = min LB (unat tot - i * LB))"

lemma window_okI:
  assumes "unat idx * LB < unat tot"
  shows "window_ok base tot (base + idx * LAYER_SIZE_BYTES,
    min LAYER_SIZE_BYTES (tot - idx * LAYER_SIZE_BYTES))"
proof -
  have off: "idx * LAYER_SIZE_BYTES = of_nat (unat idx * LB)"
    by (simp add: LAYER_SIZE_BYTES_def LB_def)
  have lt: "unat tot < 2 ^ 64" using unsigned_less[where w = tot and ?'a = nat] by simp
  then have u: "unat (idx * LAYER_SIZE_BYTES) = unat idx * LB" using assms by (intro layer_offset) simp
  then have "idx * LAYER_SIZE_BYTES \<le> tot" using assms by (simp add: word_le_nat_alt)
  then have "unat (tot - idx * LAYER_SIZE_BYTES) = unat tot - unat idx * LB"
    by (simp add: unat_sub u)
  then have "unat (min LAYER_SIZE_BYTES (tot - idx * LAYER_SIZE_BYTES)) = min LB (unat tot - unat idx * LB)"
    by (simp add: min_def word_le_nat_alt)
  then show ?thesis using assms unfolding window_ok_def off by auto
qed

section \<open>The prefetch thread\<close>

definition pf_inv :: "usize \<Rightarrow> usize \<Rightarrow> prefetcher \<Rightarrow> bool" where
  "pf_inv base tot p \<longleftrightarrow>
     pf_base p = base \<and> pf_total p = tot \<and> pf_nlayers p = num_layers tot \<and>
     (\<forall>w\<in>set (pf_log p). window_ok base tot w)"

lemma pf_inv_spawn: "pf_inv base tot (prefetcher_spawn base tot)"
  by (simp add: pf_inv_def prefetcher_spawn_def)

lemma pf_inv_thread:
  assumes "unat tot + LB < 2 ^ 64" and "pf_inv base tot p"
  shows "pf_inv base tot (thread_step p)"
proof (cases "pf_pc p")
  case (Advising cur i)
  let ?t = "cur + of_nat i"
  show ?thesis
  proof (cases "PREFETCH_DEPTH < i \<or> pf_nlayers p \<le> ?t")
    case False
    then have "unat ?t < unat (num_layers tot)"
      using assms(2) by (auto simp: pf_inv_def word_le_nat_alt)
    then have "window_ok base tot (base + ?t * LAYER_SIZE_BYTES,
        min LAYER_SIZE_BYTES (tot - ?t * LAYER_SIZE_BYTES))"
      using index_below_layers[OF assms(1)] by (intro window_okI) simp
    then show ?thesis using False assms(2) Advising by (auto simp: thread_step_def pf_inv_def Let_def)
  qed (use assms(2) Advising in \<open>auto simp: thread_step_def pf_inv_def Let_def\<close>)
qed (use assms(2) in \<open>auto simp: thread_step_def pf_inv_def\<close>)

lemma pf_inv_run:
  assumes "pf_run p as q" and "unat tot + LB < 2 ^ 64" and "pf_inv base tot p"
  shows "pf_inv base tot q"
  using assms
proof (induction rule: pf_run.induct)
  case (pf_snoc p as q a r)
  then have q: "pf_inv base tot q" by simp
  from \<open>pf_step q a r\<close> show ?case
    by cases (use q pf_inv_thread[OF assms(2) q] in
        \<open>auto simp: pf_inv_def advance_def raise_stop_def join_handle_def\<close>)
qed

text \<open>How many steps the thread still makes once the flag is up.\<close>

fun pc_rank :: "thread_pc \<Rightarrow> nat" where
  "pc_rank Exited = 0"
| "pc_rank Woken = 1"
| "pc_rank Waiting = 2"
| "pc_rank (Advising cur i) = 3 + (3 - i)"
| "pc_rank Loading = 7"

lemma thread_rank:
  assumes "pf_stop p" and "pf_pc p \<noteq> Exited"
  shows "pc_rank (pf_pc (thread_step p)) < pc_rank (pf_pc p)"
  using assms by (cases "pf_pc p") (auto simp: thread_step_def Let_def PREFETCH_DEPTH_def)

lemma thread_stop: "pf_stop (thread_step p) = pf_stop p"
  by (auto simp: thread_step_def Let_def split: thread_pc.split)

lemma pf_run_rank:
  assumes "pf_run p as q" and "pf_stop p"
  shows "pf_stop q \<and> length (filter (\<lambda>a. a = Thread) as) + pc_rank (pf_pc q) \<le> pc_rank (pf_pc p)"
  using assms
proof (induction rule: pf_run.induct)
  case (pf_snoc p as q a r)
  then have q: "pf_stop q" "length (filter (\<lambda>a. a = Thread) as) + pc_rank (pf_pc q) \<le> pc_rank (pf_pc p)"
    by simp_all
  from \<open>pf_step q a r\<close> show ?case
  proof cases
    case pf_thread
    then show ?thesis using q thread_rank[of q] by (simp add: thread_stop)
  qed (use q in \<open>simp_all add: advance_def raise_stop_def join_handle_def\<close>)
qed simp

lemma pf_run_trans: "pf_run q bs r \<Longrightarrow> pf_run p as q \<Longrightarrow> pf_run p (as @ bs) r"
proof (induction rule: pf_run.induct)
  case (pf_snoc q bs r b s)
  then show ?case using pf_run.pf_snoc[of p "as @ bs" r b s] by simp
qed simp

text \<open>Left alone, the thread gets to its exit.\<close>

lemma thread_exits: "pf_stop p \<Longrightarrow> \<exists>n q. pf_run p (replicate n Thread) q \<and> pf_pc q = Exited"
proof (induction "pc_rank (pf_pc p)" arbitrary: p rule: less_induct)
  case less
  show ?case
  proof (cases "pf_pc p = Exited")
    case True
    then show ?thesis using pf_refl[of p] by (intro exI[of _ 0]) auto
  next
    case False
    have step: "pf_run p [Thread] (thread_step p)"
      using pf_snoc[OF pf_refl pf_thread[OF False]] by simp
    obtain n q where "pf_run (thread_step p) (replicate n Thread) q" "pf_pc q = Exited"
      using less(1)[OF thread_rank[OF less(2) False]] less(2) by (auto simp: thread_stop)
    then show ?thesis using pf_run_trans[OF _ step] by (intro exI[of _ "Suc n"]) auto
  qed
qed

lemma threads_keep_handle: "pf_run p as q \<Longrightarrow> \<forall>a\<in>set as. a = Thread \<Longrightarrow> pf_handle q = pf_handle p"
proof (induction rule: pf_run.induct)
  case (pf_snoc p as q a r)
  then have "a = Thread" "pf_handle q = pf_handle p" by simp_all
  moreover have "pf_handle (thread_step q) = pf_handle q"
    by (auto simp: thread_step_def Let_def split: thread_pc.split)
  ultimately show ?case using \<open>pf_step q a r\<close> by (auto elim!: pf_threadE)
qed simp

section \<open>The end of the mapper\<close>

text \<open>
  The mapping stays until the thread is gone, and the thread keeps to the mapping's windows;
  once the owner is gone the process holds what it held before the file was opened.
\<close>

definition im_inv :: "os \<Rightarrow> im_state \<Rightarrow> bool" where
  "im_inv before s \<longleftrightarrow>
     (let fm = im_mapper (is_im s); p = im_prefetcher (is_im s) in
      pf_inv (fm_ptr fm) (fm_total fm) p \<and>
      (\<not> pf_handle p \<longrightarrow> pf_pc p = Exited) \<and>
      (is_owner s = Unmapping \<or> is_owner s = Gone \<longrightarrow> pf_pc p = Exited) \<and>
      (if is_owner s = Gone then os_fds (is_os s) = os_fds before \<and> os_maps (is_os s) = os_maps before
       else os_fds (is_os s) = fm_fd fm # os_fds before \<and> os_maps (is_os s) = (fm_ptr fm, fm_total fm) # os_maps before))"

lemma exited_stays: "pf_pc p = Exited \<Longrightarrow> thread_step p = p"
  by (simp add: thread_step_def)

lemma thread_handle: "pf_handle (thread_step p) = pf_handle p"
  by (auto simp: thread_step_def Let_def split: thread_pc.split)

lemma activate_keeps:
  "activate_layer env im idx o1 = (r, o2) \<Longrightarrow> os_fds o2 = os_fds o1 \<and> os_maps o2 = os_maps o1"
  by (auto simp: activate_layer_def ignore_err_def evict_layer_def safe_madvise_def Let_def split: if_splits)

lemma im_inv_step:
  assumes "im_step env s t" "im_inv before s" "unat (fm_total (im_mapper (is_im s))) + LB < 2 ^ 64"
  shows "im_inv before t \<and> im_mapper (is_im t) = im_mapper (is_im s)"
  using assms(1)
proof cases
  case im_thread
  then show ?thesis
    using assms(2,3) pf_inv_thread[OF assms(3)] by (auto simp: im_inv_def on_prefetcher_def Let_def thread_handle)
next
  case (im_activate idx r o')
  then show ?thesis using assms(2) activate_keeps[OF im_activate(3)] by (simp add: im_inv_def Let_def)
qed (use assms(2) in \<open>auto simp: im_inv_def on_prefetcher_def after_join_def pf_inv_def advance_def raise_stop_def join_handle_def
      file_mapper_drop_def munmap_def close_fd_def bnd_def Let_def\<close>)

lemma im_inv_reach:
  assumes "im_reach env s t" "im_inv before s" "unat (fm_total (im_mapper (is_im s))) + LB < 2 ^ 64"
  shows "im_inv before t \<and> im_mapper (is_im t) = im_mapper (is_im s)"
  using assms(1)
proof induction
  case (im_next t u)
  then show ?case using im_inv_step[OF im_next(2), of before] im_next(3) assms(3) by auto
qed (use assms(2) in simp)

lemma ignored_prefetch: "ignore_err (prefetch_layer env fm i) o1 = (r, o2) \<Longrightarrow> r = Ret () \<and> os_fds o2 = os_fds o1 \<and> os_maps o2 = os_maps o1"
  by (auto simp: ignore_err_def prefetch_layer_def safe_madvise_def Let_def split: if_splits)

lemma warm_up_keeps:
  "loop (\<lambda>_ i. ignore_err (prefetch_layer env fm (of_nat i))) () ks o1 = (r, o2) \<Longrightarrow>
     r = Ret () \<and> os_fds o2 = os_fds o1 \<and> os_maps o2 = os_maps o1"
proof (induction ks arbitrary: o1)
  case (Cons k ks)
  obtain q o' where k: "ignore_err (prefetch_layer env fm (of_nat k)) o1 = (q, o')" by fastforce
  from ignored_prefetch[OF this] Cons.prems Cons.IH[of o'] k show ?case by (auto simp: bnd_def)
qed simp

lemma handle_spawn: "pf_handle (prefetcher_spawn a b)"
  by (simp add: prefetcher_spawn_def)

lemma im_inv_new:
  assumes "inference_mapper_new env path before = (Ret im, o')"
  shows "im_inv before (im_started im o')"
proof -
  obtain fm o1 where op: "file_mapper_open env path before = (Ret fm, o1)"
    and lp: "loop (\<lambda>_ i. ignore_err (prefetch_layer env fm (of_nat i))) () [0..<min PREFETCH_DEPTH (unat (num_layers (fm_total fm)))] o1 = (Ret (), o')"
    and im: "im = \<lparr>im_mapper = fm, im_prefetcher = prefetcher_spawn (fm_ptr fm) (fm_total fm)\<rparr>"
    using assms by (auto simp: inference_mapper_new_def elim!: bnd_RetE)
  have "os_fds o1 = fm_fd fm # os_fds before \<and> os_maps o1 = (fm_ptr fm, fm_total fm) # os_maps before"
    using op by (auto simp: file_mapper_open_def safe_open_def file_size_def safe_mmap_def map_pages_def
        close_on_err_def close_fd_def bnd_def Let_def split: option.splits if_splits)
  with warm_up_keeps[OF lp] show ?thesis
    by (simp add: im_inv_def im_started_def im pf_inv_spawn handle_spawn Let_def)
qed

section \<open>Properties\<close>

text \<open>
  The windows cover the file exactly: every byte of a file lies in one and only one
  window with an index below \<open>num_layers\<close>.
\<close>

theorem windows_cover:
  assumes "unat tot + LB < 2 ^ 64" and "x < unat tot"
  shows "\<exists>!i. i < unat (num_layers tot) \<and> i * LB \<le> x \<and> x < i * LB + min LB (unat tot - i * LB)"
proof (rule ex1I[of _ "x div LB"])
  have "x div LB * LB \<le> x" "x < x div LB * LB + LB"
    using dividend_less_div_times[OF LB_pos, of x] by simp_all
  moreover have "x div LB < unat (num_layers tot)"
    using le_less_trans[OF calculation(1) assms(2)] index_below_layers[OF assms(1)] by simp
  moreover have "x < x div LB * LB + (unat tot - x div LB * LB)"
    using le_less_trans[OF calculation(1) assms(2)] assms(2) by linarith
  ultimately show "x div LB < unat (num_layers tot) \<and> x div LB * LB \<le> x \<and>
      x < x div LB * LB + min LB (unat tot - x div LB * LB)" by (simp add: min_def)
next
  fix i assume "i < unat (num_layers tot) \<and> i * LB \<le> x \<and> x < i * LB + min LB (unat tot - i * LB)"
  then have lo: "i * LB \<le> x" and "x < i * LB + min LB (unat tot - i * LB)" by simp_all
  then have "x < i * LB + LB" by linarith
  then have "x div LB = i" using lo by (intro div_nat_eqI) (simp_all add: mult.commute)
  then show "i = x div LB" by simp
qed

text \<open>
  Prefetching is memory safe under every interleaving: whatever the thread, its wake-ups
  and the owner's calls do, each range it advises on is a window of the mapping.
\<close>

theorem prefetch_in_mapping:
  assumes "unat tot + LB < 2 ^ 64" and "pf_run (prefetcher_spawn base tot) as q"
  shows "\<forall>w\<in>set (pf_log q). window_ok base tot w"
  using pf_inv_run[OF assms(2,1) pf_inv_spawn] by (simp add: pf_inv_def)

text \<open>
  C18: shutdown terminates: once the stop flag is up the thread makes at most seven more steps,
  whatever the owner does meanwhile, it can always go on until it has exited, and then the
  join returns.
\<close>

theorem prefetch_shutdown:
  assumes "pf_stop p" and "pf_handle p"
  shows "(\<forall>as q. pf_run p as q \<longrightarrow> length (filter (\<lambda>a. a = Thread) as) \<le> 7) \<and>
    (\<exists>n q. pf_run p (replicate n Thread @ [Join]) q \<and> \<not> pf_handle q)"
proof (intro conjI allI impI)
  have r: "pc_rank pc \<le> 7" for pc by (cases pc) auto
  show "length (filter (\<lambda>a. a = Thread) as) \<le> 7" if "pf_run p as q" for as q
    using pf_run_rank[OF that assms(1)] r[of "pf_pc p"] by linarith
  obtain n q where q: "pf_run p (replicate n Thread) q" "pf_pc q = Exited"
    using thread_exits[OF assms(1)] by auto
  have "pf_handle q = pf_handle p" by (rule threads_keep_handle[OF q(1)]) simp
  then have "pf_step q Join (join_handle q)"
    using q pf_run_rank[OF q(1) assms(1)] assms(2) by (intro pf_join) auto
  from pf_snoc[OF q(1) this] show "\<exists>n q. pf_run p (replicate n Thread @ [Join]) q \<and> \<not> pf_handle q"
    by (intro exI conjI) (assumption, simp add: join_handle_def)
qed

text \<open>
  C34: opening a model file leaks nothing: on every error path the open descriptors and the
  mappings are those of before, on success there is exactly one more of each, and dropping
  the mapper takes both away again.
\<close>

theorem file_mapper_no_leak:
  "case file_mapper_open env path s of
     (Ret fm, s') \<Rightarrow> os_fds s' = fm_fd fm # os_fds s \<and> os_maps s' = (fm_ptr fm, fm_total fm) # os_maps s \<and>
        fm_total fm \<noteq> 0 \<and> os_log s' = os_log s \<and>
        snd (file_mapper_drop fm s') = s
   | (Fail e, s') \<Rightarrow> s' = s
   | (Panic, s') \<Rightarrow> False"
  by (simp add: file_mapper_open_def safe_open_def file_size_def safe_mmap_def map_pages_def
      close_on_err_def close_fd_def bnd_def file_mapper_drop_def munmap_def Let_def
      split: option.split)

text \<open>
  A call that passes one piece of advice on window \<open>i\<close> of the mapping of \<open>tot\<close> bytes at
  \<open>base\<close>: the window's address and length, no more than the mapping holds, and nothing at all
  for a window beyond its end.
\<close>

definition advises :: "usize \<Rightarrow> usize \<Rightarrow> nat \<Rightarrow> int \<Rightarrow> unit os_act \<Rightarrow> os \<Rightarrow> bool" where
  "advises base tot i advice m s \<longleftrightarrow>
     (if i * LB < unat tot
      then (\<exists>len. snd (m s) = s\<lparr>os_log := os_log s @ [(base + of_nat (i * LB), len, advice)]\<rparr> \<and>
             unat len = min LB (unat tot - i * LB) \<and> i * LB + unat len \<le> unat tot) \<and>
           (fst (m s) = Ret () \<or> fst (m s) = Fail AdviseError)
      else m s = (Ret (), s))"

text \<open>
  C40: eviction and prefetching by index stay inside the mapping. For an index whose byte offset
  does not overflow, eviction advises \<^verbatim>\<open>MADV_DONTNEED\<close> and prefetching \<^verbatim>\<open>MADV_WILLNEED\<close>, each
  once, on exactly the window of that index (its address, and the window size or what is left
  of the file), or on nothing beyond the file's end; nothing else of the process changes.
\<close>

theorem advice_in_mapping:
  assumes "unat idx * LB < 2 ^ 64"
  shows "advises (fm_ptr fm) (fm_total fm) (unat idx) MADV_DONTNEED (evict_layer env fm idx) s \<and>
    advises (fm_ptr fm) (fm_total fm) (unat idx) MADV_WILLNEED (prefetch_layer env fm idx) s"
proof -
  let ?o = "idx * LAYER_SIZE_BYTES" and ?tot = "fm_total fm"
  have o: "unat ?o = unat idx * LB" by (rule layer_offset[OF assms])
  have addr: "fm_ptr fm + ?o = fm_ptr fm + of_nat (unat idx * LB)"
    by (simp add: LAYER_SIZE_BYTES_def LB_def)
  have none: "?tot \<le> ?o \<longleftrightarrow> \<not> unat idx * LB < unat ?tot" using o by (simp add: word_le_nat_alt not_less)
  have "unat (min LAYER_SIZE_BYTES (?tot - ?o)) = min LB (unat ?tot - unat idx * LB)" if "unat idx * LB < unat ?tot"
    using that o by (auto simp: min_def word_le_nat_alt unat_sub LB_def LAYER_SIZE_BYTES_def)
  then show ?thesis
    unfolding advises_def evict_layer_def prefetch_layer_def Let_def none addr
    by (auto simp: safe_madvise_def Let_def)
qed

section \<open>Witnesses\<close>

theorem windows_cover_witness:
  "\<exists>!i. i < 2 \<and> i * 524288000 \<le> 550000000 \<and>
     550000000 < i * 524288000 + min 524288000 (600000000 - i * (524288000 :: nat))"
  using windows_cover[of 600000000 550000000] by (simp add: LB_def unat_num_layers)

definition demo_thread :: "nat \<Rightarrow> prefetcher" where
  "demo_thread n = (thread_step ^^ n) (prefetcher_spawn 4096 1200000000)"

lemma demo_layers: "num_layers 1200000000 = 3"
  by (simp add: num_layers_def LAYER_SIZE_BYTES_def)

lemma demo_simps:
  "demo_thread 0 = prefetcher_spawn 4096 1200000000" "demo_thread (Suc n) = thread_step (demo_thread n)"
  by (simp_all add: demo_thread_def)

lemma demo_pcs:
  "pf_pc (demo_thread 0) = Waiting" "pf_pc (demo_thread (Suc 0)) = Woken"
  "pf_pc (demo_thread (Suc (Suc 0))) = Loading" "pf_pc (demo_thread (Suc (Suc (Suc 0)))) = Advising 0 1"
  "length (pf_log (demo_thread (Suc (Suc (Suc (Suc 0)))))) = 1"
  by (simp_all add: demo_simps prefetcher_spawn_def demo_layers thread_step_def PREFETCH_DEPTH_def Let_def
      word_le_nat_alt)

lemma demo_next:
  "pf_run (demo_thread 0) as (demo_thread n) \<Longrightarrow> pf_pc (demo_thread n) \<noteq> Exited \<Longrightarrow>
     pf_run (demo_thread 0) (as @ [Thread]) (demo_thread (Suc n))"
  using pf_snoc[OF _ pf_thread] by (simp add: demo_simps(2))

theorem prefetch_in_mapping_witness:
  "\<exists>q. pf_run (prefetcher_spawn 4096 1200000000) [Thread, Thread, Thread, Thread] q \<and>
     length (pf_log q) = 1 \<and> (\<forall>w\<in>set (pf_log q). window_ok 4096 1200000000 w)"
proof -
  have "pf_run (demo_thread 0) (((([] @ [Thread]) @ [Thread]) @ [Thread]) @ [Thread])
      (demo_thread (Suc (Suc (Suc (Suc 0)))))"
    by (intro demo_next pf_refl) (simp_all add: demo_pcs)
  then have run: "pf_run (prefetcher_spawn 4096 1200000000) [Thread, Thread, Thread, Thread]
      (demo_thread (Suc (Suc (Suc (Suc 0)))))" by (simp add: demo_simps(1))
  have "\<forall>w\<in>set (pf_log (demo_thread (Suc (Suc (Suc (Suc 0)))))). window_ok 4096 1200000000 w"
    by (rule prefetch_in_mapping[OF _ run]) (simp add: LB_def)
  with run demo_pcs(5) show ?thesis by blast
qed

theorem prefetch_shutdown_witness:
  "\<exists>n q. pf_run (raise_stop (prefetcher_spawn 4096 1200000000)) (replicate n Thread @ [Join]) q \<and> \<not> pf_handle q"
  using prefetch_shutdown[of "raise_stop (prefetcher_spawn 4096 1200000000)"]
  by (simp add: raise_stop_def prefetcher_spawn_def)

theorem advice_in_mapping_witness:
  "\<exists>len. os_log (snd (prefetch_layer \<lparr>oe_open = \<lambda>_ _. 3, oe_size = \<lambda>_ _. None, oe_mmap = \<lambda>_ _ _ _. None, oe_advise = \<lambda>_ _. True\<rparr>
      \<lparr>fm_fd = 3, fm_ptr = 4096, fm_total = 600000000\<rparr> 1 \<lparr>os_fds = [3], os_maps = [(4096, 600000000)], os_log = []\<rparr>)) =
      [(4096 + 524288000, len, MADV_WILLNEED)] \<and> unat len = 75712000"
  using advice_in_mapping[of 1 "\<lparr>fm_fd = 3, fm_ptr = 4096, fm_total = 600000000\<rparr>"
      "\<lparr>oe_open = \<lambda>_ _. 3, oe_size = \<lambda>_ _. None, oe_mmap = \<lambda>_ _ _ _. None, oe_advise = \<lambda>_ _. True\<rparr>"
      "\<lparr>os_fds = [3], os_maps = [(4096, 600000000)], os_log = []\<rparr>"]
  by (auto simp: advises_def LB_def)


text \<open>
  C17: the thread never outlives the mapping: in every state the mapper can reach, whatever the
  interleaving of the thread with the owner, its eviction calls, an explicit shutdown or a plain
  drop, every range the thread advised on is a window of the mapping, the file is still mapped as
  long as the thread has not exited, and once the owner is done the thread has exited and the
  process holds exactly the descriptors and mappings of before.
\<close>

theorem no_advice_after_unmap:
  assumes "inference_mapper_new env path before = (Ret im, o')"
    and "unat (fm_total (im_mapper im)) + LB < 2 ^ 64"
    and "im_reach env (im_started im o') s"
  shows "(\<forall>w\<in>set (pf_log (im_prefetcher (is_im s))). window_ok (fm_ptr (im_mapper im)) (fm_total (im_mapper im)) w) \<and>
    (pf_pc (im_prefetcher (is_im s)) \<noteq> Exited \<longrightarrow>
       (fm_ptr (im_mapper im), fm_total (im_mapper im)) \<in> set (os_maps (is_os s))) \<and>
    (is_owner s = Gone \<longrightarrow> pf_pc (im_prefetcher (is_im s)) = Exited \<and>
       os_fds (is_os s) = os_fds before \<and> os_maps (is_os s) = os_maps before)"
proof -
  have "im_inv before s \<and> im_mapper (is_im s) = im_mapper (is_im (im_started im o'))"
    using assms(2) by (intro im_inv_reach[OF assms(3) im_inv_new[OF assms(1)]]) (simp add: im_started_def)
  then show ?thesis by (auto simp: im_inv_def im_started_def pf_inv_def Let_def split: if_splits)
qed

text \<open>The whole life of a mapper on a small file: opened, prefetched, dropped.\<close>

definition demo_env :: os_env where
  "demo_env = \<lparr>oe_open = \<lambda>_ _. 3, oe_size = \<lambda>_ _. Some 1000, oe_mmap = \<lambda>_ _ huge _. if huge then None else Some 4096,
     oe_advise = \<lambda>_ _. True\<rparr>"

definition no_files :: os where
  "no_files = \<lparr>os_fds = [], os_maps = [], os_log = []\<rparr>"

definition demo_im :: inference_mapper where
  "demo_im = \<lparr>im_mapper = \<lparr>fm_fd = 3, fm_ptr = 4096, fm_total = 1000\<rparr>, im_prefetcher = prefetcher_spawn 4096 1000\<rparr>"

definition demo_os :: os where
  "demo_os = \<lparr>os_fds = [3], os_maps = [(4096, 1000)], os_log = [(4096, 1000, MADV_WILLNEED)]\<rparr>"

lemma demo_new: "inference_mapper_new demo_env ''m.gguf'' no_files = (Ret demo_im, demo_os)"
  by (simp add: inference_mapper_new_def file_mapper_open_def safe_open_def file_size_def safe_mmap_def map_pages_def
      close_on_err_def bnd_def Let_def demo_env_def no_files_def demo_im_def demo_os_def num_layers_def LAYER_SIZE_BYTES_def
      PREFETCH_DEPTH_def ignore_err_def prefetch_layer_def safe_madvise_def ret_def)

lemma demo_life: "\<exists>s. im_reach demo_env (im_started demo_im demo_os) s \<and> is_owner s = Gone"
proof -
  let ?s0 = "im_started demo_im demo_os"
  let ?s1 = "on_prefetcher thread_step ?s0"
  let ?s2 = "on_prefetcher raise_stop ?s1\<lparr>is_owner := Joining False\<rparr>"
  let ?s3 = "on_prefetcher thread_step ?s2"
  let ?s4 = "after_join False (on_prefetcher join_handle ?s3)"
  note d = on_prefetcher_def im_started_def demo_im_def prefetcher_spawn_def thread_step_def raise_stop_def join_handle_def
    after_join_def
  have "im_reach demo_env ?s0 ?s1" by (rule im_next[OF im_here im_thread]) (simp add: d)
  then have "im_reach demo_env ?s0 ?s2" by (rule im_next[OF _ im_end]) (simp add: d)
  then have "im_reach demo_env ?s0 ?s3" by (rule im_next[OF _ im_thread]) (simp add: d)
  then have "im_reach demo_env ?s0 ?s4" by (rule im_next[OF _ im_join]) (simp_all add: d)
  moreover obtain r o' where "file_mapper_drop (im_mapper (is_im ?s4)) (is_os ?s4) = (r, o')" by fastforce
  moreover have "is_owner ?s4 = Unmapping" by (simp add: d)
  ultimately have "im_reach demo_env ?s0 (?s4\<lparr>is_os := o', is_owner := Gone\<rparr>)"
    by (blast intro: im_next im_unmap)
  then show ?thesis by (intro exI conjI) (assumption, simp)
qed

theorem no_advice_after_unmap_witness:
  "\<exists>s. im_reach demo_env (im_started demo_im demo_os) s \<and> is_owner s = Gone \<and> os_fds (is_os s) = [] \<and> os_maps (is_os s) = []"
proof -
  obtain s where s: "im_reach demo_env (im_started demo_im demo_os) s" "is_owner s = Gone" using demo_life by auto
  have "unat (fm_total (im_mapper demo_im)) + LB < 2 ^ 64" by (simp add: demo_im_def LB_def)
  from no_advice_after_unmap[OF demo_new this s(1)] s show ?thesis by (auto simp: no_files_def)
qed

end
