(* ===== verification/Ggml.thy ===== *)
theory Ggml imports Prelude Ieee_Float begin

text \<open>
  The part of the vendored ggml library that the engine calls, as declared in
  \<^verbatim>\<open>src/src/ggml_ffi.rs\<close>: tensor descriptors with their shapes, strides and views, the
  checks (\<^verbatim>\<open>GGML_ASSERT\<close>) each graph operation makes of its operands, buffers, and the
  ledger of live contexts, buffers and allocators. A failed check aborts the process and is
  \<open>Panic\<close>. What a computation yields is a parameter, and so is which allocations succeed.
\<close>

section \<open>Tensor descriptors\<close>

datatype dims = D4 (d0: int) (d1: int) (d2: int) (d3: int)

record tensor =
  tn_id :: nat
  tn_type :: int
  tn_ne :: dims
  tn_nb :: dims
  tn_root :: nat
  tn_offs :: int
  tn_root_bytes :: int

text \<open>Elements per block and bytes per block of the types the loader admits.\<close>

definition blck_size :: "int \<Rightarrow> int" where
  "blck_size ty =
     (if ty \<in> {2, 3, 6, 7, 8, 9} then 32 else if ty \<in> {10, 11, 12, 13, 14, 15} then 256 else 1)"

definition type_size :: "int \<Rightarrow> int" where
  "type_size ty =
     (if ty = 0 \<or> ty = 26 then 4 else if ty = 1 \<or> ty = 30 then 2
      else if ty = 2 then 18 else if ty = 3 then 20 else if ty = 6 then 22 else if ty = 7 then 24
      else if ty = 8 then 34 else if ty = 9 then 36 else if ty = 10 then 84 else if ty = 11 then 110
      else if ty = 12 then 144 else if ty = 13 then 176 else if ty = 14 then 210 else 292)"

fun strides :: "int \<Rightarrow> dims \<Rightarrow> dims" where
  "strides ty (D4 a b c d) =
     (let s = type_size ty; r = s * (a div blck_size ty) in D4 s r (r * b) (r * b * c))"

definition nbytes_of :: "int \<Rightarrow> dims \<Rightarrow> dims \<Rightarrow> int" where
  "nbytes_of ty ne nb =
     (if blck_size ty = 1
      then type_size ty + (d0 ne - 1) * d0 nb + (d1 ne - 1) * d1 nb + (d2 ne - 1) * d2 nb + (d3 ne - 1) * d3 nb
      else d0 ne * d0 nb div blck_size ty + (d1 ne - 1) * d1 nb + (d2 ne - 1) * d2 nb + (d3 ne - 1) * d3 nb)"

definition nbytes :: "tensor \<Rightarrow> int" where
  "nbytes t = nbytes_of (tn_type t) (tn_ne t) (tn_nb t)"

definition nelements :: "tensor \<Rightarrow> int" where
  "nelements t = d0 (tn_ne t) * d1 (tn_ne t) * d2 (tn_ne t) * d3 (tn_ne t)"

definition data_size :: "int \<Rightarrow> dims \<Rightarrow> int" where
  "data_size ty ne = type_size ty * d0 ne div blck_size ty * d1 ne * d2 ne * d3 ne"

text \<open>A tensor of its own, and a view of another tensor's data.\<close>

definition fresh_tensor :: "nat \<Rightarrow> int \<Rightarrow> dims \<Rightarrow> tensor" where
  "fresh_tensor i ty ne =
     \<lparr>tn_id = i, tn_type = ty, tn_ne = ne, tn_nb = strides ty ne, tn_root = i, tn_offs = 0,
      tn_root_bytes = nbytes_of ty ne (strides ty ne)\<rparr>"

definition view_tensor :: "nat \<Rightarrow> tensor \<Rightarrow> dims \<Rightarrow> dims \<Rightarrow> int \<Rightarrow> tensor" where
  "view_tensor i a ne nb offs =
     \<lparr>tn_id = i, tn_type = tn_type a, tn_ne = ne, tn_nb = nb, tn_root = tn_root a,
      tn_offs = tn_offs a + offs, tn_root_bytes = tn_root_bytes a\<rparr>"

definition view_fits :: "tensor \<Rightarrow> dims \<Rightarrow> int \<Rightarrow> bool" where
  "view_fits a ne offs \<longleftrightarrow>
     data_size (tn_type a) ne = 0 \<or> data_size (tn_type a) ne + (tn_offs a + offs) \<le> tn_root_bytes a"

section \<open>Shape checks\<close>

definition is_empty :: "dims \<Rightarrow> bool" where
  "is_empty ne \<longleftrightarrow> d0 ne = 0 \<or> d1 ne = 0 \<or> d2 ne = 0 \<or> d3 ne = 0"

text \<open>The contiguity test from dimension \<open>n\<close> on; unit dimensions do not count.\<close>

definition contig_step :: "bool \<Rightarrow> int \<Rightarrow> int \<Rightarrow> bool \<times> int \<Rightarrow> bool \<times> int" where
  "contig_step strict ne nb s =
     (if ne = 1 then s
      else if strict then (fst s \<and> nb = snd s, snd s * ne)
      else (fst s, ne * nb))"

definition is_contiguous_n :: "nat \<Rightarrow> tensor \<Rightarrow> bool" where
  "is_contiguous_n n t =
     (let ty = tn_type t; ne = tn_ne t; nb = tn_nb t in
      (d0 ne = blck_size ty \<or> d0 nb = type_size ty) \<and>
      fst (contig_step True (d3 ne) (d3 nb)
            (contig_step True (d2 ne) (d2 nb)
              (contig_step (n < 1) (d1 ne) (d1 nb) (True, type_size ty * (d0 ne div blck_size ty))))))"

abbreviation "is_contiguous \<equiv> is_contiguous_n 0"

definition is_transposed :: "tensor \<Rightarrow> bool" where
  "is_transposed t \<longleftrightarrow> d0 (tn_nb t) > d1 (tn_nb t)"

definition is_padded_1d :: "tensor \<Rightarrow> bool" where
  "is_padded_1d t \<longleftrightarrow>
     d0 (tn_nb t) = type_size (tn_type t) \<and> d2 (tn_nb t) = d1 (tn_nb t) * d1 (tn_ne t) \<and>
     d3 (tn_nb t) = d2 (tn_nb t) * d2 (tn_ne t)"

definition can_mul_mat :: "tensor \<Rightarrow> tensor \<Rightarrow> bool" where
  "can_mul_mat a b \<longleftrightarrow>
     d0 (tn_ne a) = d0 (tn_ne b) \<and>
     d2 (tn_ne a) \<noteq> 0 \<and> d2 (tn_ne b) mod d2 (tn_ne a) = 0 \<and>
     d3 (tn_ne a) \<noteq> 0 \<and> d3 (tn_ne b) mod d3 (tn_ne a) = 0"

definition can_repeat :: "tensor \<Rightarrow> tensor \<Rightarrow> bool" where
  "can_repeat a b \<longleftrightarrow>
     (if is_empty (tn_ne a) then is_empty (tn_ne b)
      else d0 (tn_ne b) mod d0 (tn_ne a) = 0 \<and> d1 (tn_ne b) mod d1 (tn_ne a) = 0 \<and>
           d2 (tn_ne b) mod d2 (tn_ne a) = 0 \<and> d3 (tn_ne b) mod d3 (tn_ne a) = 0)"

section \<open>The library's state\<close>

datatype gop =
    OpNone | OpGetRows | OpRmsNorm f32 | OpMul | OpAdd | OpMulMat | OpScale f32 | OpSilu
  | OpCont | OpCpy | OpSoftMax f32 f32 | OpRope "f32 list" "int list" | OpReshape | OpPermute
  | OpView

datatype resource = RBackend nat | RContext nat | RBuffer nat | RGallocr nat | RDoubleFree

text \<open>
  \<open>w_next\<close> numbers tensors and resources; \<open>w_live\<close> lists the resources not yet freed, with a
  mark \<open>RDoubleFree\<close> for each that was freed without being live;
  \<open>w_mem\<close> is the data of the tensors that own some, as 4-byte words; \<open>w_nodes\<close> lists the
  operations recorded so far with their operands; \<open>w_vals\<close> holds the node values that the
  last computation left.
\<close>

record world =
  w_next :: nat
  w_live :: "resource list"
  w_mem :: "nat \<Rightarrow> u32 list"
  w_nodes :: "(nat \<times> gop \<times> nat list) list"
  w_vals :: "nat \<Rightarrow> u32 list"

text \<open>
  The parameters: which of the numbered allocations succeed, the base address of a buffer,
  the status of a computation, how many copies a failed one performed, and the words that a
  node's value has, given the recorded operations and the data.
\<close>

record ggml_env =
  ge_alloc :: "nat \<Rightarrow> bool"
  ge_base :: "nat \<Rightarrow> int"
  ge_status :: "nat \<Rightarrow> int"
  ge_done :: "nat \<Rightarrow> nat"
  ge_eval :: "(nat \<times> gop \<times> nat list) list \<Rightarrow> (nat \<Rightarrow> u32 list) \<Rightarrow> nat \<Rightarrow> u32 list"

type_synonym ('a, 'e) act = "(world, 'a, 'e) sm"

definition gassert :: "bool \<Rightarrow> ('a, 'e) act \<Rightarrow> ('a, 'e) act" where
  "gassert c m = (if c then m else abort)"

section \<open>Resources\<close>

definition acquire :: "ggml_env \<Rightarrow> (nat \<Rightarrow> resource) \<Rightarrow> (nat option, 'e) act" where
  "acquire env kind w =
     (let i = w_next w in
      if ge_alloc env i
      then (Ret (Some i), w\<lparr>w_next := Suc i, w_live := kind i # w_live w\<rparr>)
      else (Ret None, w\<lparr>w_next := Suc i\<rparr>))"

definition release :: "resource \<Rightarrow> (unit, 'e) act" where
  "release r w =
     (Ret (), w\<lparr>w_live := (if r \<in> set (w_live w) then remove1 r (w_live w) else RDoubleFree # w_live w)\<rparr>)"

text \<open>A buffer handle carries its size, which the library pads by its alignment.\<close>

record buffer =
  bf_id :: nat
  bf_base :: int
  bf_size :: int

definition ggml_backend_alloc_buffer :: "ggml_env \<Rightarrow> int \<Rightarrow> (buffer option, 'e) act" where
  "ggml_backend_alloc_buffer env sz =
     bnd (acquire env RBuffer) (\<lambda>r. ret (map_option (\<lambda>i. \<lparr>bf_id = i, bf_base = ge_base env i, bf_size = sz + 32\<rparr>) r))"

text \<open>A buffer around memory the caller owns.\<close>

definition ggml_backend_cpu_buffer_from_ptr :: "ggml_env \<Rightarrow> int \<Rightarrow> int \<Rightarrow> (buffer option, 'e) act" where
  "ggml_backend_cpu_buffer_from_ptr env ptr sz =
     gassert (ptr mod 32 = 0)
       (bnd (acquire env RBuffer) (\<lambda>r. ret (map_option (\<lambda>i. \<lparr>bf_id = i, bf_base = ptr, bf_size = sz\<rparr>) r)))"

definition ggml_init :: "ggml_env \<Rightarrow> (nat option, 'e) act" where
  "ggml_init env = acquire env RContext"

definition ggml_gallocr_new :: "ggml_env \<Rightarrow> (nat option, 'e) act" where
  "ggml_gallocr_new env = acquire env RGallocr"

definition ggml_gallocr_alloc_graph :: "ggml_env \<Rightarrow> (bool, 'e) act" where
  "ggml_gallocr_alloc_graph env w = (Ret (ge_alloc env (w_next w)), w\<lparr>w_next := Suc (w_next w)\<rparr>)"

definition ggml_free :: "nat \<Rightarrow> (unit, 'e) act" where
  "ggml_free c = release (RContext c)"

definition ggml_backend_buffer_free :: "buffer \<Rightarrow> (unit, 'e) act" where
  "ggml_backend_buffer_free b = release (RBuffer (bf_id b))"

definition ggml_gallocr_free :: "nat \<Rightarrow> (unit, 'e) act" where
  "ggml_gallocr_free g = release (RGallocr g)"

section \<open>Operations\<close>

definition new_node :: "gop \<Rightarrow> nat list \<Rightarrow> (nat \<Rightarrow> tensor) \<Rightarrow> (tensor, 'e) act" where
  "new_node op srcs mk w =
     (Ret (mk (w_next w)),
      w\<lparr>w_next := Suc (w_next w), w_nodes := w_nodes w @ [(w_next w, op, srcs)]\<rparr>)"

definition ggml_new_tensor :: "int \<Rightarrow> dims \<Rightarrow> (tensor, 'e) act" where
  "ggml_new_tensor ty ne = new_node OpNone [] (\<lambda>i. fresh_tensor i ty ne)"

definition dup_node :: "gop \<Rightarrow> nat list \<Rightarrow> tensor \<Rightarrow> (tensor, 'e) act" where
  "dup_node op srcs a = new_node op srcs (\<lambda>i. fresh_tensor i (tn_type a) (tn_ne a))"

definition ggml_get_rows :: "tensor \<Rightarrow> tensor \<Rightarrow> (tensor, 'e) act" where
  "ggml_get_rows a b =
     gassert (d2 (tn_ne a) = d1 (tn_ne b) \<and> d3 (tn_ne b) = 1 \<and> tn_type b = 26)
       (new_node OpGetRows [tn_id a, tn_id b]
         (\<lambda>i. fresh_tensor i (if tn_type a = 26 then 26 else 0)
                (D4 (d0 (tn_ne a)) (d0 (tn_ne b)) (d1 (tn_ne b)) (d2 (tn_ne b)))))"

definition ggml_rms_norm :: "tensor \<Rightarrow> f32 \<Rightarrow> (tensor, 'e) act" where
  "ggml_rms_norm a eps = dup_node (OpRmsNorm eps) [tn_id a] a"

definition ggml_mul :: "tensor \<Rightarrow> tensor \<Rightarrow> (tensor, 'e) act" where
  "ggml_mul a b = gassert (can_repeat b a) (dup_node OpMul [tn_id a, tn_id b] a)"

definition ggml_add :: "tensor \<Rightarrow> tensor \<Rightarrow> (tensor, 'e) act" where
  "ggml_add a b = gassert (can_repeat b a) (dup_node OpAdd [tn_id a, tn_id b] a)"

definition ggml_mul_mat :: "tensor \<Rightarrow> tensor \<Rightarrow> (tensor, 'e) act" where
  "ggml_mul_mat a b =
     gassert (can_mul_mat a b \<and> \<not> is_transposed a)
       (new_node OpMulMat [tn_id a, tn_id b]
         (\<lambda>i. fresh_tensor i 0 (D4 (d1 (tn_ne a)) (d1 (tn_ne b)) (d2 (tn_ne b)) (d3 (tn_ne b)))))"

definition ggml_scale :: "tensor \<Rightarrow> f32 \<Rightarrow> (tensor, 'e) act" where
  "ggml_scale a s = gassert (is_padded_1d a) (dup_node (OpScale s) [tn_id a] a)"

definition ggml_silu :: "tensor \<Rightarrow> (tensor, 'e) act" where
  "ggml_silu a = gassert (is_contiguous_n 1 a) (dup_node OpSilu [tn_id a] a)"

definition ggml_cont :: "tensor \<Rightarrow> (tensor, 'e) act" where
  "ggml_cont a = dup_node OpCont [tn_id a] a"

definition ggml_reshape :: "tensor \<Rightarrow> dims \<Rightarrow> (tensor, 'e) act" where
  "ggml_reshape a ne =
     gassert (is_contiguous a \<and> nelements a = d0 ne * d1 ne * d2 ne * d3 ne \<and> view_fits a ne 0)
       (new_node OpReshape [tn_id a] (\<lambda>i. view_tensor i a ne (strides (tn_type a) ne) 0))"

definition ggml_reshape_2d :: "tensor \<Rightarrow> int \<Rightarrow> int \<Rightarrow> (tensor, 'e) act" where
  "ggml_reshape_2d a ne0 ne1 = ggml_reshape a (D4 ne0 ne1 1 1)"

definition ggml_reshape_3d :: "tensor \<Rightarrow> int \<Rightarrow> int \<Rightarrow> int \<Rightarrow> (tensor, 'e) act" where
  "ggml_reshape_3d a ne0 ne1 ne2 = ggml_reshape a (D4 ne0 ne1 ne2 1)"

definition ggml_view_1d :: "tensor \<Rightarrow> int \<Rightarrow> int \<Rightarrow> (tensor, 'e) act" where
  "ggml_view_1d a ne0 offset =
     (let ne = D4 ne0 1 1 1 in
      gassert (view_fits a ne offset)
        (new_node OpView [tn_id a] (\<lambda>i. view_tensor i a ne (strides (tn_type a) ne) offset)))"

definition ggml_view_2d :: "tensor \<Rightarrow> int \<Rightarrow> int \<Rightarrow> int \<Rightarrow> int \<Rightarrow> (tensor, 'e) act" where
  "ggml_view_2d a ne0 ne1 nb1 offset =
     (let ne = D4 ne0 ne1 1 1 in
      gassert (view_fits a ne offset)
        (new_node OpView [tn_id a]
          (\<lambda>i. view_tensor i a ne (D4 (type_size (tn_type a)) nb1 (nb1 * ne1) (nb1 * ne1)) offset)))"

text \<open>Axis \<open>i\<close> of the operand becomes axis \<open>p i\<close> of the result.\<close>

definition ggml_permute_0213 :: "tensor \<Rightarrow> (tensor, 'e) act" where
  "ggml_permute_0213 a =
     gassert (view_fits a (tn_ne a) 0)
       (let ne = tn_ne a; nb = tn_nb a in
        new_node OpPermute [tn_id a]
          (\<lambda>i. view_tensor i a (D4 (d0 ne) (d2 ne) (d1 ne) (d3 ne)) (D4 (d0 nb) (d2 nb) (d1 nb) (d3 nb)) 0))"

definition ggml_permute_1203 :: "tensor \<Rightarrow> (tensor, 'e) act" where
  "ggml_permute_1203 a =
     gassert (view_fits a (tn_ne a) 0)
       (let ne = tn_ne a; nb = tn_nb a in
        new_node OpPermute [tn_id a]
          (\<lambda>i. view_tensor i a (D4 (d2 ne) (d0 ne) (d1 ne) (d3 ne)) (D4 (d2 nb) (d0 nb) (d1 nb) (d3 nb)) 0))"

definition ggml_soft_max_ext :: "tensor \<Rightarrow> tensor option \<Rightarrow> f32 \<Rightarrow> f32 \<Rightarrow> (tensor, 'e) act" where
  "ggml_soft_max_ext a msk scale max_bias =
     gassert (is_contiguous a \<and>
         (case msk of
            None \<Rightarrow> \<not> max_bias > 0
          | Some m \<Rightarrow> (tn_type m = 0 \<or> tn_type m = 1) \<and> is_contiguous m \<and>
              d2 (tn_ne m) = 1 \<and> d3 (tn_ne m) = 1 \<and> d0 (tn_ne m) = d0 (tn_ne a) \<and> d1 (tn_ne m) \<ge> d1 (tn_ne a)))
       (dup_node (OpSoftMax scale max_bias)
         (tn_id a # (case msk of None \<Rightarrow> [] | Some m \<Rightarrow> [tn_id m])) a)"

definition ggml_rope_ext :: "tensor \<Rightarrow> tensor \<Rightarrow> int \<Rightarrow> int \<Rightarrow> int \<Rightarrow> f32 list \<Rightarrow> (tensor, 'e) act" where
  "ggml_rope_ext a b n_dims mode n_ctx_orig params =
     gassert (even mode \<and> d1 (tn_ne b) = 1 \<and> d2 (tn_ne b) = 1 \<and> d3 (tn_ne b) = 1 \<and>
         tn_type b = 26 \<and> d2 (tn_ne a) = d0 (tn_ne b))
       (dup_node (OpRope params [n_dims, mode, n_ctx_orig]) [tn_id a, tn_id b] a)"

definition ggml_cpy :: "tensor \<Rightarrow> tensor \<Rightarrow> (tensor, 'e) act" where
  "ggml_cpy a b =
     gassert (nelements a = nelements b \<and> view_fits b (tn_ne b) 0)
       (new_node OpCpy [tn_id a, tn_id b] (\<lambda>i. view_tensor i b (tn_ne b) (tn_nb b) 0))"

section \<open>Data\<close>

text \<open>Words \<open>off\<close> and on are replaced; the list keeps its length.\<close>

definition overwrite :: "'a list \<Rightarrow> nat \<Rightarrow> 'a list \<Rightarrow> 'a list" where
  "overwrite xs off ys = take (length xs) (take off xs @ ys @ drop (off + length ys) xs)"

text \<open>Placing a tensor in a buffer gives it its data; what it holds before a write is taken as zero.\<close>

definition ggml_backend_tensor_alloc :: "buffer \<Rightarrow> tensor \<Rightarrow> int \<Rightarrow> (unit, 'e) act" where
  "ggml_backend_tensor_alloc b t addr =
     gassert (bf_base b \<le> addr \<and> addr + nbytes t \<le> bf_base b + bf_size b)
       (\<lambda>w. (Ret (), w\<lparr>w_mem := (w_mem w)(tn_root t := replicate (nat (nbytes t) div 4) 0)\<rparr>))"

definition ggml_backend_tensor_set :: "tensor \<Rightarrow> u32 list \<Rightarrow> int \<Rightarrow> int \<Rightarrow> (unit, 'e) act" where
  "ggml_backend_tensor_set t ws offset sz =
     gassert (offset + sz \<le> nbytes t)
       (\<lambda>w. (Ret (), w\<lparr>w_mem := (w_mem w)(tn_root t :=
          overwrite (w_mem w (tn_root t)) (nat (tn_offs t + offset) div 4) (take (nat sz div 4) ws))\<rparr>))"

text \<open>Reading the first \<open>sz\<close> bytes of a computed node; a value has the words its shape says.\<close>

definition fit :: "nat \<Rightarrow> u32 list \<Rightarrow> u32 list" where
  "fit n xs = take n (xs @ replicate n 0)"

definition ggml_backend_tensor_get :: "tensor \<Rightarrow> int \<Rightarrow> (u32 list, 'e) act" where
  "ggml_backend_tensor_get t sz =
     gassert (sz \<le> nbytes t) (\<lambda>w. (Ret (fit (nat sz div 4) (w_vals w (tn_id t))), w))"

text \<open>
  Computing a graph performs its copies in order: the destination's words become the value
  of the source as the whole computation determines it.
\<close>

record copy_op =
  cp_src :: tensor
  cp_dst :: tensor

fun do_copies :: "(nat \<Rightarrow> u32 list) \<Rightarrow> copy_op list \<Rightarrow> (nat \<Rightarrow> u32 list) \<Rightarrow> nat \<Rightarrow> u32 list" where
  "do_copies val [] mem = mem"
| "do_copies val (c # cs) mem =
     do_copies val cs
       (mem(tn_root (cp_dst c) :=
          overwrite (mem (tn_root (cp_dst c))) (nat (tn_offs (cp_dst c)) div 4)
            (fit (nat (nelements (cp_src c))) (val (tn_id (cp_src c))))))"

definition ggml_backend_graph_compute :: "ggml_env \<Rightarrow> copy_op list \<Rightarrow> (int, 'e) act" where
  "ggml_backend_graph_compute env copies w =
     (let i = w_next w; status = ge_status env i; vals = ge_eval env (w_nodes w) (w_mem w);
          cs = (if status = 0 then copies else take (ge_done env i) copies)
      in (Ret status, w\<lparr>w_next := Suc i, w_mem := do_copies vals cs (w_mem w), w_vals := vals\<rparr>))"

end
