(* ===== verification/Loader.thy ===== *)
theory Loader imports Gguf Mapper Ggml begin

text \<open>
  \<^verbatim>\<open>src/src/loader.rs\<close>: \<open>MappedModel::load\<close> parses the header, maps the file, wraps the
  mapping as a ggml buffer and points one tensor descriptor per known tensor into it. The
  state is the process state of the mapper together with ggml's; sizes and addresses wrap
  as \<^verbatim>\<open>usize\<close> does.
\<close>

section \<open>Types of the weights\<close>

text \<open>\<^verbatim>\<open>GgmlType::from\<close> of \<^verbatim>\<open>src/src/ggml_ffi.rs\<close>; 999 is its \<^verbatim>\<open>Unknown\<close>.\<close>

definition known_types :: "u32 list" where
  "known_types = [0, 1, 2, 3, 6, 7, 8, 9, 10, 11, 12, 13, 14, 15, 30, 26]"

definition ggml_type_from :: "u32 \<Rightarrow> int" where
  "ggml_type_from v = (if v \<in> set known_types then uint v else 999)"

section \<open>The model\<close>

record model =
  md_mapper :: file_mapper
  md_ctx :: nat
  md_buf :: buffer
  md_tensors :: "string \<rightharpoonup> tensor \<times> usize"
  md_header :: gguf_header

datatype load_error = HeaderError gguf_error | MapError map_error | BufferNull | ContextNull

record sys =
  sy_os :: os
  sy_world :: world

definition on_os :: "(os, 'a, map_error) sm \<Rightarrow> (sys, 'a, load_error) sm" where
  "on_os m s = (case m (sy_os s) of (r, o') \<Rightarrow> (res_map_err MapError r, s\<lparr>sy_os := o'\<rparr>))"

definition on_world :: "('a, load_error) act \<Rightarrow> (sys, 'a, load_error) sm" where
  "on_world m s = (case m (sy_world s) of (r, w') \<Rightarrow> (r, s\<lparr>sy_world := w'\<rparr>))"

text \<open>The first four dimensions, as signed 64-bit numbers.\<close>

definition ne_of :: "u64 list \<Rightarrow> dims" where
  "ne_of ds =
     (let g = (\<lambda>i. if i < length ds then sint (ds ! i) else 1) in D4 (g 0) (g 1) (g 2) (g 3))"

text \<open>
  \<^verbatim>\<open>ggml_new_tensor\<close> reads \<open>ndim\<close> numbers from an array of four: more is undefined and
  taken as an abort. The placement check adds in \<^verbatim>\<open>size_t\<close>.
\<close>

definition place_tensor :: "buffer \<Rightarrow> usize \<Rightarrow> tensor_info \<Rightarrow> (tensor, load_error) act" where
  "place_tensor buf addr ti =
     gassert (length (ti_dims ti) \<le> 4)
       (bnd (ggml_new_tensor (ggml_type_from (ti_type ti)) (ne_of (ti_dims ti))) (\<lambda>t.
        gassert (bf_base buf \<le> uint addr \<and>
            (uint addr + nbytes t) mod 2 ^ 64 \<le> (bf_base buf + bf_size buf) mod 2 ^ 64)
          (ret t)))"

definition load_tensor ::
    "file_mapper \<Rightarrow> buffer \<Rightarrow> usize \<Rightarrow> (string \<rightharpoonup> tensor \<times> usize) \<Rightarrow> tensor_info \<Rightarrow>
     (sys, string \<rightharpoonup> tensor \<times> usize, load_error) sm" where
  "load_tensor fm buf data_base tensors ti =
     (let tensor_addr = data_base + ti_offset ti in
      if ggml_type_from (ti_type ti) = 999 then ret tensors
      else if fm_ptr fm + fm_total fm \<le> tensor_addr then ret tensors
      else
      bnd (on_world (place_tensor buf tensor_addr ti)) (\<lambda>t.
      ret (tensors(ti_name ti \<mapsto> (t, tensor_addr)))))"

text \<open>A \<^verbatim>\<open>bail!\<close> after the mapping drops the mapper on the way out.\<close>

definition bail_mapped :: "file_mapper \<Rightarrow> load_error \<Rightarrow> (sys, 'a, load_error) sm" where
  "bail_mapped fm e = bnd (on_os (file_mapper_drop fm)) (\<lambda>_. fail e)"

definition mapped_model_load ::
    "allocator \<Rightarrow> (string \<Rightarrow> u8 list option) \<Rightarrow> os_env \<Rightarrow> ggml_env \<Rightarrow> string \<Rightarrow> (sys, model, load_error) sm" where
  "mapped_model_load al fs oenv env path =
     bnd (lift_outcome (res_map_err HeaderError (gguf_from_file al fs path))) (\<lambda>header.
     bnd (on_os (file_mapper_open oenv path)) (\<lambda>fm.
     bnd (on_world (ggml_backend_cpu_buffer_from_ptr env (uint (fm_ptr fm)) (uint (fm_total fm)))) (\<lambda>wb.
     case wb of None \<Rightarrow> bail_mapped fm BufferNull | Some buf \<Rightarrow>
     bnd (on_world (ggml_init env)) (\<lambda>cx.
     case cx of None \<Rightarrow> bail_mapped fm ContextNull | Some ctx \<Rightarrow>
     bnd (loop (load_tensor fm buf (fm_ptr fm + gh_data_offset header)) Map.empty (gh_tensors header)) (\<lambda>tensors.
     ret \<lparr>md_mapper = fm, md_ctx = ctx, md_buf = buf, md_tensors = tensors, md_header = header\<rparr>)))))"

definition model_tensor :: "model \<Rightarrow> string \<Rightarrow> tensor option" where
  "model_tensor md name = map_option fst (md_tensors md name)"

definition layer_tensor :: "model \<Rightarrow> nat \<Rightarrow> string \<Rightarrow> tensor option" where
  "layer_tensor md layer suffix = model_tensor md (''blk.'' @ dec_digits layer @ ''.'' @ suffix)"

definition model_n_layers :: "model \<Rightarrow> u32" where
  "model_n_layers md = unwrap_or (layer_count (md_header md)) 32"

definition model_n_embd :: "model \<Rightarrow> u32" where
  "model_n_embd md = unwrap_or (embedding_length (md_header md)) 4096"

text \<open>\<^verbatim>\<open>Drop\<close>: context and buffer, then the mapper.\<close>

definition mapped_model_drop :: "model \<Rightarrow> (sys, unit, load_error) sm" where
  "mapped_model_drop md =
     bnd (on_world (ggml_free (md_ctx md))) (\<lambda>_.
     bnd (on_world (ggml_backend_buffer_free (md_buf md))) (\<lambda>_.
     on_os (file_mapper_drop (md_mapper md))))"

section \<open>What a loaded model guarantees\<close>

text \<open>The descriptor's bytes lie in the mapping, up to the library's wrapping sum.\<close>

definition weight_ok :: "file_mapper \<Rightarrow> usize \<Rightarrow> tensor_info list \<Rightarrow> string \<Rightarrow> tensor \<times> usize \<Rightarrow> bool" where
  "weight_ok fm data_base tis name w \<longleftrightarrow>
     (\<exists>ti\<in>set tis. ti_name ti = name \<and> ti_type ti \<in> set known_types \<and> length (ti_dims ti) \<le> 4 \<and>
        snd w = data_base + ti_offset ti \<and> tn_ne (fst w) = ne_of (ti_dims ti) \<and>
        uint (fm_ptr fm) \<le> uint (snd w) \<and> snd w < fm_ptr fm + fm_total fm \<and>
        (uint (snd w) + nbytes (fst w)) mod 2 ^ 64 \<le> (uint (fm_ptr fm) + uint (fm_total fm)) mod 2 ^ 64)"

lemma uint_known: "v \<in> set known_types \<Longrightarrow> uint v \<noteq> 999"
  by (auto simp: known_types_def)

lemma type_from_known: "ggml_type_from v \<noteq> 999 \<longleftrightarrow> v \<in> set known_types"
  using uint_known by (auto simp: ggml_type_from_def)

lemma load_tensor_ok:
  assumes "load_tensor fm buf data_base tensors ti s = (Ret tensors', s')"
    and "ti \<in> set tis" "bf_base buf = uint (fm_ptr fm)" "bf_size buf = uint (fm_total fm)"
    and "\<forall>name w. tensors name = Some w \<longrightarrow> weight_ok fm data_base tis name w"
  shows "\<forall>name w. tensors' name = Some w \<longrightarrow> weight_ok fm data_base tis name w"
proof (cases "ggml_type_from (ti_type ti) = 999 \<or> fm_ptr fm + fm_total fm \<le> data_base + ti_offset ti")
  case True
  then show ?thesis using assms by (auto simp: load_tensor_def Let_def split: if_splits)
next
  case False
  let ?t = "fresh_tensor (w_next (sy_world s)) (ggml_type_from (ti_type ti)) (ne_of (ti_dims ti))"
  have c: "length (ti_dims ti) \<le> 4 \<and> bf_base buf \<le> uint (data_base + ti_offset ti) \<and>
      (uint (data_base + ti_offset ti) + nbytes ?t) mod 2 ^ 64 \<le> (bf_base buf + bf_size buf) mod 2 ^ 64"
    and t: "tensors' = tensors(ti_name ti \<mapsto> (?t, data_base + ti_offset ti))"
    using assms(1) False
    by (auto simp: load_tensor_def Let_def bnd_def on_world_def place_tensor_def gassert_def
        ggml_new_tensor_def new_node_def split: if_splits prod.splits outcome.splits)
  have "weight_ok fm data_base tis (ti_name ti) (?t, data_base + ti_offset ti)"
    using c False assms(2-4) type_from_known
    by (auto simp: weight_ok_def fresh_tensor_def not_le intro!: bexI[of _ ti])
  then show ?thesis using assms(5) by (auto simp: t)
qed

lemma on_os_Ret: "on_os m s = (Ret x, s') \<longleftrightarrow> (\<exists>o'. m (sy_os s) = (Ret x, o') \<and> s' = s\<lparr>sy_os := o'\<rparr>)"
  by (auto simp: on_os_def split: prod.splits)

lemma on_world_Ret: "on_world m s = (Ret x, s') \<longleftrightarrow> (\<exists>w'. m (sy_world s) = (Ret x, w') \<and> s' = s\<lparr>sy_world := w'\<rparr>)"
  by (auto simp: on_world_def split: prod.splits)

lemma buffer_from_ptr:
  "ggml_backend_cpu_buffer_from_ptr env ptr sz w = (Ret (Some buf), w') \<Longrightarrow> bf_base buf = ptr \<and> bf_size buf = sz"
  by (auto simp: ggml_backend_cpu_buffer_from_ptr_def gassert_def bnd_def acquire_def Let_def
      split: if_splits prod.splits outcome.splits)

lemma load_weights_ok:
  assumes "mapped_model_load al fs oenv env path s = (Ret md, s')"
  shows "\<forall>name w. md_tensors md name = Some w \<longrightarrow>
    weight_ok (md_mapper md) (fm_ptr (md_mapper md) + gh_data_offset (md_header md)) (gh_tensors (md_header md)) name w"
proof -
  obtain h fm buf cx tensors s1 s2 s3 s4 s5 where
    wb: "on_world (ggml_backend_cpu_buffer_from_ptr env (uint (fm_ptr fm)) (uint (fm_total fm))) s2 = (Ret (Some buf), s3)"
    and l: "loop (load_tensor fm buf (fm_ptr fm + gh_data_offset h)) Map.empty (gh_tensors h) s4 = (Ret tensors, s5)"
    and md: "md = \<lparr>md_mapper = fm, md_ctx = cx, md_buf = buf, md_tensors = tensors, md_header = h\<rparr>"
    using assms unfolding mapped_model_load_def
    by (auto elim!: bnd_RetE simp: bail_mapped_def split: option.splits)
  have b: "bf_base buf = uint (fm_ptr fm)" "bf_size buf = uint (fm_total fm)"
    using wb by (auto simp: on_world_Ret dest!: buffer_from_ptr)
  have "\<forall>name w. tensors name = Some w \<longrightarrow> weight_ok fm (fm_ptr fm + gh_data_offset h) (gh_tensors h) name w"
    by (rule loop_invariant[OF l]) (use load_tensor_ok[OF _ _ b] in blast)+
  then show ?thesis by (simp add: md)
qed

end
