(* ===== verification/Graph.thy ===== *)
theory Graph imports Loader Tokenizer begin

text \<open>
  \<^verbatim>\<open>src/src/graph.rs\<close>: hyperparameters, the key-value cache, the prefill graph that is
  built anew for each prompt, and the persistent one-token decode graph. Functions build
  the ggml graph call by call, in the code's order; a \<^verbatim>\<open>?\<close> or \<^verbatim>\<open>bail!\<close> leaves with the
  resources that are live at that point.
\<close>

section \<open>Errors\<close>

datatype graph_error =
    BackendInit | InputBufferAlloc | InputCtxAlloc | GraphCtxAlloc | TensorNotFound string
  | KvOverflow int int | KvFull int int | GallocrNew | GallocrAlloc | ComputeStatus int

datatype alloc_msg = EmptyTokenSequence | GraphMsg graph_error

datatype forward_error =
    FShapeMismatch nat nat | FMissingTensor string | FComputeFailed int | FAllocationFailed alloc_msg

section \<open>Hyperparameters\<close>

record hparams =
  hp_vocab :: int
  hp_embd :: int
  hp_head :: int
  hp_head_kv :: int
  hp_layer :: int
  hp_ff :: int
  hp_rot :: int
  hp_freq_base :: f32
  hp_eps :: f32

definition get_u32 :: "gguf_meta \<Rightarrow> string \<Rightarrow> int" where
  "get_u32 meta key = uint (unwrap_or (Option.bind (meta key) as_u32) 0)"

fun as_f32 :: "gguf_value \<Rightarrow> f32 option" where
  "as_f32 (VF32 f) = Some f"
| "as_f32 _ = None"

definition get_f32 :: "gguf_meta \<Rightarrow> string \<Rightarrow> f32 \<Rightarrow> f32" where
  "get_f32 meta key dflt = unwrap_or (Option.bind (meta key) as_f32) dflt"

definition hparams_from_model :: "model \<Rightarrow> hparams" where
  "hparams_from_model md =
     (let arch = unwrap_or (architecture (md_header md)) ''llama''; meta = gh_metadata (md_header md) in
      \<lparr>hp_vocab = get_u32 meta ''llama.vocab_size'',
       hp_embd = get_u32 meta (arch @ ''.embedding_length''),
       hp_head = get_u32 meta (arch @ ''.attention.head_count''),
       hp_head_kv = get_u32 meta (arch @ ''.attention.head_count_kv''),
       hp_layer = get_u32 meta (arch @ ''.block_count''),
       hp_ff = get_u32 meta (arch @ ''.feed_forward_length''),
       hp_rot = get_u32 meta (arch @ ''.rope.dimension_count''),
       hp_freq_base = get_f32 meta (arch @ ''.rope.freq_base'') (lit32 500000 1),
       hp_eps = get_f32 meta (arch @ ''.attention.layer_norm_rms_epsilon'') (lit32 1 100000)\<rparr>)"

text \<open>The quotient of two non-negative numbers; zero heads divide by zero.\<close>

definition head_dim :: "hparams \<Rightarrow> ('s, int, 'e) sm" where
  "head_dim hp = (if hp_head hp = 0 then abort else ret (hp_embd hp div hp_head hp))"

section \<open>The key-value cache\<close>

record kv_cache =
  kv_ctx :: "nat option"
  kv_buf :: buffer
  kv_k :: "tensor list"
  kv_v :: "tensor list"
  kv_n_ctx :: int
  kv_head :: int

text \<open>\<^verbatim>\<open>as i64\<close> and \<^verbatim>\<open>as usize\<close> of a wrapped product.\<close>

definition i64_wrap :: "int \<Rightarrow> int" where
  "i64_wrap x = (x + 2 ^ 63) mod 2 ^ 64 - 2 ^ 63"

definition usize_wrap :: "int \<Rightarrow> int" where
  "usize_wrap x = x mod 2 ^ 64"

definition kv_bytes_per :: "int \<Rightarrow> int \<Rightarrow> int \<Rightarrow> int" where
  "kv_bytes_per n_head_kv hdim n_ctx = usize_wrap (i64_wrap (n_head_kv * hdim * n_ctx * 4))"

definition kv_total_data :: "int \<Rightarrow> nat \<Rightarrow> int" where
  "kv_total_data bytes_per n_layers = usize_wrap (bytes_per * int n_layers * 2 + 1024)"

definition k_addr :: "int \<Rightarrow> int \<Rightarrow> nat \<Rightarrow> int" where
  "k_addr base bytes_per i = usize_wrap (base + int i * bytes_per)"

definition v_addr :: "int \<Rightarrow> int \<Rightarrow> nat \<Rightarrow> nat \<Rightarrow> int" where
  "v_addr base bytes_per n_layers i = usize_wrap (base + int n_layers * bytes_per + int i * bytes_per)"

definition kv_layer ::
    "buffer \<Rightarrow> int \<Rightarrow> nat \<Rightarrow> int \<Rightarrow> int \<Rightarrow> tensor list \<times> tensor list \<Rightarrow> nat \<Rightarrow>
     (tensor list \<times> tensor list, 'e) act" where
  "kv_layer buf bytes_per n_layers row n_ctx kvs i =
     bnd (ggml_new_tensor 0 (D4 row n_ctx 1 1)) (\<lambda>kt.
     bnd (ggml_backend_tensor_alloc buf kt (k_addr (bf_base buf) bytes_per i)) (\<lambda>_.
     bnd (ggml_new_tensor 0 (D4 row n_ctx 1 1)) (\<lambda>vt.
     bnd (ggml_backend_tensor_alloc buf vt (v_addr (bf_base buf) bytes_per n_layers i)) (\<lambda>_.
     ret (fst kvs @ [kt], snd kvs @ [vt])))))"

definition kv_zero :: "int \<Rightarrow> nat \<Rightarrow> unit \<Rightarrow> tensor \<times> tensor \<Rightarrow> (unit, 'e) act" where
  "kv_zero bytes_per n_zeros u kv =
     bnd (ggml_backend_tensor_set (fst kv) (replicate n_zeros 0) 0 bytes_per) (\<lambda>_.
     ggml_backend_tensor_set (snd kv) (replicate n_zeros 0) 0 bytes_per)"

text \<open>A null buffer or context is dereferenced at once.\<close>

definition kv_new :: "ggml_env \<Rightarrow> nat \<Rightarrow> int \<Rightarrow> int \<Rightarrow> int \<Rightarrow> (kv_cache, 'e) act" where
  "kv_new env n_layers n_head_kv hdim n_ctx =
     (let bytes_per = kv_bytes_per n_head_kv hdim n_ctx in
      bnd (ggml_backend_alloc_buffer env (kv_total_data bytes_per n_layers)) (\<lambda>db.
      case db of None \<Rightarrow> abort | Some buf \<Rightarrow>
      bnd (ggml_init env) (\<lambda>ctx.
      if ctx = None \<and> 0 < n_layers then abort
      else
      bnd (loop (kv_layer buf bytes_per n_layers (n_head_kv * hdim) n_ctx) ([], []) [0..<n_layers]) (\<lambda>(k, v).
      bnd (loop (kv_zero bytes_per (nat (n_head_kv * hdim * n_ctx))) () (zip k v)) (\<lambda>_.
      ret \<lparr>kv_ctx = ctx, kv_buf = buf, kv_k = k, kv_v = v, kv_n_ctx = n_ctx, kv_head = 0\<rparr>)))))"

definition kv_clear :: "kv_cache \<Rightarrow> kv_cache" where
  "kv_clear kv = kv\<lparr>kv_head := 0\<rparr>"

definition kv_drop :: "kv_cache \<Rightarrow> (unit, 'e) act" where
  "kv_drop kv =
     bnd (case kv_ctx kv of Some c \<Rightarrow> ggml_free c | None \<Rightarrow> ret ()) (\<lambda>_.
     ggml_backend_buffer_free (kv_buf kv))"

section \<open>One transformer layer\<close>

definition weight :: "model \<Rightarrow> nat \<Rightarrow> string \<Rightarrow> (tensor, graph_error) act" where
  "weight md layer name =
     ok_or (TensorNotFound (''blk.'' @ dec_digits layer @ ''.'' @ name)) (layer_tensor md layer name)"

definition top_weight :: "model \<Rightarrow> string \<Rightarrow> (tensor, graph_error) act" where
  "top_weight md name = ok_or (TensorNotFound name) (model_tensor md name)"

text \<open>\<^verbatim>\<open>freq_base, freq_scale, ext_factor, attn_factor, beta_fast, beta_slow\<close>.\<close>

definition rope :: "hparams \<Rightarrow> tensor \<Rightarrow> tensor \<Rightarrow> (tensor, graph_error) act" where
  "rope hp a pos =
     ggml_rope_ext a pos (hp_rot hp) 0 131072
       [hp_freq_base hp, 1, 0, 1, lit32 32 1, 1]"

text \<open>Norm, projections, rotary embedding; the keys and values as rows for the cache.\<close>

definition layer_qkv ::
    "model \<Rightarrow> hparams \<Rightarrow> int \<Rightarrow> nat \<Rightarrow> int \<Rightarrow> tensor \<Rightarrow> tensor \<Rightarrow>
     (tensor \<times> tensor \<times> tensor, graph_error) act" where
  "layer_qkv md hp hdim layer n_tokens pos cur =
     bnd (ggml_rms_norm cur (hp_eps hp)) (\<lambda>rn.
     bnd (weight md layer ''attn_norm.weight'') (\<lambda>w.
     bnd (ggml_mul rn w) (\<lambda>normed.
     bnd (weight md layer ''attn_q.weight'') (\<lambda>wq.
     bnd (ggml_mul_mat wq normed) (\<lambda>q.
     bnd (weight md layer ''attn_k.weight'') (\<lambda>wk.
     bnd (ggml_mul_mat wk normed) (\<lambda>k.
     bnd (weight md layer ''attn_v.weight'') (\<lambda>wv.
     bnd (ggml_mul_mat wv normed) (\<lambda>v.
     bnd (ggml_reshape_3d q hdim (hp_head hp) n_tokens) (\<lambda>q.
     bnd (ggml_reshape_3d k hdim (hp_head_kv hp) n_tokens) (\<lambda>k.
     bnd (ggml_reshape_3d v hdim (hp_head_kv hp) n_tokens) (\<lambda>v.
     bnd (rope hp q pos) (\<lambda>q.
     bnd (rope hp k pos) (\<lambda>k.
     bnd (ggml_cont k) (\<lambda>kc.
     bnd (ggml_reshape_2d kc (hp_head_kv hp * hdim) n_tokens) (\<lambda>k_flat.
     bnd (ggml_cont v) (\<lambda>vc.
     bnd (ggml_reshape_2d vc (hp_head_kv hp * hdim) n_tokens) (\<lambda>v_flat.
     ret (q, k_flat, v_flat)))))))))))))))))))"

text \<open>Attention of the queries over \<open>kv_len\<close> cached rows.\<close>

definition attend ::
    "hparams \<Rightarrow> int \<Rightarrow> int \<Rightarrow> int \<Rightarrow> tensor option \<Rightarrow> tensor \<Rightarrow> tensor \<Rightarrow> tensor \<Rightarrow>
     (tensor, graph_error) act" where
  "attend hp hdim n_tokens kv_len msk q k_rows v_rows =
     bnd (ggml_cont k_rows) (\<lambda>kc.
     bnd (ggml_reshape_3d kc hdim (hp_head_kv hp) kv_len) (\<lambda>k_3d.
     bnd (ggml_cont v_rows) (\<lambda>vc.
     bnd (ggml_reshape_3d vc hdim (hp_head_kv hp) kv_len) (\<lambda>v_3d.
     bnd (ggml_permute_0213 q) (\<lambda>q_perm.
     bnd (ggml_permute_0213 k_3d) (\<lambda>kp.
     bnd (ggml_cont kp) (\<lambda>k_perm.
     bnd (ggml_permute_1203 v_3d) (\<lambda>vp.
     bnd (ggml_cont vp) (\<lambda>v_perm.
     bnd (ggml_mul_mat k_perm q_perm) (\<lambda>kq.
     bnd (ggml_scale kq (1 div sqrt32 (of_nat32 (nat hdim)))) (\<lambda>kq.
     bnd (ggml_soft_max_ext kq msk 1 0) (\<lambda>kq.
     bnd (ggml_mul_mat v_perm kq) (\<lambda>av.
     bnd (ggml_permute_0213 av) (\<lambda>ap.
     bnd (ggml_cont ap) (\<lambda>ac.
     ggml_reshape_2d ac (hp_embd hp) n_tokens)))))))))))))))"

text \<open>Output projection, residual, and the SwiGLU block.\<close>

definition layer_out :: "model \<Rightarrow> hparams \<Rightarrow> nat \<Rightarrow> tensor \<Rightarrow> tensor \<Rightarrow> (tensor, graph_error) act" where
  "layer_out md hp layer cur av =
     bnd (weight md layer ''attn_output.weight'') (\<lambda>wo.
     bnd (ggml_mul_mat wo av) (\<lambda>attn.
     bnd (ggml_add cur attn) (\<lambda>cur.
     bnd (ggml_rms_norm cur (hp_eps hp)) (\<lambda>rn.
     bnd (weight md layer ''ffn_norm.weight'') (\<lambda>w.
     bnd (ggml_mul rn w) (\<lambda>ffn_in.
     bnd (weight md layer ''ffn_gate.weight'') (\<lambda>wg.
     bnd (ggml_mul_mat wg ffn_in) (\<lambda>g.
     bnd (ggml_silu g) (\<lambda>gate.
     bnd (weight md layer ''ffn_up.weight'') (\<lambda>wu.
     bnd (ggml_mul_mat wu ffn_in) (\<lambda>up.
     bnd (weight md layer ''ffn_down.weight'') (\<lambda>wd.
     bnd (ggml_mul gate up) (\<lambda>gu.
     bnd (ggml_mul_mat wd gu) (\<lambda>ffn.
     ggml_add cur ffn))))))))))))))"

section \<open>The decode graph\<close>

record decode_graph =
  dg_inp_ctx :: nat
  dg_ctx :: nat
  dg_galloc :: nat
  dg_inp_buf :: buffer
  dg_token :: tensor
  dg_pos :: tensor
  dg_mask :: tensor
  dg_logits :: tensor
  dg_k_out :: "tensor list"
  dg_v_out :: "tensor list"

text \<open>The bits of \<^verbatim>\<open>-10000.0f32\<close>.\<close>

definition MASKED :: u32 where
  "MASKED = 0xC61C4000"

text \<open>Every step reads all \<open>n_ctx\<close> rows of the cache, under the mask.\<close>

definition decode_layer ::
    "model \<Rightarrow> hparams \<Rightarrow> kv_cache \<Rightarrow> int \<Rightarrow> tensor \<Rightarrow> tensor \<Rightarrow> tensor \<times> tensor list \<times> tensor list \<Rightarrow> nat \<Rightarrow>
     (tensor \<times> tensor list \<times> tensor list, graph_error) act" where
  "decode_layer md hp kv hdim pos msk acc layer =
     (let (cur, ks, vs) = acc; row = hp_head_kv hp * hdim; stride = row * 4; n_ctx = kv_n_ctx kv in
      bnd (layer_qkv md hp hdim layer 1 pos cur) (\<lambda>(q, k_flat, v_flat).
      bnd (ggml_view_2d (kv_k kv ! layer) row n_ctx stride 0) (\<lambda>k_full.
      bnd (ggml_view_2d (kv_v kv ! layer) row n_ctx stride 0) (\<lambda>v_full.
      bnd (attend hp hdim 1 n_ctx (Some msk) q k_full v_full) (\<lambda>av.
      bnd (layer_out md hp layer cur av) (\<lambda>cur.
      ret (cur, ks @ [k_flat], vs @ [v_flat])))))))"

text \<open>Final norm and projection to the vocabulary.\<close>

definition final_norm :: "model \<Rightarrow> hparams \<Rightarrow> tensor \<Rightarrow> (tensor, graph_error) act" where
  "final_norm md hp cur =
     bnd (top_weight md ''output_norm.weight'') (\<lambda>out_norm.
     bnd (ggml_rms_norm cur (hp_eps hp)) (\<lambda>rn.
     ggml_mul rn out_norm))"

text \<open>The nodes of the graph, up to the logits.\<close>

definition decode_nodes ::
    "model \<Rightarrow> hparams \<Rightarrow> kv_cache \<Rightarrow> int \<Rightarrow> tensor \<Rightarrow> tensor \<Rightarrow> tensor \<Rightarrow>
     (tensor \<times> tensor list \<times> tensor list, graph_error) act" where
  "decode_nodes md hp kv hdim d_token d_pos d_mask =
     bnd (top_weight md ''token_embd.weight'') (\<lambda>embd_w.
     bnd (ggml_get_rows embd_w d_token) (\<lambda>cur.
     bnd (loop (decode_layer md hp kv hdim d_pos d_mask) (cur, [], []) [0..<nat (hp_layer hp)]) (\<lambda>(cur, ks, vs).
     bnd (final_norm md hp cur) (\<lambda>cur.
     bnd (top_weight md ''output.weight'') (\<lambda>lm_head.
     bnd (ggml_mul_mat lm_head cur) (\<lambda>d_logits.
     ret (d_logits, ks, vs)))))))"

text \<open>The intermediates are allocated once; the graph and its pieces then stay with the engine.\<close>

definition persist_decode_graph ::
    "ggml_env \<Rightarrow> nat \<Rightarrow> nat \<Rightarrow> buffer \<Rightarrow> tensor \<Rightarrow> tensor \<Rightarrow> tensor \<Rightarrow> tensor \<Rightarrow> tensor list \<Rightarrow> tensor list \<Rightarrow>
     (decode_graph, graph_error) act" where
  "persist_decode_graph env inp_ctx ctx inp_buf d_token d_pos d_mask d_logits ks vs =
    bnd (ggml_gallocr_new env) (\<lambda>ga.
    case ga of None \<Rightarrow>
      bnd (ggml_free inp_ctx) (\<lambda>_. bnd (ggml_free ctx) (\<lambda>_.
      bnd (ggml_backend_buffer_free inp_buf) (\<lambda>_. fail GallocrNew)))
    | Some galloc \<Rightarrow>
    bnd (ggml_gallocr_alloc_graph env) (\<lambda>ok.
    if \<not> ok then
      bnd (ggml_gallocr_free galloc) (\<lambda>_. bnd (ggml_free inp_ctx) (\<lambda>_. bnd (ggml_free ctx) (\<lambda>_.
      bnd (ggml_backend_buffer_free inp_buf) (\<lambda>_. fail GallocrAlloc))))
    else
    ret \<lparr>dg_inp_ctx = inp_ctx, dg_ctx = ctx, dg_galloc = galloc, dg_inp_buf = inp_buf,
         dg_token = d_token, dg_pos = d_pos, dg_mask = d_mask, dg_logits = d_logits,
         dg_k_out = ks, dg_v_out = vs\<rparr>))"

definition build_decode_graph ::
    "ggml_env \<Rightarrow> model \<Rightarrow> hparams \<Rightarrow> kv_cache \<Rightarrow> (decode_graph, graph_error) act" where
  "build_decode_graph env md hp kv =
     (let n_ctx = kv_n_ctx kv; mask_bytes = n_ctx * 4 in
      bnd (head_dim hp) (\<lambda>hdim.
      bnd (ggml_backend_alloc_buffer env (128 + mask_bytes + 256)) (\<lambda>ib.
      case ib of None \<Rightarrow> fail InputBufferAlloc | Some inp_buf \<Rightarrow>
      bnd (ggml_init env) (\<lambda>ic.
      case ic of None \<Rightarrow> bnd (ggml_backend_buffer_free inp_buf) (\<lambda>_. fail InputCtxAlloc) | Some inp_ctx \<Rightarrow>
      bnd (ggml_new_tensor 26 (D4 1 1 1 1)) (\<lambda>d_token.
      bnd (ggml_backend_tensor_alloc inp_buf d_token (bf_base inp_buf)) (\<lambda>_.
      bnd (ggml_new_tensor 26 (D4 1 1 1 1)) (\<lambda>d_pos.
      bnd (ggml_backend_tensor_alloc inp_buf d_pos (bf_base inp_buf + 64)) (\<lambda>_.
      bnd (ggml_new_tensor 0 (D4 n_ctx 1 1 1)) (\<lambda>d_mask.
      bnd (ggml_backend_tensor_alloc inp_buf d_mask (bf_base inp_buf + 128)) (\<lambda>_.
      bnd (ggml_backend_tensor_set d_mask (replicate (nat n_ctx) MASKED) 0 mask_bytes) (\<lambda>_.
      bnd (ggml_init env) (\<lambda>cx.
      case cx of None \<Rightarrow>
        bnd (ggml_free inp_ctx) (\<lambda>_. bnd (ggml_backend_buffer_free inp_buf) (\<lambda>_. fail GraphCtxAlloc))
      | Some ctx \<Rightarrow>
      bnd (decode_nodes md hp kv hdim d_token d_pos d_mask) (\<lambda>(d_logits, ks, vs).
      persist_decode_graph env inp_ctx ctx inp_buf d_token d_pos d_mask d_logits ks vs)))))))))))))"

section \<open>The engine\<close>

record llama_graph =
  lg_hp :: hparams
  lg_backend :: nat
  lg_kv :: kv_cache
  lg_dec :: "decode_graph option"

record engine =
  eg_graph :: llama_graph
  eg_world :: world

definition in_world :: "('a, 'e) act \<Rightarrow> (engine, 'a, 'e) sm" where
  "in_world m s = (case m (eg_world s) of (r, w') \<Rightarrow> (r, s\<lparr>eg_world := w'\<rparr>))"

definition get_graph :: "(engine, llama_graph, 'e) sm" where
  "get_graph s = (Ret (eg_graph s), s)"

definition set_graph :: "llama_graph \<Rightarrow> (engine, unit, 'e) sm" where
  "set_graph lg s = (Ret (), s\<lparr>eg_graph := lg\<rparr>)"

definition set_head :: "int \<Rightarrow> llama_graph \<Rightarrow> llama_graph" where
  "set_head h lg = lg\<lparr>lg_kv := (lg_kv lg)\<lparr>kv_head := h\<rparr>\<rparr>"

definition llama_graph_new :: "ggml_env \<Rightarrow> model \<Rightarrow> (llama_graph, graph_error) act" where
  "llama_graph_new env md =
     (let hp = hparams_from_model md in
      bnd (acquire env RBackend) (\<lambda>b.
      case b of None \<Rightarrow> fail BackendInit | Some backend \<Rightarrow>
      bnd (head_dim hp) (\<lambda>hdim.
      bnd (kv_new env (nat (hp_layer hp)) (hp_head_kv hp) hdim 512) (\<lambda>kv.
      ret \<lparr>lg_hp = hp, lg_backend = backend, lg_kv = kv, lg_dec = None\<rparr>))))"

section \<open>One decode step\<close>

definition ensure_decode_graph :: "ggml_env \<Rightarrow> model \<Rightarrow> (engine, decode_graph, graph_error) sm" where
  "ensure_decode_graph env md =
     bnd get_graph (\<lambda>lg.
     case lg_dec lg of Some dg \<Rightarrow> ret dg
     | None \<Rightarrow>
       bnd (in_world (build_decode_graph env md (lg_hp lg) (lg_kv lg))) (\<lambda>dg.
       bnd (set_graph (lg\<lparr>lg_dec := Some dg\<rparr>)) (\<lambda>_. ret dg)))"

text \<open>The mask of a step: the first \<open>kv_head\<close> positions are open.\<close>

definition decode_mask :: "int \<Rightarrow> int \<Rightarrow> u32 list" where
  "decode_mask n_ctx head = replicate (nat head) 0 @ replicate (nat (n_ctx - head)) MASKED"

definition decode_inputs :: "decode_graph \<Rightarrow> u32 \<Rightarrow> int \<Rightarrow> int \<Rightarrow> (unit, graph_error) act" where
  "decode_inputs dg token n_ctx head =
     bnd (ggml_backend_tensor_set (dg_token dg) [token] 0 4) (\<lambda>_.
     bnd (ggml_backend_tensor_set (dg_pos dg) [word_of_int head] 0 4) (\<lambda>_.
     ggml_backend_tensor_set (dg_mask dg) (decode_mask n_ctx head) 0 (n_ctx * 4)))"

definition store_row :: "kv_cache \<Rightarrow> decode_graph \<Rightarrow> int \<Rightarrow> unit \<Rightarrow> nat \<Rightarrow> (unit, graph_error) act" where
  "store_row kv dg stride u layer =
     bnd (ggml_backend_tensor_get (dg_k_out dg ! layer) stride) (\<lambda>buf.
     bnd (ggml_backend_tensor_set (kv_k kv ! layer) buf (kv_head kv * stride) stride) (\<lambda>_.
     bnd (ggml_backend_tensor_get (dg_v_out dg ! layer) stride) (\<lambda>buf.
     ggml_backend_tensor_set (kv_v kv ! layer) buf (kv_head kv * stride) stride)))"

text \<open>The step itself, over a built graph: no rebuild and no allocation.\<close>

definition decode_run :: "ggml_env \<Rightarrow> decode_graph \<Rightarrow> u32 \<Rightarrow> (engine, u32 list, graph_error) sm" where
  "decode_run env dg token =
     bnd get_graph (\<lambda>lg.
     let hp = lg_hp lg; kv = lg_kv lg in
     bnd (in_world (head_dim hp)) (\<lambda>hdim.
     let stride = hp_head_kv hp * hdim * 4 in
     if kv_n_ctx kv \<le> kv_head kv then fail (KvFull (kv_head kv) (kv_n_ctx kv))
     else
     bnd (in_world (decode_inputs dg token (kv_n_ctx kv) (kv_head kv))) (\<lambda>_.
     bnd (in_world (ggml_backend_graph_compute env [])) (\<lambda>status.
     if status \<noteq> 0 then fail (ComputeStatus status)
     else
     bnd (in_world (loop (store_row kv dg stride) () [0..<nat (hp_layer hp)])) (\<lambda>_.
     bnd (set_graph (set_head (min (kv_head kv + 1) (kv_n_ctx kv)) lg)) (\<lambda>_.
     in_world (ggml_backend_tensor_get (dg_logits dg) (hp_vocab hp * 4))))))))"

definition execute_decode :: "ggml_env \<Rightarrow> model \<Rightarrow> u32 \<Rightarrow> (engine, u32 list, graph_error) sm" where
  "execute_decode env md token =
     bnd (ensure_decode_graph env md) (\<lambda>dg. decode_run env dg token)"

section \<open>Prefill\<close>

definition release_all :: "nat \<Rightarrow> nat \<Rightarrow> buffer \<Rightarrow> (unit, 'e) act" where
  "release_all ctx inp_ctx inp_buf =
     bnd (ggml_free ctx) (\<lambda>_. bnd (ggml_free inp_ctx) (\<lambda>_. ggml_backend_buffer_free inp_buf))"

text \<open>
  \<^verbatim>\<open>(pos..pos + n_tokens as i32)\<close>, whose bounds are signed and wrap. If they do, the vector
  is shorter than the bytes read from it, which is undefined and taken as an abort.
\<close>

definition positions :: "i32 \<Rightarrow> nat \<Rightarrow> u32 list" where
  "positions pos n = map word_of_int [sint pos..sint (pos + of_nat n) - 1]"

definition forward_inputs ::
    "ggml_env \<Rightarrow> u32 list \<Rightarrow> i32 \<Rightarrow> (buffer \<times> nat \<times> tensor \<times> tensor, graph_error) act" where
  "forward_inputs env tokens pos =
     (let n_tokens = int (length tokens); tok_bytes = n_tokens * 4; pos_offset = (tok_bytes + 63) div 64 * 64 in
      bnd (ggml_backend_alloc_buffer env (tok_bytes * 2 + 256)) (\<lambda>ib.
      case ib of None \<Rightarrow> fail InputBufferAlloc | Some inp_buf \<Rightarrow>
      bnd (ggml_init env) (\<lambda>ic.
      case ic of None \<Rightarrow> bnd (ggml_backend_buffer_free inp_buf) (\<lambda>_. fail InputCtxAlloc) | Some inp_ctx \<Rightarrow>
      bnd (ggml_new_tensor 26 (D4 n_tokens 1 1 1)) (\<lambda>inp_tokens.
      bnd (ggml_backend_tensor_alloc inp_buf inp_tokens (bf_base inp_buf)) (\<lambda>_.
      bnd (ggml_backend_tensor_set inp_tokens tokens 0 tok_bytes) (\<lambda>_.
      bnd (ggml_new_tensor 26 (D4 n_tokens 1 1 1)) (\<lambda>inp_pos.
      bnd (ggml_backend_tensor_alloc inp_buf inp_pos (bf_base inp_buf + pos_offset)) (\<lambda>_.
      bnd (gassert (length (positions pos (length tokens)) = length tokens)
             (ggml_backend_tensor_set inp_pos (positions pos (length tokens)) 0 tok_bytes)) (\<lambda>_.
      ret (inp_buf, inp_ctx, inp_tokens, inp_pos))))))))))"

text \<open>The new rows are copied into the cache, then attention reads all \<open>kv_len\<close> rows, unmasked.\<close>

definition forward_layer ::
    "model \<Rightarrow> hparams \<Rightarrow> kv_cache \<Rightarrow> int \<Rightarrow> int \<Rightarrow> tensor \<Rightarrow> tensor \<times> copy_op list \<Rightarrow> nat \<Rightarrow>
     (tensor \<times> copy_op list, graph_error) act" where
  "forward_layer md hp kv hdim n_tokens pos acc layer =
     (let (cur, copies) = acc; row = hp_head_kv hp * hdim; stride = row * 4; kv_len = kv_head kv + n_tokens in
      bnd (layer_qkv md hp hdim layer n_tokens pos cur) (\<lambda>(q, k_flat, v_flat).
      bnd (ggml_view_2d (kv_k kv ! layer) row n_tokens stride (kv_head kv * stride)) (\<lambda>k_write.
      bnd (ggml_view_2d (kv_v kv ! layer) row n_tokens stride (kv_head kv * stride)) (\<lambda>v_write.
      bnd (ggml_cpy k_flat k_write) (\<lambda>_.
      bnd (ggml_cpy v_flat v_write) (\<lambda>_.
      bnd (ggml_view_2d (kv_k kv ! layer) row kv_len stride 0) (\<lambda>k_read.
      bnd (ggml_view_2d (kv_v kv ! layer) row kv_len stride 0) (\<lambda>v_read.
      bnd (attend hp hdim n_tokens kv_len None q k_read v_read) (\<lambda>av.
      bnd (layer_out md hp layer cur av) (\<lambda>cur.
      ret (cur, copies @ [\<lparr>cp_src = k_flat, cp_dst = k_write\<rparr>, \<lparr>cp_src = v_flat, cp_dst = v_write\<rparr>])))))))))))"

definition forward_logits :: "model \<Rightarrow> hparams \<Rightarrow> int \<Rightarrow> tensor \<Rightarrow> (tensor, graph_error) act" where
  "forward_logits md hp n_tokens cur =
     bnd (final_norm md hp cur) (\<lambda>cur.
     bnd (ggml_view_1d cur (hp_embd hp) ((n_tokens - 1) * hp_embd hp * 4)) (\<lambda>lst.
     bnd (top_weight md ''output.weight'') (\<lambda>lm_head.
     ggml_mul_mat lm_head lst)))"

text \<open>Allocation and computation; every error exit frees what the call acquired.\<close>

definition forward_compute ::
    "ggml_env \<Rightarrow> nat \<Rightarrow> nat \<Rightarrow> buffer \<Rightarrow> copy_op list \<Rightarrow> (nat, graph_error) act" where
  "forward_compute env ctx inp_ctx inp_buf copies =
     bnd (ggml_gallocr_new env) (\<lambda>ga.
     case ga of None \<Rightarrow> bnd (release_all ctx inp_ctx inp_buf) (\<lambda>_. fail GallocrNew)
     | Some galloc \<Rightarrow>
     bnd (ggml_gallocr_alloc_graph env) (\<lambda>ok.
     if \<not> ok then
       bnd (ggml_gallocr_free galloc) (\<lambda>_. bnd (release_all ctx inp_ctx inp_buf) (\<lambda>_. fail GallocrAlloc))
     else
     bnd (ggml_backend_graph_compute env copies) (\<lambda>status.
     if status \<noteq> 0 then
       bnd (ggml_gallocr_free galloc) (\<lambda>_. bnd (release_all ctx inp_ctx inp_buf) (\<lambda>_. fail (ComputeStatus status)))
     else ret galloc)))"

text \<open>The graph up to the logits; a missing tensor leaves with everything still live.\<close>

definition forward_build ::
    "ggml_env \<Rightarrow> model \<Rightarrow> hparams \<Rightarrow> kv_cache \<Rightarrow> u32 list \<Rightarrow> i32 \<Rightarrow>
     (buffer \<times> nat \<times> nat \<times> copy_op list \<times> tensor, graph_error) act" where
  "forward_build env md hp kv tokens pos =
     (let n_tokens = int (length tokens); kv_len = kv_head kv + n_tokens in
      bnd (forward_inputs env tokens pos) (\<lambda>(inp_buf, inp_ctx, inp_tokens, inp_pos).
      bnd (ggml_init env) (\<lambda>cx.
      case cx of None \<Rightarrow>
        bnd (ggml_free inp_ctx) (\<lambda>_. bnd (ggml_backend_buffer_free inp_buf) (\<lambda>_. fail GraphCtxAlloc))
      | Some ctx \<Rightarrow>
      bnd (top_weight md ''token_embd.weight'') (\<lambda>embd_w.
      bnd (ggml_get_rows embd_w inp_tokens) (\<lambda>cur.
      bnd (head_dim hp) (\<lambda>hdim.
      if kv_n_ctx kv < kv_len then
        bnd (release_all ctx inp_ctx inp_buf) (\<lambda>_. fail (KvOverflow kv_len (kv_n_ctx kv)))
      else
      bnd (loop (forward_layer md hp kv hdim n_tokens inp_pos) (cur, []) [0..<nat (hp_layer hp)]) (\<lambda>(cur, copies).
      bnd (forward_logits md hp n_tokens cur) (\<lambda>logits.
      ret (inp_buf, inp_ctx, ctx, copies, logits)))))))))"

text \<open>The logits are copied out before anything is given back.\<close>

definition forward_result :: "hparams \<Rightarrow> tensor \<Rightarrow> nat \<Rightarrow> nat \<Rightarrow> nat \<Rightarrow> buffer \<Rightarrow> (engine, u32 list, graph_error) sm" where
  "forward_result hp logits galloc ctx inp_ctx inp_buf =
     bnd (in_world (ggml_backend_tensor_get logits (hp_vocab hp * 4))) (\<lambda>out.
     bnd (in_world (ggml_gallocr_free galloc)) (\<lambda>_.
     bnd (in_world (release_all ctx inp_ctx inp_buf)) (\<lambda>_.
     ret out)))"

definition forward :: "ggml_env \<Rightarrow> model \<Rightarrow> u32 list \<Rightarrow> i32 \<Rightarrow> (engine, u32 list, graph_error) sm" where
  "forward env md tokens pos =
     bnd get_graph (\<lambda>lg.
     let hp = lg_hp lg; kv = lg_kv lg in
     bnd (in_world (forward_build env md hp kv tokens pos)) (\<lambda>(inp_buf, inp_ctx, ctx, copies, logits).
     bnd (in_world (forward_compute env ctx inp_ctx inp_buf copies)) (\<lambda>galloc.
     bnd (set_graph (set_head (min (kv_head kv + int (length tokens)) (kv_n_ctx kv)) lg)) (\<lambda>_.
     forward_result hp logits galloc ctx inp_ctx inp_buf))))"

section \<open>The public interface\<close>

definition reset_kv :: "(engine, unit, 'e) sm" where
  "reset_kv = bnd get_graph (\<lambda>lg. set_graph (lg\<lparr>lg_kv := kv_clear (lg_kv lg)\<rparr>))"

text \<open>The positions passed to \<open>forward\<close> start at 0 for every prompt.\<close>

definition prefill :: "ggml_env \<Rightarrow> model \<Rightarrow> u32 list \<Rightarrow> (engine, f32 list, forward_error) sm" where
  "prefill env md token_ids =
     (if token_ids = [] then fail (FAllocationFailed EmptyTokenSequence)
      else
      bnd (map_err (\<lambda>e. FAllocationFailed (GraphMsg e)) (forward env md token_ids 0)) (\<lambda>out.
      ret (map Bits32 out)))"

definition graph_decode_one :: "ggml_env \<Rightarrow> model \<Rightarrow> u32 \<Rightarrow> (engine, f32 list, forward_error) sm" where
  "graph_decode_one env md token_id =
     bnd (map_err (\<lambda>e. FAllocationFailed (GraphMsg e)) (execute_decode env md token_id)) (\<lambda>out.
     ret (map Bits32 out))"

definition llama_graph_drop :: "llama_graph \<Rightarrow> (unit, 'e) act" where
  "llama_graph_drop lg =
     bnd (case lg_dec lg of None \<Rightarrow> ret ()
          | Some dg \<Rightarrow> bnd (ggml_gallocr_free (dg_galloc dg)) (\<lambda>_.
                       release_all (dg_ctx dg) (dg_inp_ctx dg) (dg_inp_buf dg))) (\<lambda>_.
     bnd (release (RBackend (lg_backend lg))) (\<lambda>_.
     kv_drop (lg_kv lg)))"

end
