(* ===== verification/Sm_Spec.thy ===== *)
theory Sm_Spec imports Prelude begin

text \<open>
  Specifications of stateful code: a precondition on the state, a postcondition for the
  value returned, one for the error reported, and whether a panic is admitted. The rules
  follow the monad; \<open>yields\<close> is the case where only values matter.
\<close>

named_theorems yields_intros \<open>what one call returns\<close>
named_theorems spec_intros \<open>what one call does to the state\<close>

fun ends_in ::
    "('a \<Rightarrow> 's \<Rightarrow> bool) \<Rightarrow> ('e \<Rightarrow> 's \<Rightarrow> bool) \<Rightarrow> bool \<Rightarrow> ('a, 'e) outcome \<times> 's \<Rightarrow> bool" where
  "ends_in Q E pan (Ret x, s) = Q x s"
| "ends_in Q E pan (Fail e, s) = E e s"
| "ends_in Q E pan (Panic, s) = pan"

definition spec ::
    "('s \<Rightarrow> bool) \<Rightarrow> ('s, 'a, 'e) sm \<Rightarrow> ('a \<Rightarrow> 's \<Rightarrow> bool) \<Rightarrow> ('e \<Rightarrow> 's \<Rightarrow> bool) \<Rightarrow> bool \<Rightarrow> bool" where
  "spec P m Q E pan \<longleftrightarrow> (\<forall>s. P s \<longrightarrow> ends_in Q E pan (m s))"

lemma ends_in_mono:
  assumes "ends_in Q E pan r" "\<And>x s. Q x s \<Longrightarrow> Q' x s" "\<And>e s. E e s \<Longrightarrow> E' e s" "pan \<Longrightarrow> pan'"
  shows "ends_in Q' E' pan' r"
  using assms by (cases "(Q, E, pan, r)" rule: ends_in.cases) auto

lemma ends_in_bnd:
  assumes "ends_in R E pan (m s)" "\<And>x t. R x t \<Longrightarrow> ends_in Q E pan (f x t)"
  shows "ends_in Q E pan (bnd m f s)"
proof -
  obtain r t where m: "m s = (r, t)" by fastforce
  with assms show ?thesis by (cases r) auto
qed

lemma ends_in_ret:
  assumes "ends_in Q (\<lambda>e s. False) False r"
  obtains x s where "r = (Ret x, s)" "Q x s"
  using assms by (cases r; cases "fst r") auto

lemma ends_in_conj:
  assumes "ends_in Q1 E1 pan r" "ends_in Q2 E2 True r"
  shows "ends_in (\<lambda>x s. Q1 x s \<and> Q2 x s) (\<lambda>e s. E1 e s \<and> E2 e s) pan r"
  using assms by (cases "(Q1, E1, pan, r)" rule: ends_in.cases) auto

lemma ends_in_fail:
  assumes "ends_in (\<lambda>_ _. False) E False r"
  obtains e s where "r = (Fail e, s)" "E e s"
  using assms by (cases r; cases "fst r") auto

lemma spec_ret: "(\<And>s. P s \<Longrightarrow> Q x s) \<Longrightarrow> spec P (ret x) Q E pan"
  by (simp add: spec_def)

lemma spec_fail: "(\<And>s. P s \<Longrightarrow> E e s) \<Longrightarrow> spec P (fail e) Q E pan"
  by (simp add: spec_def)

lemma spec_abort: "pan \<Longrightarrow> spec P abort Q E pan"
  by (simp add: spec_def)

lemma spec_bnd:
  assumes "spec P m R E pan" "\<And>x. spec (R x) (f x) Q E pan"
  shows "spec P (bnd m f) Q E pan"
  using assms by (auto simp: spec_def intro!: ends_in_bnd[where R = R])

lemma spec_conseq:
  assumes "spec P' m Q' E' pan'" "\<And>s. P s \<Longrightarrow> P' s" "\<And>x s. Q' x s \<Longrightarrow> Q x s"
    and "\<And>e s. E' e s \<Longrightarrow> E e s" "pan' \<Longrightarrow> pan"
  shows "spec P m Q E pan"
  unfolding spec_def
proof (intro allI impI)
  fix s assume "P s"
  with assms(1,2) have "ends_in Q' E' pan' (m s)" by (simp add: spec_def)
  then show "ends_in Q E pan (m s)" by (rule ends_in_mono) (use assms(3-5) in auto)
qed

lemma spec_pure: "(C \<Longrightarrow> spec P m Q E pan) \<Longrightarrow> spec (\<lambda>s. C \<and> P s) m Q E pan"
  by (auto simp: spec_def)

text \<open>Values learnt from one call are facts for the next.\<close>

lemma spec_bnd_pure:
  assumes "spec P m (\<lambda>x s. C x \<and> R x s) E pan" "\<And>x. C x \<Longrightarrow> spec (R x) (f x) Q E pan"
  shows "spec P (bnd m f) Q E pan"
  by (rule spec_bnd[OF assms(1)]) (rule spec_pure[OF assms(2)])

lemma spec_conj:
  assumes "spec P m Q1 E1 pan" "spec P m Q2 E2 True"
  shows "spec P m (\<lambda>x s. Q1 x s \<and> Q2 x s) (\<lambda>e s. E1 e s \<and> E2 e s) pan"
  unfolding spec_def
proof (intro allI impI)
  fix s assume "P s"
  with assms have "ends_in Q1 E1 pan (m s)" "ends_in Q2 E2 True (m s)" by (simp_all add: spec_def)
  then show "ends_in (\<lambda>x s. Q1 x s \<and> Q2 x s) (\<lambda>e s. E1 e s \<and> E2 e s) pan (m s)"
    by (cases "(Q1, E1, pan, m s)" rule: ends_in.cases) auto
qed

lemma spec_loop:
  assumes "\<And>a x. a \<in> set as \<Longrightarrow> spec (I x) (f x a) I E pan"
  shows "spec (I x) (loop f x as) I E pan"
  using assms
proof (induction as arbitrary: x)
  case Nil
  show ?case unfolding loop.simps by (rule spec_ret)
next
  case (Cons a as)
  show ?case
    unfolding loop.simps by (rule spec_bnd[OF Cons.prems]) (use Cons in auto)
qed

text \<open>A loop over indices, with an invariant that counts.\<close>

lemma spec_loop_upt:
  assumes "\<And>i x. k \<le> i \<Longrightarrow> i < n \<Longrightarrow> spec (I i x) (f x i) (I (Suc i)) E pan" and "k \<le> n"
  shows "spec (I k x) (loop f x [k..<n]) (I n) E pan"
  using assms
proof (induction "n - k" arbitrary: k x)
  case 0
  then have "k = n" by simp
  then have "[k..<n] = []" by simp
  then show ?case using \<open>k = n\<close> by (simp only: loop.simps) (rule spec_ret)
next
  case (Suc d)
  then have "[k..<n] = k # [Suc k..<n]" by (simp add: upt_conv_Cons)
  moreover have "spec (I (Suc k) y) (loop f y [Suc k..<n]) (I n) E pan" for y
    by (rule Suc.hyps(1)) (use Suc in auto)
  ultimately show ?case
    using Suc by (simp only: loop.simps) (rule spec_bnd[where R = "I (Suc k)"], auto)
qed

lemma spec_map_err:
  assumes "spec P m Q (\<lambda>e s. E (g e) s) pan"
  shows "spec P (map_err g m) Q E pan"
  unfolding spec_def
proof (intro allI impI)
  fix s assume "P s"
  with assms have "ends_in Q (\<lambda>e s. E (g e) s) pan (m s)" by (simp add: spec_def)
  then show "ends_in Q E pan (map_err g m s)"
    by (cases "(Q, \<lambda>e s. E (g e) s, pan, m s)" rule: ends_in.cases) (auto simp: map_err_def)
qed

lemma specD:
  assumes "spec P m Q E pan" "P s" "m s = (r, t)"
  shows "ends_in Q E pan (r, t)"
  using assms by (auto simp: spec_def)

lemma specD_no_panic: "spec P m Q E False \<Longrightarrow> P s \<Longrightarrow> fst (m s) \<noteq> Panic"
  using specD[of P m Q E False s] by (cases "m s") auto

section \<open>Values only\<close>

definition yields :: "bool \<Rightarrow> ('s, 'a, 'e) sm \<Rightarrow> ('a \<Rightarrow> bool) \<Rightarrow> ('e \<Rightarrow> bool) \<Rightarrow> bool" where
  "yields pan m Q E \<longleftrightarrow> spec (\<lambda>_. True) m (\<lambda>x _. Q x) (\<lambda>e _. E e) pan"

lemma yields_ret: "Q x \<Longrightarrow> yields pan (ret x) Q E"
  by (simp add: yields_def spec_ret)

lemma yields_fail: "E e \<Longrightarrow> yields pan (fail e) Q E"
  by (simp add: yields_def spec_fail)

lemma yields_abort: "pan \<Longrightarrow> yields pan abort Q E"
  by (simp add: yields_def spec_abort)

lemma yields_bnd:
  assumes "yields pan m R E" "\<And>x. R x \<Longrightarrow> yields pan (f x) Q E"
  shows "yields pan (bnd m f) Q E"
  using assms unfolding yields_def
  by (intro spec_bnd_pure[where C = R and R = "\<lambda>_ _. True"]) auto

lemma yields_weaken:
  assumes "yields pan m Q' E" "\<And>x. Q' x \<Longrightarrow> Q x"
  shows "yields pan m Q E"
  using assms unfolding yields_def by (auto elim: spec_conseq)

lemma yields_loop:
  assumes "\<And>a x. a \<in> set as \<Longrightarrow> I x \<Longrightarrow> yields pan (f x a) I E" "I x"
  shows "yields pan (loop f x as) I E"
  using assms
proof (induction as arbitrary: x)
  case Nil
  then show ?case unfolding loop.simps by (intro yields_ret)
next
  case (Cons a as)
  show ?case
    unfolding loop.simps by (rule yields_bnd[OF Cons.prems(1)]) (use Cons in auto)
qed

lemma yields_loop_upt:
  assumes "\<And>i x. k \<le> i \<Longrightarrow> i < n \<Longrightarrow> I i x \<Longrightarrow> yields pan (f x i) (I (Suc i)) E" and "k \<le> n" "I k x"
  shows "yields pan (loop f x [k..<n]) (I n) E"
  using assms
proof (induction "n - k" arbitrary: k x)
  case 0
  then have "k = n" by simp
  then have "[k..<n] = []" by simp
  then show ?case using 0 \<open>k = n\<close> by (simp only: loop.simps) (intro yields_ret)
next
  case (Suc d)
  then have "[k..<n] = k # [Suc k..<n]" by (simp add: upt_conv_Cons)
  moreover have "yields pan (loop f y [Suc k..<n]) (I n) E" if "I (Suc k) y" for y
    by (rule Suc.hyps(1)) (use Suc that in auto)
  ultimately show ?case
    using Suc by (simp only: loop.simps) (rule yields_bnd[where R = "I (Suc k)"], auto)
qed

lemma yields_ok_or: "m = Some x \<Longrightarrow> Q x \<Longrightarrow> yields pan (ok_or e m) Q E"
  by (simp add: yields_ret)

lemma yields_ok_or_any: "(\<And>x. m = Some x \<Longrightarrow> Q x) \<Longrightarrow> E e \<Longrightarrow> yields pan (ok_or e m) Q E"
  by (cases m) (simp_all add: yields_ret yields_fail)

end
