(* ===== verification/Ggml_Facts.thy ===== *)
theory Ggml_Facts imports Ggml Sm_Spec "HOL-Library.Multiset" begin

text \<open>
  What the ggml operations return when their operands have the shapes the engine gives
  them, and what they leave alone: recording an operation touches neither the data nor the
  ledger of resources.
\<close>

section \<open>Shapes\<close>

text \<open>A contiguous tensor that starts at its data: a fresh one, or a reshaped one.\<close>

definition plain :: "tensor \<Rightarrow> int \<Rightarrow> dims \<Rightarrow> bool" where
  "plain t ty ne \<longleftrightarrow>
     tn_type t = ty \<and> tn_ne t = ne \<and> tn_nb t = strides ty ne \<and> tn_offs t = 0 \<and>
     tn_root_bytes t = nbytes_of ty ne (strides ty ne)"

definition floats :: "tensor \<Rightarrow> dims \<Rightarrow> bool" where
  "floats t ne \<longleftrightarrow> tn_type t = 0 \<and> tn_ne t = ne"

definition weight_shape :: "tensor \<Rightarrow> int \<Rightarrow> int \<Rightarrow> bool" where
  "weight_shape t n m \<longleftrightarrow> tn_ne t = D4 n m 1 1 \<and> d0 (tn_nb t) \<le> d1 (tn_nb t) \<and> tn_type t \<noteq> 26"

lemma plain_floats: "plain t 0 ne \<Longrightarrow> floats t ne"
  by (simp add: plain_def floats_def)

lemma fresh_plain [simp]: "plain (fresh_tensor i ty ne) ty ne"
  by (simp add: plain_def fresh_tensor_def)

lemma plain_bytes:
  assumes "ty = 0 \<or> ty = 26"
  shows "nbytes_of ty (D4 a b c d) (strides ty (D4 a b c d)) = 4 * (a * b * c * d)"
  using assms by (auto simp: nbytes_of_def type_size_def blck_size_def Let_def algebra_simps)

lemma plain_nbytes:
  "plain t ty (D4 a b c d) \<Longrightarrow> ty = 0 \<or> ty = 26 \<Longrightarrow> nbytes t = 4 * (a * b * c * d)"
  using plain_bytes[of ty a b c d] by (auto simp: plain_def nbytes_def)

lemma plain_contiguous: "plain t 0 ne \<Longrightarrow> is_contiguous_n n t"
  by (cases ne) (auto simp: plain_def is_contiguous_n_def contig_step_def type_size_def blck_size_def Let_def)

lemma plain_padded: "plain t 0 ne \<Longrightarrow> is_padded_1d t"
  by (cases ne) (auto simp: plain_def is_padded_1d_def type_size_def blck_size_def Let_def)

lemma plain_not_transposed: "plain t 0 ne \<Longrightarrow> 1 \<le> d0 ne \<Longrightarrow> \<not> is_transposed t"
  by (cases ne) (auto simp: plain_def is_transposed_def type_size_def blck_size_def Let_def)

lemma plain_view_fits:
  assumes "plain t 0 (D4 a b c d)" "a' * b' * c' * d' \<le> a * b * c * d"
  shows "view_fits t (D4 a' b' c' d') 0"
  using assms plain_bytes[of 0 a b c d]
  by (auto simp: plain_def view_fits_def data_size_def type_size_def blck_size_def algebra_simps)

lemma yields_node:
  assumes "\<And>i. Q (mk i)" shows "yields pan (new_node op srcs mk) Q E"
  using assms by (simp add: yields_def spec_def new_node_def)

lemma yields_assert: "C \<Longrightarrow> yields pan m Q E \<Longrightarrow> yields pan (gassert C m) Q E"
  by (simp add: gassert_def)

lemma yields_dup: "floats a ne \<Longrightarrow> yields pan (dup_node op srcs a) (\<lambda>t. plain t 0 ne) E"
  by (auto simp: dup_node_def floats_def intro!: yields_node)

lemma yields_new_tensor [yields_intros]:
  "yields pan (ggml_new_tensor ty ne) (\<lambda>t. plain t ty ne) E"
  by (simp add: ggml_new_tensor_def yields_node)

lemma yields_get_rows:
  "weight_shape w n m \<Longrightarrow> plain b 26 (D4 k 1 1 1) \<Longrightarrow>
    yields pan (ggml_get_rows w b) (\<lambda>t. plain t 0 (D4 n k 1 1)) E"
  by (auto simp: ggml_get_rows_def weight_shape_def plain_def[of b] intro!: yields_assert yields_node)

lemma yields_rms_norm: "floats a ne \<Longrightarrow> yields pan (ggml_rms_norm a eps) (\<lambda>t. plain t 0 ne) E"
  by (simp add: ggml_rms_norm_def yields_dup)

lemma yields_cont: "floats a ne \<Longrightarrow> yields pan (ggml_cont a) (\<lambda>t. plain t 0 ne) E"
  by (simp add: ggml_cont_def yields_dup)

lemma yields_mul_weight:
  "floats a (D4 n m 1 1) \<Longrightarrow> weight_shape w n 1 \<Longrightarrow> 1 \<le> n \<Longrightarrow>
    yields pan (ggml_mul a w) (\<lambda>t. plain t 0 (D4 n m 1 1)) E"
  unfolding ggml_mul_def
  by (intro yields_assert yields_dup) (simp_all add: weight_shape_def floats_def can_repeat_def is_empty_def)

lemma can_repeat_same: "tn_ne a = tn_ne b \<Longrightarrow> can_repeat a b"
  by (simp add: can_repeat_def)

lemma yields_mul_same:
  "floats a ne \<Longrightarrow> floats b ne \<Longrightarrow> yields pan (ggml_mul a b) (\<lambda>t. plain t 0 ne) E"
  unfolding ggml_mul_def by (intro yields_assert yields_dup can_repeat_same) (simp_all add: floats_def)

lemma yields_add:
  "floats a ne \<Longrightarrow> floats b ne \<Longrightarrow> yields pan (ggml_add a b) (\<lambda>t. plain t 0 ne) E"
  unfolding ggml_add_def by (intro yields_assert yields_dup can_repeat_same) (simp_all add: floats_def)

lemma yields_mul_mat_weight:
  "weight_shape w n k \<Longrightarrow> floats x (D4 n m 1 1) \<Longrightarrow>
    yields pan (ggml_mul_mat w x) (\<lambda>t. plain t 0 (D4 k m 1 1)) E"
  unfolding ggml_mul_mat_def
  by (intro yields_assert yields_node)
    (simp_all add: weight_shape_def floats_def can_mul_mat_def is_transposed_def)

lemma yields_mul_mat_heads:
  "plain a 0 (D4 n k g 1) \<Longrightarrow> floats b (D4 n m h 1) \<Longrightarrow> 1 \<le> n \<Longrightarrow> g \<noteq> 0 \<Longrightarrow> h mod g = 0 \<Longrightarrow>
    yields pan (ggml_mul_mat a b) (\<lambda>t. plain t 0 (D4 k m h 1)) E"
  unfolding ggml_mul_mat_def
  by (intro yields_assert yields_node)
    (simp_all add: is_transposed_def type_size_def blck_size_def Let_def can_mul_mat_def floats_def plain_def[of a])

lemma yields_reshape:
  assumes "plain a 0 (D4 a0 a1 a2 a3)" "a0 * a1 * a2 * a3 = b0 * b1 * b2 * b3"
  shows "yields pan (ggml_reshape a (D4 b0 b1 b2 b3)) (\<lambda>t. plain t 0 (D4 b0 b1 b2 b3)) E"
  unfolding ggml_reshape_def
proof (intro yields_assert yields_node)
  show "is_contiguous a \<and> nelements a = d0 (D4 b0 b1 b2 b3) * d1 (D4 b0 b1 b2 b3) * d2 (D4 b0 b1 b2 b3) * d3 (D4 b0 b1 b2 b3) \<and>
      view_fits a (D4 b0 b1 b2 b3) 0"
    using assms plain_contiguous[OF assms(1)] plain_view_fits[OF assms(1), of b0 b1 b2 b3]
    by (simp add: nelements_def plain_def)
  show "plain (view_tensor i a (D4 b0 b1 b2 b3) (strides (tn_type a) (D4 b0 b1 b2 b3)) 0) 0 (D4 b0 b1 b2 b3)" for i
    using assms plain_bytes[of 0 a0 a1 a2 a3] plain_bytes[of 0 b0 b1 b2 b3]
    by (simp add: plain_def view_tensor_def)
qed

lemma yields_reshape_2d:
  "plain a 0 (D4 a0 a1 a2 a3) \<Longrightarrow> a0 * a1 * a2 * a3 = b0 * b1 \<Longrightarrow>
    yields pan (ggml_reshape_2d a b0 b1) (\<lambda>t. plain t 0 (D4 b0 b1 1 1)) E"
  by (simp add: ggml_reshape_2d_def yields_reshape)

lemma yields_reshape_3d:
  "plain a 0 (D4 a0 a1 a2 a3) \<Longrightarrow> a0 * a1 * a2 * a3 = b0 * b1 * b2 \<Longrightarrow>
    yields pan (ggml_reshape_3d a b0 b1 b2) (\<lambda>t. plain t 0 (D4 b0 b1 b2 1)) E"
  by (simp add: ggml_reshape_3d_def yields_reshape)

lemma yields_permute_0213:
  "plain a 0 (D4 a0 a1 a2 a3) \<Longrightarrow>
    yields pan (ggml_permute_0213 a) (\<lambda>t. floats t (D4 a0 a2 a1 a3)) E"
  unfolding ggml_permute_0213_def Let_def
  by (intro yields_assert yields_node)
    (simp_all add: plain_view_fits plain_def[of a] floats_def view_tensor_def view_fits_def
      data_size_def plain_bytes type_size_def blck_size_def Let_def algebra_simps nbytes_of_def)

lemma yields_permute_1203:
  "plain a 0 (D4 a0 a1 a2 a3) \<Longrightarrow>
    yields pan (ggml_permute_1203 a) (\<lambda>t. floats t (D4 a2 a0 a1 a3)) E"
  unfolding ggml_permute_1203_def Let_def
  by (intro yields_assert yields_node)
    (simp_all add: plain_view_fits plain_def[of a] floats_def view_tensor_def view_fits_def
      data_size_def plain_bytes type_size_def blck_size_def Let_def algebra_simps nbytes_of_def)

lemma yields_scale: "plain a 0 ne \<Longrightarrow> yields pan (ggml_scale a x) (\<lambda>t. plain t 0 ne) E"
  unfolding ggml_scale_def by (intro yields_assert yields_dup plain_floats plain_padded)

lemma yields_silu: "plain a 0 ne \<Longrightarrow> yields pan (ggml_silu a) (\<lambda>t. plain t 0 ne) E"
  unfolding ggml_silu_def by (intro yields_assert yields_dup plain_floats plain_contiguous)

lemma yields_rope:
  "plain a 0 (D4 a0 a1 n 1) \<Longrightarrow> plain p 26 (D4 n 1 1 1) \<Longrightarrow> even mode \<Longrightarrow>
    yields pan (ggml_rope_ext a p nd mode nc ps) (\<lambda>t. plain t 0 (D4 a0 a1 n 1)) E"
  unfolding ggml_rope_ext_def
  by (intro yields_assert yields_dup plain_floats) (simp_all add: plain_def)

lemma yields_soft_max:
  assumes "plain a 0 (D4 a0 a1 a2 a3)" "\<not> max_bias > 0"
    and "\<And>m. msk = Some m \<Longrightarrow> plain m 0 (D4 a0 a1 1 1)"
  shows "yields pan (ggml_soft_max_ext a msk scale max_bias) (\<lambda>t. plain t 0 (D4 a0 a1 a2 a3)) E"
proof -
  have "is_contiguous a" by (rule plain_contiguous[OF assms(1)])
  moreover have "plain m 0 (D4 a0 a1 1 1) \<and> is_contiguous m" if "msk = Some m" for m
    using assms(3)[OF that] plain_contiguous by blast
  ultimately show ?thesis
    unfolding ggml_soft_max_ext_def using assms(1,2)
    by (intro yields_assert yields_dup plain_floats) (auto simp: plain_def split: option.splits)
qed

text \<open>Rows of a cache tensor.\<close>

definition rows_of :: "tensor \<Rightarrow> tensor \<Rightarrow> int \<Rightarrow> int \<Rightarrow> int \<Rightarrow> bool" where
  "rows_of v t row n offs \<longleftrightarrow>
     floats v (D4 row n 1 1) \<and> tn_root v = tn_root t \<and> tn_offs v = offs \<and> tn_root_bytes v = tn_root_bytes t"

lemma yields_view_2d:
  assumes "plain t 0 (D4 row nc 1 1)" "row * n * 4 + offs \<le> row * nc * 4"
  shows "yields pan (ggml_view_2d t row n nb offs) (\<lambda>v. rows_of v t row n offs) E"
  unfolding ggml_view_2d_def Let_def using assms plain_bytes[of 0 row nc 1 1]
  by (intro yields_assert yields_node)
    (simp_all add: view_fits_def plain_def data_size_def type_size_def blck_size_def rows_of_def floats_def
      view_tensor_def algebra_simps)

lemma yields_view_1d:
  assumes "plain t 0 (D4 n m 1 1)" "n * 4 + offs \<le> n * m * 4"
  shows "yields pan (ggml_view_1d t n offs) (\<lambda>v. floats v (D4 n 1 1 1)) E"
  unfolding ggml_view_1d_def Let_def using assms plain_bytes[of 0 n m 1 1]
  by (intro yields_assert yields_node)
    (simp_all add: view_fits_def plain_def data_size_def type_size_def blck_size_def floats_def
      view_tensor_def algebra_simps)

lemma yields_cpy:
  assumes "plain a 0 (D4 row n 1 1)" "rows_of v t row n offs"
    and "plain t 0 (D4 row nc 1 1)" "row * n * 4 + offs \<le> row * nc * 4"
  shows "yields pan (ggml_cpy a v) (\<lambda>_. True) E"
  unfolding ggml_cpy_def using assms plain_bytes[of 0 row nc 1 1]
  by (intro yields_assert yields_node)
    (simp_all add: nelements_def plain_def rows_of_def floats_def view_fits_def data_size_def type_size_def
      blck_size_def algebra_simps)

section \<open>Recording operations\<close>

definition quiet :: "('a, 'e) act \<Rightarrow> bool" where
  "quiet m \<longleftrightarrow>
     (\<forall>w. w_mem (snd (m w)) = w_mem w \<and> w_live (snd (m w)) = w_live w \<and> w_next w \<le> w_next (snd (m w)))"

named_theorems quiet_intros \<open>operations that only record\<close>

lemma quiet_ret [quiet_intros]: "quiet (ret x)"
  and quiet_fail [quiet_intros]: "quiet (fail e)"
  and quiet_abort [quiet_intros]: "quiet abort"
  by (simp_all add: quiet_def)

lemma quiet_bnd [quiet_intros]:
  assumes "quiet m" "\<And>x. quiet (f x)" shows "quiet (bnd m f)"
  unfolding quiet_def
proof (intro allI)
  fix w
  obtain r t where m: "m w = (r, t)" by fastforce
  show "w_mem (snd (bnd m f w)) = w_mem w \<and> w_live (snd (bnd m f w)) = w_live w \<and>
      w_next w \<le> w_next (snd (bnd m f w))"
    using assms(1)[unfolded quiet_def, rule_format, of w] m
      assms(2)[unfolded quiet_def, rule_format, of _ t]
    by (cases r) (auto intro: le_trans)
qed

lemma quiet_loop [quiet_intros]:
  assumes "\<And>x a. quiet (f x a)" shows "quiet (loop f x as)"
  using assms by (induction as arbitrary: x) (auto intro: quiet_intros simp del: sm_simps)

lemma quiet_assert [quiet_intros]: "quiet m \<Longrightarrow> quiet (gassert C m)"
  by (simp add: gassert_def quiet_abort del: sm_simps)

lemma quiet_ok_or [quiet_intros]: "quiet (ok_or e m)"
  by (cases m) (simp_all add: quiet_ret quiet_fail del: sm_simps)

lemma quiet_node [quiet_intros]: "quiet (new_node op srcs mk)"
  by (simp add: quiet_def new_node_def)

lemma quiet_prod [quiet_intros]: "(\<And>a b. quiet (f a b)) \<Longrightarrow> quiet (case p of (a, b) \<Rightarrow> f a b)"
  by (cases p) simp

lemmas ggml_op_defs =
  ggml_new_tensor_def dup_node_def ggml_get_rows_def ggml_rms_norm_def ggml_mul_def ggml_add_def
  ggml_mul_mat_def ggml_scale_def ggml_silu_def ggml_cont_def ggml_reshape_def ggml_reshape_2d_def
  ggml_reshape_3d_def ggml_view_1d_def ggml_view_2d_def ggml_permute_0213_def ggml_permute_1203_def
  ggml_soft_max_ext_def ggml_rope_ext_def ggml_cpy_def

lemma quiet_ops [quiet_intros]:
  "quiet (ggml_new_tensor ty ne)" "quiet (ggml_get_rows a b)" "quiet (ggml_rms_norm a eps)"
  "quiet (ggml_mul a b)" "quiet (ggml_add a b)" "quiet (ggml_mul_mat a b)" "quiet (ggml_scale a x)"
  "quiet (ggml_silu a)" "quiet (ggml_cont a)" "quiet (ggml_reshape_2d a n m)"
  "quiet (ggml_reshape_3d a n m k)" "quiet (ggml_view_1d a n offs)" "quiet (ggml_view_2d a n m nb offs)"
  "quiet (ggml_permute_0213 a)" "quiet (ggml_permute_1203 a)" "quiet (ggml_soft_max_ext a msk x y)"
  "quiet (ggml_rope_ext a b n mode nc ps)" "quiet (ggml_cpy a b)"
  unfolding ggml_op_defs Let_def by (intro quiet_intros)+

section \<open>The ledger and the data\<close>

text \<open>The live resources are \<open>L\<close>, and the tensors of \<open>dom M\<close> have the contents \<open>M\<close>.\<close>

definition holds :: "resource multiset \<Rightarrow> (nat \<rightharpoonup> u32 list) \<Rightarrow> world \<Rightarrow> bool" where
  "holds L M w \<longleftrightarrow>
     mset (w_live w) = L \<and> (\<forall>r xs. M r = Some xs \<longrightarrow> w_mem w r = xs \<and> r < w_next w)"

lemma spec_quiet:
  assumes "quiet m" "yields pan m R EE" "\<And>e s. EE e \<Longrightarrow> holds L M s \<Longrightarrow> E e s"
    and "\<And>x s. R x \<Longrightarrow> holds L M s \<Longrightarrow> Q x s"
  shows "spec (holds L M) m Q E pan"
  unfolding spec_def
proof (intro allI impI)
  fix s assume h: "holds L M s"
  obtain r t where m: "m s = (r, t)" by fastforce
  have "holds L M t"
    using h assms(1)[unfolded quiet_def, rule_format, of s] m
    by (auto simp: holds_def intro: less_le_trans)
  moreover have "ends_in (\<lambda>x _. R x) (\<lambda>e _. EE e) pan (r, t)"
    using assms(2) m by (auto simp: yields_def spec_def dest: spec[of _ s])
  ultimately show "ends_in Q E pan (m s)"
    using m assms(3,4) by (cases r) auto
qed

lemma spec_quiet_bnd:
  assumes "quiet m" "yields pan m R EE" "\<And>e s. EE e \<Longrightarrow> holds L M s \<Longrightarrow> E e s"
    and "\<And>x. R x \<Longrightarrow> spec (holds L M) (f x) Q E pan"
  shows "spec (holds L M) (bnd m f) Q E pan"
  by (rule spec_bnd_pure[where C = R and R = "\<lambda>_. holds L M"])
    (use assms spec_quiet[OF assms(1-3), where Q = "\<lambda>x s. R x \<and> holds L M s"] in auto)

lemma spec_acquire:
  assumes "\<And>i. spec (holds (add_mset (k i) L) M) (f (Some i)) Q E pan"
    and "spec (holds L M) (f None) Q E pan"
  shows "spec (holds L M) (bnd (acquire env k) f) Q E pan"
proof (rule spec_bnd)
  show "spec (holds L M) (acquire env k)
      (\<lambda>r. holds (case r of None \<Rightarrow> L | Some i \<Rightarrow> add_mset (k i) L) M) E pan"
    by (auto simp: spec_def acquire_def holds_def Let_def less_Suc_eq)
  show "spec (holds (case r of None \<Rightarrow> L | Some i \<Rightarrow> add_mset (k i) L) M) (f r) Q E pan" for r
    using assms by (cases r) auto
qed

lemma spec_release:
  assumes "r \<in># L" "spec (holds (L - {#r#}) M) (f ()) Q E pan"
  shows "spec (holds L M) (bnd (release r) f) Q E pan"
proof (rule spec_bnd)
  show "spec (holds L M) (release r) (\<lambda>_. holds (L - {#r#}) M) E pan"
    using assms(1) by (auto simp: spec_def release_def holds_def)
qed (use assms(2) in simp)

lemma bnd_assoc: "bnd (bnd m f) g = bnd m (\<lambda>x. bnd (f x) g)"
proof
  fix s
  obtain r t where "m s = (r, t)" by fastforce
  then show "bnd (bnd m f) g s = bnd m (\<lambda>x. bnd (f x) g) s" by (cases r) (auto simp: bnd_def)
qed

lemma bnd_ret: "bnd (ret x) f = f x"
  by (auto simp: bnd_def)

lemma bnd_ret_right: "bnd m ret = m"
proof
  fix s
  obtain r t where "m s = (r, t)" by fastforce
  then show "bnd m ret s = m s" by (cases r) auto
qed

lemma spec_alloc_buffer:
  assumes "\<And>b. bf_size b = sz + 32 \<Longrightarrow> spec (holds (add_mset (RBuffer (bf_id b)) L) M) (f (Some b)) Q E pan"
    and "spec (holds L M) (f None) Q E pan"
  shows "spec (holds L M) (bnd (ggml_backend_alloc_buffer env sz) f) Q E pan"
  unfolding ggml_backend_alloc_buffer_def bnd_assoc bnd_ret
  by (rule spec_acquire)
    (use assms(1)[of "\<lparr>bf_id = _, bf_base = _, bf_size = sz + 32\<rparr>"] assms(2) in auto)

lemma spec_init:
  "(\<And>i. spec (holds (add_mset (RContext i) L) M) (f (Some i)) Q E pan) \<Longrightarrow>
   spec (holds L M) (f None) Q E pan \<Longrightarrow> spec (holds L M) (bnd (ggml_init env) f) Q E pan"
  unfolding ggml_init_def by (rule spec_acquire)

lemma spec_gallocr_new:
  "(\<And>i. spec (holds (add_mset (RGallocr i) L) M) (f (Some i)) Q E pan) \<Longrightarrow>
   spec (holds L M) (f None) Q E pan \<Longrightarrow> spec (holds L M) (bnd (ggml_gallocr_new env) f) Q E pan"
  unfolding ggml_gallocr_new_def by (rule spec_acquire)

lemma spec_alloc_graph:
  assumes "\<And>ok. spec (holds L M) (f ok) Q E pan"
  shows "spec (holds L M) (bnd (ggml_gallocr_alloc_graph env) f) Q E pan"
proof (rule spec_bnd)
  show "spec (holds L M) (ggml_gallocr_alloc_graph env) (\<lambda>_. holds L M) E pan"
    by (auto simp: spec_def ggml_gallocr_alloc_graph_def holds_def less_Suc_eq)
qed (use assms in simp)

lemma spec_frees:
  "RContext c \<in># L \<Longrightarrow> spec (holds (L - {#RContext c#}) M) (f ()) Q E pan \<Longrightarrow> spec (holds L M) (bnd (ggml_free c) f) Q E pan"
  "RBuffer (bf_id b) \<in># L \<Longrightarrow> spec (holds (L - {#RBuffer (bf_id b)#}) M) (f ()) Q E pan \<Longrightarrow>
    spec (holds L M) (bnd (ggml_backend_buffer_free b) f) Q E pan"
  "RGallocr g \<in># L \<Longrightarrow> spec (holds (L - {#RGallocr g#}) M) (f ()) Q E pan \<Longrightarrow> spec (holds L M) (bnd (ggml_gallocr_free g) f) Q E pan"
  unfolding ggml_free_def ggml_backend_buffer_free_def ggml_gallocr_free_def by (erule (1) spec_release)+

lemma spec_assert_bnd:
  "(\<not> C \<Longrightarrow> pan) \<Longrightarrow> spec P (bnd m f) Q E pan \<Longrightarrow> spec P (bnd (gassert C m) f) Q E pan"
  by (cases C) (simp_all add: gassert_def spec_def)

text \<open>A new tensor and its place in a buffer.\<close>

lemma spec_place:
  fixes E :: "'e \<Rightarrow> world \<Rightarrow> bool"
  assumes "pan \<or> (bf_base b \<le> addr \<and> addr + nbytes_of ty ne (strides ty ne) \<le> bf_base b + bf_size b)"
    and "\<And>t. plain t ty ne \<Longrightarrow> tn_root t = tn_id t \<Longrightarrow> M (tn_root t) = None \<Longrightarrow>
      spec (holds L (M(tn_root t \<mapsto> replicate (nat (nbytes t) div 4) 0))) (f t) Q E pan"
  shows "spec (holds L M) (bnd (ggml_new_tensor ty ne) (\<lambda>t. bnd (ggml_backend_tensor_alloc b t addr) (\<lambda>_. f t))) Q E pan"
  unfolding spec_def
proof (intro allI impI)
  fix s assume h: "holds L M s"
  define t where "t = fresh_tensor (w_next s) ty ne"
  define s1 where "s1 = s\<lparr>w_next := Suc (w_next s), w_nodes := w_nodes s @ [(w_next s, OpNone, [])]\<rparr>"
  define s2 where "s2 = s1\<lparr>w_mem := (w_mem s1)(tn_root t := replicate (nat (nbytes t) div 4) 0)\<rparr>"
  have new: "(ggml_new_tensor ty ne :: (tensor, 'e) act) s = (Ret t, s1)"
    by (simp add: ggml_new_tensor_def new_node_def t_def s1_def)
  have t: "plain t ty ne" "tn_root t = tn_id t" "tn_root t = w_next s"
    by (simp_all add: t_def) (simp_all add: fresh_tensor_def)
  have free: "M (tn_root t) = None"
    using h t(3) by (cases "M (tn_root t)") (auto simp: holds_def)
  let ?C = "bf_base b \<le> addr \<and> addr + nbytes t \<le> bf_base b + bf_size b"
  have al: "(ggml_backend_tensor_alloc b t addr :: (unit, 'e) act) s1 = (if ?C then (Ret (), s2) else (Panic, s1))"
    by (simp add: ggml_backend_tensor_alloc_def gassert_def s2_def)
  have h2: "holds L (M(tn_root t \<mapsto> replicate (nat (nbytes t) div 4) 0)) s2"
    using h t(3) by (auto simp: holds_def s2_def s1_def intro: less_SucI)
  show "ends_in Q E pan (bnd (ggml_new_tensor ty ne) (\<lambda>t. bnd (ggml_backend_tensor_alloc b t addr) (\<lambda>_. f t)) s)"
  proof (cases ?C)
    case True
    then show ?thesis
      using assms(2)[OF t(1,2) free] h2 new al by (simp add: spec_def)
  next
    case False
    moreover have "nbytes t = nbytes_of ty ne (strides ty ne)"
      using t(1) by (simp add: plain_def nbytes_def)
    ultimately show ?thesis using assms(1) new al by auto
  qed
qed

lemma spec_tensor_set:
  fixes E :: "'e \<Rightarrow> world \<Rightarrow> bool"
  assumes "pan \<or> offset + sz \<le> nbytes t" "M (tn_root t) = Some xs"
    and "offset + sz \<le> nbytes t \<Longrightarrow>
      spec (holds L (M(tn_root t \<mapsto> overwrite xs (nat (tn_offs t + offset) div 4) (take (nat sz div 4) ws)))) (f ()) Q E pan"
  shows "spec (holds L M) (bnd (ggml_backend_tensor_set t ws offset sz) f) Q E pan"
  unfolding spec_def
proof (intro allI impI)
  fix s assume h: "holds L M s"
  let ?C = "offset + sz \<le> nbytes t"
  let ?xs = "overwrite xs (nat (tn_offs t + offset) div 4) (take (nat sz div 4) ws)"
  define s2 where "s2 = s\<lparr>w_mem := (w_mem s)(tn_root t := ?xs)\<rparr>"
  have set: "(ggml_backend_tensor_set t ws offset sz :: (unit, 'e) act) s = (if ?C then (Ret (), s2) else (Panic, s))"
    using h assms(2) by (simp add: ggml_backend_tensor_set_def gassert_def s2_def holds_def)
  have h2: "holds L (M(tn_root t \<mapsto> ?xs)) s2"
    using h assms(2) by (auto simp: holds_def s2_def)
  show "ends_in Q E pan (bnd (ggml_backend_tensor_set t ws offset sz) f s)"
    using assms(1,3) set h2 by (cases ?C) (auto simp: spec_def)
qed

lemma length_fit [simp]: "length (fit n xs) = n"
  by (simp add: fit_def)

lemma spec_tensor_get:
  assumes "pan \<or> sz \<le> nbytes t"
    and "\<And>xs. length xs = nat sz div 4 \<Longrightarrow> spec (holds L M) (f xs) Q E pan"
  shows "spec (holds L M) (bnd (ggml_backend_tensor_get t sz) f) Q E pan"
proof (rule spec_bnd_pure[where C = "\<lambda>xs. length xs = nat sz div 4" and R = "\<lambda>_. holds L M"])
  show "spec (holds L M) (ggml_backend_tensor_get t sz) (\<lambda>xs s. length xs = nat sz div 4 \<and> holds L M s) E pan"
    using assms(1) by (auto simp: spec_def ggml_backend_tensor_get_def gassert_def)
qed (use assms(2) in simp)

text \<open>A computation performs a prefix of its copies, all of them when it succeeds.\<close>

fun copied :: "(nat \<Rightarrow> u32 list) \<Rightarrow> copy_op list \<Rightarrow> (nat \<rightharpoonup> u32 list) \<Rightarrow> nat \<rightharpoonup> u32 list" where
  "copied val [] M = M"
| "copied val (c # cs) M =
     copied val cs
       (M(tn_root (cp_dst c) \<mapsto>
          overwrite (the (M (tn_root (cp_dst c)))) (nat (tn_offs (cp_dst c)) div 4)
            (fit (nat (nelements (cp_src c))) (val (tn_id (cp_src c))))))"

lemma copied_holds:
  assumes "\<forall>r xs. M r = Some xs \<longrightarrow> mem r = xs \<and> r < n" "\<forall>c\<in>set cs. tn_root (cp_dst c) \<in> dom M"
  shows "\<forall>r xs. copied val cs M r = Some xs \<longrightarrow> do_copies val cs mem r = xs \<and> r < n"
  using assms
proof (induction cs arbitrary: M mem)
  case (Cons c cs)
  let ?r = "tn_root (cp_dst c)"
  obtain ys where "M ?r = Some ys" using Cons.prems(2) by auto
  then have "\<forall>r xs. (M(?r \<mapsto> overwrite (the (M ?r)) (nat (tn_offs (cp_dst c)) div 4)
        (fit (nat (nelements (cp_src c))) (val (tn_id (cp_src c)))))) r = Some xs \<longrightarrow>
      (mem(?r := overwrite (mem ?r) (nat (tn_offs (cp_dst c)) div 4)
        (fit (nat (nelements (cp_src c))) (val (tn_id (cp_src c)))))) r = xs \<and> r < n"
    using Cons.prems(1) by auto
  then show ?case
    using Cons.prems(2) by (simp only: copied.simps do_copies.simps) (rule Cons.IH, auto)
qed simp

lemma spec_compute:
  fixes E :: "'e \<Rightarrow> world \<Rightarrow> bool"
  assumes "\<forall>c\<in>set cs. tn_root (cp_dst c) \<in> dom M"
    and "\<And>val cs' status. (status = 0 \<longrightarrow> cs' = cs) \<Longrightarrow> (\<exists>n. cs' = take n cs) \<Longrightarrow>
      spec (holds L (copied val cs' M)) (f status) Q E pan"
  shows "spec (holds L M) (bnd (ggml_backend_graph_compute env cs) f) Q E pan"
  unfolding spec_def
proof (intro allI impI)
  fix s assume h: "holds L M s"
  define st where "st = ge_status env (w_next s)"
  define cs' where "cs' = (if st = 0 then cs else take (ge_done env (w_next s)) cs)"
  define val where "val = ge_eval env (w_nodes s) (w_mem s)"
  define s2 where "s2 = s\<lparr>w_next := Suc (w_next s), w_mem := do_copies val cs' (w_mem s), w_vals := val\<rparr>"
  have c: "(ggml_backend_graph_compute env cs :: (int, 'e) act) s = (Ret st, s2)"
    by (simp add: ggml_backend_graph_compute_def Let_def st_def cs'_def val_def s2_def)
  have sub: "\<exists>n. cs' = take n cs"
    by (auto simp: cs'_def intro: exI[of _ "length cs"])
  then have "\<forall>c\<in>set cs'. tn_root (cp_dst c) \<in> dom M"
    using assms(1) by (auto dest: in_set_takeD)
  then have "\<forall>r xs. copied val cs' M r = Some xs \<longrightarrow> do_copies val cs' (w_mem s) r = xs \<and> r < w_next s"
    using h copied_holds[of M "w_mem s" "w_next s" cs' val] by (simp add: holds_def)
  then have "holds L (copied val cs' M) s2"
    using h by (auto simp: holds_def s2_def less_Suc_eq)
  moreover have "spec (holds L (copied val cs' M)) (f st) Q E pan"
    by (rule assms(2)[OF _ sub]) (simp add: cs'_def)
  ultimately show "ends_in Q E pan (bnd (ggml_backend_graph_compute env cs) f s)"
    using c by (simp add: spec_def)
qed

section \<open>Values of the calls that touch buffers\<close>

text \<open>An environment in which nothing fails.\<close>

definition never_fails :: "ggml_env \<Rightarrow> bool" where
  "never_fails env \<longleftrightarrow> (\<forall>i. ge_alloc env i) \<and> (\<forall>i. ge_status env i = 0)"

lemma yields_acquire: "yields pan (acquire env k) (\<lambda>r. never_fails env \<longrightarrow> r \<noteq> None) E"
  by (auto simp: yields_def spec_def acquire_def Let_def never_fails_def)

lemma yields_init: "yields pan (ggml_init env) (\<lambda>r. never_fails env \<longrightarrow> r \<noteq> None) E"
  unfolding ggml_init_def by (rule yields_acquire)

lemma yields_gallocr: "yields pan (ggml_gallocr_new env) (\<lambda>r. never_fails env \<longrightarrow> r \<noteq> None) E"
  unfolding ggml_gallocr_new_def by (rule yields_acquire)

lemma yields_alloc_graph: "yields pan (ggml_gallocr_alloc_graph env) (\<lambda>ok. never_fails env \<longrightarrow> ok) E"
  by (simp add: yields_def spec_def ggml_gallocr_alloc_graph_def never_fails_def)

lemma yields_compute: "yields pan (ggml_backend_graph_compute env cs) (\<lambda>st. never_fails env \<longrightarrow> st = 0) E"
  by (simp add: yields_def spec_def ggml_backend_graph_compute_def Let_def never_fails_def)

lemma yields_alloc_buffer:
  "yields pan (ggml_backend_alloc_buffer env sz)
     (\<lambda>r. (never_fails env \<longrightarrow> r \<noteq> None) \<and> (\<forall>b. r = Some b \<longrightarrow> bf_size b = sz + 32)) E"
  unfolding ggml_backend_alloc_buffer_def
  by (rule yields_bnd[OF yields_acquire]) (auto intro!: yields_ret simp del: sm_simps)

lemma yields_tensor_alloc:
  "bf_base b \<le> addr \<Longrightarrow> addr + nbytes t \<le> bf_base b + bf_size b \<Longrightarrow>
    yields pan (ggml_backend_tensor_alloc b t addr) (\<lambda>_. True) E"
  by (simp add: yields_def spec_def ggml_backend_tensor_alloc_def gassert_def)

lemma yields_tensor_set:
  "offset + sz \<le> nbytes t \<Longrightarrow> yields pan (ggml_backend_tensor_set t ws offset sz) (\<lambda>_. True) E"
  by (simp add: yields_def spec_def ggml_backend_tensor_set_def gassert_def)

lemma yields_tensor_get:
  "sz \<le> nbytes t \<Longrightarrow> yields pan (ggml_backend_tensor_get t sz) (\<lambda>_. True) E"
  by (simp add: yields_def spec_def ggml_backend_tensor_get_def gassert_def)

lemma yields_release: "yields pan (release r) (\<lambda>_. True) E"
  by (simp add: yields_def spec_def release_def)

lemma yields_frees:
  "yields pan (ggml_free c) (\<lambda>_. True) E" "yields pan (ggml_backend_buffer_free b) (\<lambda>_. True) E"
  "yields pan (ggml_gallocr_free g) (\<lambda>_. True) E"
  unfolding ggml_free_def ggml_backend_buffer_free_def ggml_gallocr_free_def by (rule yields_release)+

end
