(* ===== verification/Graph_Facts.thy ===== *)
theory Graph_Facts imports Graph Ggml_Facts begin

text \<open>
  Lemmas on the graph builder: what a well-shaped model is, the shapes along a layer, what
  the two builders do to the resources and to the cache.
\<close>

section \<open>Well-shaped models\<close>

definition dims_ok :: "hparams \<Rightarrow> int \<Rightarrow> bool" where
  "dims_ok hp hdim \<longleftrightarrow>
     hp_embd hp = hdim * hp_head hp \<and> 1 \<le> hdim \<and> 1 \<le> hp_head hp \<and> 1 \<le> hp_head_kv hp \<and>
     hp_head hp mod hp_head_kv hp = 0 \<and> 0 \<le> hp_layer hp \<and> 0 \<le> hp_vocab hp"

definition shaped :: "tensor option \<Rightarrow> int \<Rightarrow> int \<Rightarrow> bool" where
  "shaped m n k \<longleftrightarrow> (case m of Some t \<Rightarrow> weight_shape t n k | None \<Rightarrow> False)"

definition layer_shaped :: "model \<Rightarrow> hparams \<Rightarrow> int \<Rightarrow> nat \<Rightarrow> bool" where
  "layer_shaped md hp hdim l \<longleftrightarrow>
     (let e = hp_embd hp; row = hp_head_kv hp * hdim; ff = hp_ff hp in
      shaped (layer_tensor md l ''attn_norm.weight'') e 1 \<and>
      shaped (layer_tensor md l ''attn_q.weight'') e e \<and>
      shaped (layer_tensor md l ''attn_k.weight'') e row \<and>
      shaped (layer_tensor md l ''attn_v.weight'') e row \<and>
      shaped (layer_tensor md l ''attn_output.weight'') e e \<and>
      shaped (layer_tensor md l ''ffn_norm.weight'') e 1 \<and>
      shaped (layer_tensor md l ''ffn_gate.weight'') e ff \<and>
      shaped (layer_tensor md l ''ffn_up.weight'') e ff \<and>
      shaped (layer_tensor md l ''ffn_down.weight'') ff e)"

definition model_shaped :: "model \<Rightarrow> hparams \<Rightarrow> int \<Rightarrow> int \<Rightarrow> bool" where
  "model_shaped md hp hdim n_out \<longleftrightarrow>
     dims_ok hp hdim \<and> hp_vocab hp \<le> n_out \<and>
     shaped (model_tensor md ''token_embd.weight'') (hp_embd hp) n_out \<and>
     shaped (model_tensor md ''output_norm.weight'') (hp_embd hp) 1 \<and>
     shaped (model_tensor md ''output.weight'') (hp_embd hp) n_out \<and>
     (\<forall>l\<in>set [0..<nat (hp_layer hp)]. layer_shaped md hp hdim l)"

lemma yields_shaped:
  "shaped m n k \<Longrightarrow> yields pan (ok_or e m) (\<lambda>t. weight_shape t n k) E"
  by (cases m) (simp_all add: shaped_def yields_ret del: sm_simps)

lemma yields_weight:
  "shaped (layer_tensor md l name) n k \<Longrightarrow> yields pan (weight md l name) (\<lambda>t. weight_shape t n k) E"
  unfolding weight_def by (rule yields_shaped)

lemma yields_top_weight:
  "shaped (model_tensor md name) n k \<Longrightarrow> yields pan (top_weight md name) (\<lambda>t. weight_shape t n k) E"
  unfolding top_weight_def by (rule yields_shaped)

lemma yields_rope_of:
  "plain a 0 (D4 a0 a1 n 1) \<Longrightarrow> plain p 26 (D4 n 1 1 1) \<Longrightarrow>
    yields pan (rope hp a p) (\<lambda>t. plain t 0 (D4 a0 a1 n 1)) E"
  unfolding rope_def by (rule yields_rope) simp_all

text \<open>Side conditions stand before the shapes, so that the shapes are matched first.\<close>

lemmas yields_steps =
  yields_rms_norm yields_mul_weight[rotated 2] yields_mul_same yields_add yields_mul_mat_weight
  yields_reshape_2d[rotated] yields_reshape_3d[rotated] yields_rope_of yields_cont yields_weight
  yields_top_weight yields_silu yields_scale yields_permute_0213 yields_permute_1203
  yields_mul_mat_heads[rotated 2]

lemma dims_embd:
  assumes "dims_ok hp hdim"
  shows "1 \<le> hp_embd hp" "1 \<le> hp_head_kv hp * hdim"
  using assms mult_mono[of 1 hdim 1 "hp_head hp"] mult_mono[of 1 hdim 1 "hp_head_kv hp"]
  by (simp_all add: dims_ok_def mult.commute)

lemma qkv_shapes:
  assumes "dims_ok hp hdim" "layer_shaped md hp hdim l"
    and "floats cur (D4 (hp_embd hp) n 1 1)" "plain pos 26 (D4 n 1 1 1)"
  shows "yields pan (layer_qkv md hp hdim l n pos cur)
    (\<lambda>(q, k, v). plain q 0 (D4 hdim (hp_head hp) n 1) \<and> plain k 0 (D4 (hp_head_kv hp * hdim) n 1 1) \<and>
       plain v 0 (D4 (hp_head_kv hp * hdim) n 1 1)) E"
proof -
  note d = assms(1)[unfolded dims_ok_def]
  note w = assms(2)[unfolded layer_shaped_def Let_def]
  note e = dims_embd[OF assms(1)]
  show ?thesis
    unfolding layer_qkv_def
    apply (insert d w e assms(3,4))
    apply (elim conjE)
    apply ((rule yields_bnd, (rule yields_steps; (assumption | (rule plain_floats, assumption) | (simp add: mult_ac; fail))))+)
    apply (rule yields_ret)
    apply simp
    done
qed

lemma attend_shapes:
  assumes "dims_ok hp hdim" "1 \<le> kv_len"
    and "plain q 0 (D4 hdim (hp_head hp) n 1)"
    and "floats kr (D4 (hp_head_kv hp * hdim) kv_len 1 1)" "floats vr (D4 (hp_head_kv hp * hdim) kv_len 1 1)"
    and m: "\<And>m. msk = Some m \<Longrightarrow> n = 1 \<and> plain m 0 (D4 kv_len 1 1 1)"
  shows "yields pan (attend hp hdim n kv_len msk q kr vr) (\<lambda>t. plain t 0 (D4 (hp_embd hp) n 1 1)) E"
proof -
  note d = assms(1)[unfolded dims_ok_def]
  have zero: "\<not> (0::f32) > 0" by (simp add: less_f32_def)
  show ?thesis
    unfolding attend_def
    apply (insert d assms(2-5))
    apply (elim conjE)
    apply ((rule yields_bnd, (rule yields_steps; (assumption | (rule plain_floats, assumption) | (simp add: mult_ac; fail))))+)
    apply (rule yields_bnd, rule yields_soft_max[OF _ zero], assumption)
    subgoal using m by auto
    apply ((rule yields_bnd, (rule yields_steps; (assumption | (rule plain_floats, assumption) | (simp add: mult_ac; fail))))+)
    apply (rule yields_steps; (assumption | (rule plain_floats, assumption) | (simp add: mult_ac; fail)))
    done
qed

lemma out_shapes:
  assumes "dims_ok hp hdim" "layer_shaped md hp hdim l"
    and "plain cur 0 (D4 (hp_embd hp) n 1 1)" "plain av 0 (D4 (hp_embd hp) n 1 1)"
  shows "yields pan (layer_out md hp l cur av) (\<lambda>t. plain t 0 (D4 (hp_embd hp) n 1 1)) E"
proof -
  note w = assms(2)[unfolded layer_shaped_def Let_def]
  note e = dims_embd[OF assms(1)]
  show ?thesis
    unfolding layer_out_def
    apply (insert w e assms(3,4))
    apply (elim conjE)
    apply ((rule yields_bnd, (rule yields_steps; (assumption | (rule plain_floats, assumption) | (simp add: mult_ac; fail))))+)
    apply (rule yields_steps; (assumption | (rule plain_floats, assumption)))
    done
qed

section \<open>The cache\<close>

definition kv_shaped :: "hparams \<Rightarrow> int \<Rightarrow> kv_cache \<Rightarrow> bool" where
  "kv_shaped hp hdim kv \<longleftrightarrow>
     length (kv_k kv) = nat (hp_layer hp) \<and> length (kv_v kv) = nat (hp_layer hp) \<and>
     (\<forall>t\<in>set (kv_k kv @ kv_v kv). plain t 0 (D4 (hp_head_kv hp * hdim) (kv_n_ctx kv) 1 1)) \<and>
     distinct (map tn_root (kv_k kv @ kv_v kv)) \<and>
     0 \<le> kv_head kv \<and> kv_head kv \<le> kv_n_ctx kv \<and> 1 \<le> kv_n_ctx kv"

text \<open>The copies of the first \<open>i\<close> layers: destination, byte offset and length.\<close>

definition copy_layout :: "kv_cache \<Rightarrow> int \<Rightarrow> int \<Rightarrow> nat \<Rightarrow> (nat \<times> int \<times> int) list" where
  "copy_layout kv offs len i =
     concat (map (\<lambda>l. [(tn_root (kv_k kv ! l), offs, len), (tn_root (kv_v kv ! l), offs, len)]) [0..<i])"

definition copy_key :: "copy_op \<Rightarrow> nat \<times> int \<times> int" where
  "copy_key c = (tn_root (cp_dst c), tn_offs (cp_dst c), nelements (cp_src c))"

lemma copy_layout_Suc:
  "copy_layout kv offs len (Suc i) =
     copy_layout kv offs len i @ [(tn_root (kv_k kv ! i), offs, len), (tn_root (kv_v kv ! i), offs, len)]"
  by (simp add: copy_layout_def)

lemma yields_bnd_triple:
  assumes "yields pan m (\<lambda>(a, b, c). R a b c) E" "\<And>a b c. R a b c \<Longrightarrow> yields pan (f a b c) Q E"
  shows "yields pan (bnd m (\<lambda>(a, b, c). f a b c)) Q E"
  by (rule yields_bnd[OF assms(1)]) (use assms(2) in auto)

lemma forward_layer_shapes:
  assumes d: "dims_ok hp hdim" "layer_shaped md hp hdim i" and kv: "kv_shaped hp hdim kv" "i < nat (hp_layer hp)"
    and n: "1 \<le> n" "kv_head kv + n \<le> kv_n_ctx kv" and pos: "plain pos 26 (D4 n 1 1 1)"
    and cur: "plain cur 0 (D4 (hp_embd hp) n 1 1)"
    and cs: "map copy_key cs = copy_layout kv (kv_head kv * (hp_head_kv hp * hdim * 4)) (hp_head_kv hp * hdim * n) i"
  shows "yields pan (forward_layer md hp kv hdim n pos (cur, cs) i)
    (\<lambda>(cur', cs'). plain cur' 0 (D4 (hp_embd hp) n 1 1) \<and>
       map copy_key cs' = copy_layout kv (kv_head kv * (hp_head_kv hp * hdim * 4)) (hp_head_kv hp * hdim * n) (Suc i)) E"
proof -
  define row where "row = hp_head_kv hp * hdim"
  define offs where "offs = kv_head kv * (row * 4)"
  have row: "1 \<le> row" using dims_embd(2)[OF d(1)] by (simp add: row_def)
  have kt: "plain (kv_k kv ! i) 0 (D4 row (kv_n_ctx kv) 1 1)" "plain (kv_v kv ! i) 0 (D4 row (kv_n_ctx kv) 1 1)"
    and h: "0 \<le> kv_head kv"
    using kv by (auto simp: kv_shaped_def row_def)
  have le: "row * (kv_head kv + n) \<le> row * kv_n_ctx kv" using n(2) row by (intro mult_left_mono) auto
  then have fit: "row * n * 4 + offs \<le> row * kv_n_ctx kv * 4"
    and fit': "row * (kv_head kv + n) * 4 + 0 \<le> row * kv_n_ctx kv * 4"
    by (simp_all add: offs_def algebra_simps)
  have keys: "copy_key \<lparr>cp_src = a, cp_dst = v\<rparr> = (tn_root t, offs, row * n)"
    if "plain a 0 (D4 row n 1 1)" "rows_of v t row n offs" for a v t
    using that by (simp add: copy_key_def rows_of_def plain_def nelements_def)
  show ?thesis
    unfolding forward_layer_def Let_def prod.case row_def[symmetric] offs_def[symmetric]
    apply (rule yields_bnd_triple[OF qkv_shapes[OF d plain_floats[OF cur] pos, folded row_def]])
    apply (elim conjE)
    apply (rule yields_bnd[OF yields_view_2d[OF kt(1) fit]])
    apply (rule yields_bnd[OF yields_view_2d[OF kt(2) fit]])
    apply (rule yields_bnd, erule (1) yields_cpy[OF _ _ kt(1) fit])
    apply (rule yields_bnd, erule (1) yields_cpy[OF _ _ kt(2) fit])
    apply (rule yields_bnd[OF yields_view_2d[OF kt(1) fit']])
    apply (rule yields_bnd[OF yields_view_2d[OF kt(2) fit']])
    apply (rule yields_bnd[OF attend_shapes[OF d(1)]])
         apply (use n h in simp)
        apply assumption
       apply (simp add: rows_of_def row_def)
      apply (simp add: rows_of_def row_def)
     apply simp
    apply (rule yields_bnd[OF out_shapes[OF d cur]], assumption)
    apply (rule yields_ret)
    apply (simp add: cs[folded row_def, folded offs_def] copy_layout_Suc keys)
    done
qed

lemma yields_bnd_pair:
  assumes "yields pan m (\<lambda>(a, b). R a b) E" "\<And>a b. R a b \<Longrightarrow> yields pan (f a b) Q E"
  shows "yields pan (bnd m (\<lambda>(a, b). f a b)) Q E"
  by (rule yields_bnd[OF assms(1)]) (use assms(2) in auto)

lemma forward_layers_shapes:
  assumes "model_shaped md hp hdim n_out" and kv: "kv_shaped hp hdim kv"
    and n: "1 \<le> n" "kv_head kv + n \<le> kv_n_ctx kv" and pos: "plain pos 26 (D4 n 1 1 1)"
    and cur: "plain cur 0 (D4 (hp_embd hp) n 1 1)"
  shows "yields pan (loop (forward_layer md hp kv hdim n pos) (cur, []) [0..<nat (hp_layer hp)])
    (\<lambda>(cur', cs'). plain cur' 0 (D4 (hp_embd hp) n 1 1) \<and>
       map copy_key cs' = copy_layout kv (kv_head kv * (hp_head_kv hp * hdim * 4)) (hp_head_kv hp * hdim * n) (nat (hp_layer hp))) E"
proof (rule yields_loop_upt[where I = "\<lambda>i (cur', cs'). plain cur' 0 (D4 (hp_embd hp) n 1 1) \<and>
       map copy_key cs' = copy_layout kv (kv_head kv * (hp_head_kv hp * hdim * 4)) (hp_head_kv hp * hdim * n) i"])
  fix i x
  assume i: "i < nat (hp_layer hp)" and x: "case x of (cur', cs') \<Rightarrow> plain cur' 0 (D4 (hp_embd hp) n 1 1) \<and>
       map copy_key cs' = copy_layout kv (kv_head kv * (hp_head_kv hp * hdim * 4)) (hp_head_kv hp * hdim * n) i"
  obtain c cs where [simp]: "x = (c, cs)" by fastforce
  show "yields pan (forward_layer md hp kv hdim n pos x i) (\<lambda>(cur', cs'). plain cur' 0 (D4 (hp_embd hp) n 1 1) \<and>
       map copy_key cs' = copy_layout kv (kv_head kv * (hp_head_kv hp * hdim * 4)) (hp_head_kv hp * hdim * n) (Suc i)) E"
    using assms(1) i x forward_layer_shapes[OF _ _ kv i n pos, of md c cs pan E]
    by (simp add: model_shaped_def)
qed (use cur in \<open>simp_all add: copy_layout_def\<close>)

lemma final_norm_shapes:
  assumes "model_shaped md hp hdim n_out" "plain cur 0 (D4 (hp_embd hp) n 1 1)"
  shows "yields pan (final_norm md hp cur) (\<lambda>t. plain t 0 (D4 (hp_embd hp) n 1 1)) E"
proof -
  note e = assms(1)[unfolded model_shaped_def]
  have pos: "1 \<le> hp_embd hp" using e dims_embd by blast
  show ?thesis
    unfolding final_norm_def
    apply (insert e assms(2) pos)
    apply (elim conjE)
    apply ((rule yields_bnd, (rule yields_steps; (assumption | (rule plain_floats, assumption))))+)
    apply (rule yields_steps; (assumption | (rule plain_floats, assumption)))
    done
qed

lemma forward_logits_shapes:
  assumes "model_shaped md hp hdim n_out" "plain cur 0 (D4 (hp_embd hp) n 1 1)"
  shows "yields pan (forward_logits md hp n cur) (\<lambda>t. plain t 0 (D4 n_out 1 1 1)) E"
proof -
  have w: "shaped (model_tensor md ''output.weight'') (hp_embd hp) n_out"
    using assms(1) by (simp add: model_shaped_def)
  show ?thesis
    unfolding forward_logits_def
    apply (rule yields_bnd[OF final_norm_shapes[OF assms]])
    apply (rule yields_bnd[OF yields_view_1d], assumption)
     apply (simp add: algebra_simps)
    apply (rule yields_bnd[OF yields_top_weight[OF w]])
    apply (erule (1) yields_mul_mat_weight)
    done
qed

section \<open>The decode graph\<close>

definition rows_out :: "int \<Rightarrow> nat \<Rightarrow> tensor list \<Rightarrow> bool" where
  "rows_out row i ts \<longleftrightarrow> length ts = i \<and> (\<forall>t\<in>set ts. plain t 0 (D4 row 1 1 1))"

lemma decode_layer_shapes:
  assumes d: "dims_ok hp hdim" "layer_shaped md hp hdim i" and kv: "kv_shaped hp hdim kv" "i < nat (hp_layer hp)"
    and pos: "plain pos 26 (D4 1 1 1 1)" and msk: "plain msk 0 (D4 (kv_n_ctx kv) 1 1 1)"
    and cur: "plain cur 0 (D4 (hp_embd hp) 1 1 1)"
    and kvs: "rows_out (hp_head_kv hp * hdim) i ks" "rows_out (hp_head_kv hp * hdim) i vs"
  shows "yields pan (decode_layer md hp kv hdim pos msk (cur, ks, vs) i)
    (\<lambda>(cur', ks', vs'). plain cur' 0 (D4 (hp_embd hp) 1 1 1) \<and>
       rows_out (hp_head_kv hp * hdim) (Suc i) ks' \<and> rows_out (hp_head_kv hp * hdim) (Suc i) vs') E"
proof -
  define row where "row = hp_head_kv hp * hdim"
  have kt: "plain (kv_k kv ! i) 0 (D4 row (kv_n_ctx kv) 1 1)" "plain (kv_v kv ! i) 0 (D4 row (kv_n_ctx kv) 1 1)"
    and n: "1 \<le> kv_n_ctx kv"
    using kv by (auto simp: kv_shaped_def row_def)
  have fit: "row * kv_n_ctx kv * 4 + 0 \<le> row * kv_n_ctx kv * 4" by simp
  show ?thesis
    unfolding decode_layer_def Let_def prod.case row_def[symmetric]
    apply (rule yields_bnd_triple[OF qkv_shapes[OF d plain_floats[OF cur] pos, folded row_def]])
    apply (elim conjE)
    apply (rule yields_bnd[OF yields_view_2d[OF kt(1) fit]])
    apply (rule yields_bnd[OF yields_view_2d[OF kt(2) fit]])
    apply (rule yields_bnd[OF attend_shapes[OF d(1) n]])
        apply assumption
       apply (simp add: rows_of_def row_def)
      apply (simp add: rows_of_def row_def)
     apply (use msk in simp)
    apply (rule yields_bnd[OF out_shapes[OF d cur]], assumption)
    apply (rule yields_ret)
    apply (use kvs[folded row_def] in \<open>simp add: rows_out_def\<close>)
    done
qed

lemma decode_layers_shapes:
  assumes "model_shaped md hp hdim n_out" and kv: "kv_shaped hp hdim kv"
    and pos: "plain pos 26 (D4 1 1 1 1)" and msk: "plain msk 0 (D4 (kv_n_ctx kv) 1 1 1)"
    and cur: "plain cur 0 (D4 (hp_embd hp) 1 1 1)"
  shows "yields pan (loop (decode_layer md hp kv hdim pos msk) (cur, [], []) [0..<nat (hp_layer hp)])
    (\<lambda>(cur', ks, vs). plain cur' 0 (D4 (hp_embd hp) 1 1 1) \<and>
       rows_out (hp_head_kv hp * hdim) (nat (hp_layer hp)) ks \<and>
       rows_out (hp_head_kv hp * hdim) (nat (hp_layer hp)) vs) E"
proof (rule yields_loop_upt[where I = "\<lambda>i (cur', ks, vs). plain cur' 0 (D4 (hp_embd hp) 1 1 1) \<and>
       rows_out (hp_head_kv hp * hdim) i ks \<and> rows_out (hp_head_kv hp * hdim) i vs"])
  fix i x
  assume i: "i < nat (hp_layer hp)" and x: "case x of (cur', ks, vs) \<Rightarrow> plain cur' 0 (D4 (hp_embd hp) 1 1 1) \<and>
       rows_out (hp_head_kv hp * hdim) i ks \<and> rows_out (hp_head_kv hp * hdim) i vs"
  obtain c ks vs where [simp]: "x = (c, ks, vs)" by (cases x) auto
  show "yields pan (decode_layer md hp kv hdim pos msk x i) (\<lambda>(cur', ks, vs). plain cur' 0 (D4 (hp_embd hp) 1 1 1) \<and>
       rows_out (hp_head_kv hp * hdim) (Suc i) ks \<and> rows_out (hp_head_kv hp * hdim) (Suc i) vs) E"
    using assms(1) i x decode_layer_shapes[OF _ _ kv i pos msk, of md c ks vs pan E]
    by (simp add: model_shaped_def)
qed (use cur in \<open>simp_all add: rows_out_def\<close>)

section \<open>The builders only record\<close>

lemma quiet_weight [quiet_intros]: "quiet (weight md l name)"
  and quiet_top_weight [quiet_intros]: "quiet (top_weight md name)"
  unfolding weight_def top_weight_def by (rule quiet_ok_or)+

lemma quiet_rope [quiet_intros]: "quiet (rope hp a p)"
  unfolding rope_def by (rule quiet_intros)

lemma quiet_head_dim [quiet_intros]: "quiet (head_dim hp)"
  unfolding head_dim_def by (simp add: quiet_ret quiet_abort del: sm_simps)

lemma quiet_qkv [quiet_intros]: "quiet (layer_qkv md hp hdim l n pos cur)"
  unfolding layer_qkv_def by (intro quiet_intros)

lemma quiet_attend [quiet_intros]: "quiet (attend hp hdim n kv_len msk q k v)"
  unfolding attend_def by (intro quiet_intros)

lemma quiet_layer_out [quiet_intros]: "quiet (layer_out md hp l cur av)"
  unfolding layer_out_def by (intro quiet_intros)

lemma quiet_final_norm [quiet_intros]: "quiet (final_norm md hp cur)"
  unfolding final_norm_def by (intro quiet_intros)

lemma quiet_forward_layer [quiet_intros]: "quiet (forward_layer md hp kv hdim n pos acc l)"
  unfolding forward_layer_def Let_def by (intro quiet_intros)

lemma quiet_decode_layer [quiet_intros]: "quiet (decode_layer md hp kv hdim pos msk acc l)"
  unfolding decode_layer_def Let_def by (intro quiet_intros)

lemma quiet_forward_logits [quiet_intros]: "quiet (forward_logits md hp n cur)"
  unfolding forward_logits_def by (intro quiet_intros)

section \<open>Only missing tensors are reported while a graph is built\<close>

definition is_missing :: "graph_error \<Rightarrow> bool" where
  "is_missing e \<longleftrightarrow> (\<exists>name. e = TensorNotFound name)"

definition missing_only :: "('a, graph_error) act \<Rightarrow> bool" where
  "missing_only m \<longleftrightarrow> yields True m (\<lambda>_. True) is_missing"

named_theorems missing_intros \<open>calls that report missing tensors only\<close>

lemma missing_bnd [missing_intros]:
  "missing_only m \<Longrightarrow> (\<And>x. missing_only (f x)) \<Longrightarrow> missing_only (bnd m f)"
  unfolding missing_only_def by (rule yields_bnd)

lemma missing_ret [missing_intros]: "missing_only (ret x)"
  and missing_abort [missing_intros]: "missing_only abort"
  unfolding missing_only_def by (rule yields_ret yields_abort; rule TrueI)+

lemma missing_assert [missing_intros]: "missing_only m \<Longrightarrow> missing_only (gassert C m)"
  by (simp add: gassert_def missing_abort del: sm_simps)

lemma missing_node [missing_intros]: "missing_only (new_node op srcs mk)"
  unfolding missing_only_def by (rule yields_node) simp

lemma missing_prod [missing_intros]:
  "(\<And>a b. missing_only (f a b)) \<Longrightarrow> missing_only (case p of (a, b) \<Rightarrow> f a b)"
  by (cases p) simp

lemma missing_loop [missing_intros]:
  "(\<And>x a. missing_only (f x a)) \<Longrightarrow> missing_only (loop f x as)"
  unfolding missing_only_def by (rule yields_loop) auto

lemma missing_ops [missing_intros]:
  "missing_only (ggml_get_rows a b)" "missing_only (ggml_rms_norm a eps)"
  "missing_only (ggml_mul a b)" "missing_only (ggml_add a b)" "missing_only (ggml_mul_mat a b)"
  "missing_only (ggml_scale a x)" "missing_only (ggml_silu a)" "missing_only (ggml_cont a)"
  "missing_only (ggml_reshape_2d a n m)" "missing_only (ggml_reshape_3d a n m k)"
  "missing_only (ggml_view_1d a n offs)" "missing_only (ggml_view_2d a n m nb offs)"
  "missing_only (ggml_permute_0213 a)" "missing_only (ggml_permute_1203 a)"
  "missing_only (ggml_soft_max_ext a msk x y)" "missing_only (ggml_rope_ext a b nd mode nc ps)"
  "missing_only (ggml_cpy a b)"
  unfolding ggml_op_defs Let_def by (intro missing_intros)+

lemma missing_weights [missing_intros]:
  "missing_only (weight md l name)" "missing_only (top_weight md name)"
  unfolding missing_only_def weight_def top_weight_def
  by (rule yields_ok_or_any; simp add: is_missing_def)+

lemma missing_head_dim [missing_intros]: "missing_only (head_dim hp)"
  unfolding head_dim_def by (simp add: missing_ret missing_abort del: sm_simps)

lemma missing_layers [missing_intros]:
  "missing_only (forward_layer md hp kv hdim n pos acc l)"
  "missing_only (decode_layer md hp kv hdim pos msk acc' l)"
  "missing_only (final_norm md hp cur)" "missing_only (forward_logits md hp n cur)"
  unfolding forward_layer_def decode_layer_def layer_qkv_def attend_def layer_out_def final_norm_def
    forward_logits_def rope_def Let_def
  by (intro missing_intros)+

text \<open>Whatever the model, the copies that are recorded go to the new rows of the cache.\<close>

lemma yields_anything: "missing_only m \<Longrightarrow> yields True m (\<lambda>_. True) is_missing"
  by (simp add: missing_only_def)

lemma yields_view_2d_any:
  "plain t 0 ne \<Longrightarrow> yields True (ggml_view_2d t row n nb offs)
     (\<lambda>v. tn_ne v = D4 row n 1 1 \<and> tn_root v = tn_root t \<and> tn_offs v = offs) E"
  unfolding ggml_view_2d_def Let_def gassert_def
  by (auto simp: view_tensor_def plain_def intro!: yields_node yields_abort)

lemma yields_cpy_any:
  "yields True (ggml_cpy a b) (\<lambda>_. nelements a = nelements b) E"
  unfolding ggml_cpy_def gassert_def by (auto intro!: yields_node yields_abort)

lemma forward_layer_copies:
  assumes kv: "kv_shaped hp hdim kv" "i < nat (hp_layer hp)"
    and cs: "map copy_key cs = copy_layout kv (kv_head kv * (hp_head_kv hp * hdim * 4)) (hp_head_kv hp * hdim * n) i"
  shows "yields True (forward_layer md hp kv hdim n pos (cur, cs) i)
    (\<lambda>(cur', cs'). map copy_key cs' =
       copy_layout kv (kv_head kv * (hp_head_kv hp * hdim * 4)) (hp_head_kv hp * hdim * n) (Suc i)) is_missing"
proof -
  have kt: "plain (kv_k kv ! i) 0 (D4 (hp_head_kv hp * hdim) (kv_n_ctx kv) 1 1)"
    "plain (kv_v kv ! i) 0 (D4 (hp_head_kv hp * hdim) (kv_n_ctx kv) 1 1)"
    using kv by (auto simp: kv_shaped_def)
  have any: "missing_only (layer_qkv md hp hdim i n pos cur)" "missing_only (attend hp hdim n kl msk q kr vr)"
    "missing_only (layer_out md hp i cur av)" for kl msk q kr vr av
    unfolding layer_qkv_def attend_def layer_out_def rope_def by (intro missing_intros)+
  show ?thesis
    unfolding forward_layer_def Let_def prod.case
    apply (rule yields_bnd_triple[where R = "\<lambda>_ _ _. True"])
     apply (rule yields_weaken[OF yields_anything[OF any(1)]], simp)
    apply (rule yields_bnd[OF yields_view_2d_any[OF kt(1)]])
    apply (rule yields_bnd[OF yields_view_2d_any[OF kt(2)]])
    apply (rule yields_bnd[OF yields_cpy_any])
    apply (rule yields_bnd[OF yields_cpy_any])
    apply (rule yields_bnd[OF yields_view_2d_any[OF kt(1)]])
    apply (rule yields_bnd[OF yields_view_2d_any[OF kt(2)]])
    apply (rule yields_bnd[OF yields_anything[OF any(2)]])
    apply (rule yields_bnd[OF yields_anything[OF any(3)]])
    apply (rule yields_ret)
    apply (simp add: cs copy_layout_Suc copy_key_def nelements_def)
    done
qed

lemma forward_layers_copies:
  assumes "kv_shaped hp hdim kv"
  shows "yields True (loop (forward_layer md hp kv hdim n pos) (cur, []) [0..<nat (hp_layer hp)])
    (\<lambda>(cur', cs). map copy_key cs =
       copy_layout kv (kv_head kv * (hp_head_kv hp * hdim * 4)) (hp_head_kv hp * hdim * n) (nat (hp_layer hp))) is_missing"
proof (rule yields_loop_upt[where I = "\<lambda>i (cur', cs). map copy_key cs =
       copy_layout kv (kv_head kv * (hp_head_kv hp * hdim * 4)) (hp_head_kv hp * hdim * n) i"])
  fix i and x :: "tensor \<times> copy_op list"
  assume "i < nat (hp_layer hp)" and "case x of (cur', cs) \<Rightarrow> map copy_key cs =
       copy_layout kv (kv_head kv * (hp_head_kv hp * hdim * 4)) (hp_head_kv hp * hdim * n) i"
  then show "yields True (forward_layer md hp kv hdim n pos x i) (\<lambda>(cur', cs). map copy_key cs =
       copy_layout kv (kv_head kv * (hp_head_kv hp * hdim * 4)) (hp_head_kv hp * hdim * n) (Suc i)) is_missing"
    using forward_layer_copies[OF assms, of i "snd x" n md pos "fst x"] by (cases x) auto
qed (simp_all add: copy_layout_def)

section \<open>Resources and data of a prefill\<close>

lemma holds_forget: "holds L M' w \<Longrightarrow> M \<subseteq>\<^sub>m M' \<Longrightarrow> holds L M w"
  unfolding holds_def map_le_def by (metis domI)

lemma spec_forget:
  assumes "spec (holds L M) m Q E pan" "M \<subseteq>\<^sub>m M'"
  shows "spec (holds L M') m Q E pan"
  by (rule spec_conseq[OF assms(1)]) (use holds_forget[OF _ assms(2)] in auto)

lemma map_le_fresh: "M \<subseteq>\<^sub>m M' \<Longrightarrow> M r = None \<Longrightarrow> M \<subseteq>\<^sub>m M'(r \<mapsto> x)"
  by (auto simp: map_le_def)

definition three :: "buffer \<Rightarrow> nat \<Rightarrow> nat \<Rightarrow> resource multiset" where
  "three ib ic cx = {#RBuffer (bf_id ib), RContext ic, RContext cx#}"

lemma forward_inputs_frame:
  "spec (holds L M) (forward_inputs env tokens pos)
     (\<lambda>(ib, ic, t, p). holds (L + {#RBuffer (bf_id ib), RContext ic#}) M) (\<lambda>e w. holds L M w \<and> \<not> is_missing e) True"
  unfolding forward_inputs_def Let_def
  apply (rule spec_alloc_buffer)
   prefer 2
   apply (simp only: option.case)
   apply (rule spec_fail, simp add: is_missing_def)
  apply (simp only: option.case)
  apply (rule spec_init)
   prefer 2
   apply (simp only: option.case)
   apply (rule spec_frees, (simp add: in_diff_count three_def; fail), rule spec_fail, simp add: is_missing_def)
  apply (simp only: option.case)
  apply (rule spec_place, rule disjI1, rule TrueI)
  apply (rule spec_tensor_set, rule disjI1, rule TrueI, rule fun_upd_same)
  apply (rule spec_place, rule disjI1, rule TrueI)
  apply (rule spec_assert_bnd, rule TrueI)
  apply (rule spec_tensor_set, rule disjI1, rule TrueI, rule fun_upd_same)
  apply (rule spec_ret)
  apply (simp only: prod.case fun_upd_upd)
  apply (erule holds_forget[THEN back_subst[where P = "\<lambda>L. holds L M s" for s]])
   apply (intro map_le_fresh map_le_refl; simp split: if_splits)
  apply (simp add: add_mset_commute)
  done

definition hdim_of :: "hparams \<Rightarrow> int" where
  "hdim_of hp = hp_embd hp div hp_head hp"

definition new_rows :: "hparams \<Rightarrow> kv_cache \<Rightarrow> nat \<Rightarrow> (nat \<times> int \<times> int) list" where
  "new_rows hp kv n =
     copy_layout kv (kv_head kv * (hp_head_kv hp * hdim_of hp * 4)) (hp_head_kv hp * hdim_of hp * int n) (nat (hp_layer hp))"

lemma yields_head_dim: "pan \<or> hp_head hp \<noteq> 0 \<Longrightarrow> yields pan (head_dim hp) (\<lambda>h. h = hdim_of hp) E"
  by (auto simp: head_dim_def hdim_of_def simp del: sm_simps intro: yields_ret yields_abort)

lemma release_all_spec:
  assumes "spec (holds L M) (f ()) Q E pan"
  shows "spec (holds (L + three ib ic cx) M) (bnd (release_all cx ic ib) f) Q E pan"
  unfolding release_all_def bnd_assoc three_def
  by (rule spec_frees, (simp add: in_diff_count three_def; fail), rule spec_frees, (simp add: in_diff_count three_def; fail), rule spec_frees, (simp add: in_diff_count three_def; fail)) (use assms in \<open>simp add: add_mset_commute\<close>)

definition leak_or :: "resource multiset \<Rightarrow> (world \<Rightarrow> bool) \<Rightarrow> (resource multiset \<Rightarrow> world \<Rightarrow> bool) \<Rightarrow> graph_error \<Rightarrow> world \<Rightarrow> bool" where
  "leak_or L P R e w \<longleftrightarrow> (if is_missing e then \<exists>ib ic cx. R (L + three ib ic cx) w else P w)"

lemma forward_build_frame:
  assumes "kv_shaped hp (hdim_of hp) kv"
  shows "spec (holds L M) (forward_build env md hp kv tokens pos)
     (\<lambda>(ib, ic, cx, cs, lg) w.
        (map copy_key cs = new_rows hp kv (length tokens) \<and> kv_head kv + int (length tokens) \<le> kv_n_ctx kv) \<and>
        holds (L + three ib ic cx) M w)
     (leak_or L (holds L M) (\<lambda>L'. holds L' M)) True"
proof -
  have miss: "leak_or L (holds L M) (\<lambda>L'. holds L' M) e s"
    if "is_missing e" "holds (L + three ib ic cx) M s" for e s ib ic cx
    using that by (auto simp: leak_or_def)
  have other: "leak_or L (holds L M) (\<lambda>L'. holds L' M) e s"
    if "\<not> is_missing e" "holds L M s" for e s
    using that by (simp add: leak_or_def)
  show ?thesis
    unfolding forward_build_def Let_def
    apply (rule spec_bnd[where R = "\<lambda>(ib, ic, t, p). holds (L + {#RBuffer (bf_id ib), RContext ic#}) M"])
     apply (rule spec_conseq[OF forward_inputs_frame]; use other in auto)
    subgoal for x
      apply (cases x)
      apply (simp only: prod.case)
      apply (rule spec_init)
       prefer 2
       apply (simp only: option.case)
       apply (rule spec_frees, (simp add: in_diff_count three_def; fail), rule spec_frees, (simp add: in_diff_count three_def; fail), rule spec_fail, rule other)
        apply (simp add: is_missing_def)
       apply simp
      subgoal for ib ic t p cx
        apply (simp only: option.case)
        apply (rule spec_conseq[where P' = "holds (L + three ib ic cx) M" and pan' = True
              and Q' = "\<lambda>(ib, ic, cx, cs, lg) w. (map copy_key cs = new_rows hp kv (length tokens) \<and>
                 kv_head kv + int (length tokens) \<le> kv_n_ctx kv) \<and> holds (L + three ib ic cx) M w"
              and E' = "leak_or L (holds L M) (\<lambda>L'. holds L' M)"])
            prefer 2 apply (simp add: three_def add_mset_commute)
        apply (rule spec_quiet_bnd[OF quiet_top_weight yields_anything miss], intro missing_intros, assumption+)
        apply (rule spec_quiet_bnd[OF quiet_ops(2) yields_anything miss], intro missing_intros, assumption+)
        apply (rule spec_quiet_bnd[OF quiet_head_dim yields_head_dim[where E = is_missing] miss], simp, assumption+)
        apply (simp only: split: if_split)
        apply (intro conjI impI)
         apply (rule release_all_spec, rule spec_fail, rule other)
          apply (simp add: is_missing_def)
         apply assumption
        apply (rule spec_quiet_bnd[OF _ _ miss])
            apply (intro quiet_intros)
           apply (simp only:, rule forward_layers_copies[OF assms])
          apply assumption+
        subgoal for a b c d
          apply (cases d)
          apply (simp only: prod.case)
          apply (rule spec_quiet_bnd[OF quiet_forward_logits yields_anything miss], intro missing_intros, assumption+)
          apply (rule spec_ret)
          apply (simp add: new_rows_def)
          done
        apply auto
        done
      done
    done
qed

lemma forward_compute_frame:
  assumes "\<forall>c\<in>set cs. tn_root (cp_dst c) \<in> dom M"
  shows "spec (holds (L + three ib ic cx) M) (forward_compute env cx ic ib cs)
     (\<lambda>g w. \<exists>val. holds (add_mset (RGallocr g) (L + three ib ic cx)) (copied val cs M) w)
     (\<lambda>e w. \<not> is_missing e \<and> (\<exists>val n. holds L (copied val (take n cs) M) w)) pan"
proof -
  have none: "\<exists>val n. holds L (copied val (take n cs) M) w" if "holds L M w" for w
    using that by (intro exI[of _ "\<lambda>_. []"] exI[of _ 0]) simp
  show ?thesis
    unfolding forward_compute_def
    apply (rule spec_gallocr_new)
     prefer 2
     apply (simp only: option.case)
     apply (rule release_all_spec, rule spec_fail, use none in \<open>simp add: is_missing_def\<close>)
    apply (simp only: option.case)
    apply (rule spec_alloc_graph)
    apply (simp only: split: if_split)
    apply (intro conjI impI)
     apply (rule spec_frees, (simp add: in_diff_count three_def; fail), simp only: add_mset_remove_trivial)
     apply (rule release_all_spec, rule spec_fail, use none in \<open>simp add: is_missing_def\<close>)
    apply (rule spec_compute[OF assms])
    apply (simp only: split: if_split)
    apply (intro conjI impI)
     apply (rule spec_frees, (simp add: in_diff_count three_def; fail), simp only: add_mset_remove_trivial)
     apply (rule release_all_spec, rule spec_fail)
     apply (fastforce simp: is_missing_def)
    apply (rule spec_ret)
    apply auto
    done
qed

section \<open>The engine's operations\<close>

definition at :: "llama_graph \<Rightarrow> (world \<Rightarrow> bool) \<Rightarrow> engine \<Rightarrow> bool" where
  "at lg P s \<longleftrightarrow> eg_graph s = lg \<and> P (eg_world s)"

lemma spec_in_world:
  assumes "spec P m Q E pan"
  shows "spec (at lg P) (in_world m) (\<lambda>x. at lg (Q x)) (\<lambda>e. at lg (E e)) pan"
  unfolding spec_def
proof (intro allI impI)
  fix s assume "at lg P s"
  then have a: "eg_graph s = lg" and "ends_in Q E pan (m (eg_world s))"
    using assms by (auto simp: at_def spec_def)
  then show "ends_in (\<lambda>x. at lg (Q x)) (\<lambda>e. at lg (E e)) pan (in_world m s)"
    by (cases "(Q, E, pan, m (eg_world s))" rule: ends_in.cases) (auto simp: in_world_def at_def)
qed

lemma spec_get_graph:
  "spec (at lg P) (f lg) Q E pan \<Longrightarrow> spec (at lg P) (bnd get_graph f) Q E pan"
  by (auto simp: spec_def at_def bnd_def get_graph_def)

lemma spec_set_graph:
  "spec (at lg' P) (f ()) Q E pan \<Longrightarrow> spec (at lg P) (bnd (set_graph lg') f) Q E pan"
  by (auto simp: spec_def at_def bnd_def set_graph_def)

lemma spec_in_world_bnd:
  assumes "spec P m R E' pan" "\<And>e s. at lg (E' e) s \<Longrightarrow> E e s"
    and "\<And>x. spec (at lg (R x)) (f x) Q E pan"
  shows "spec (at lg P) (bnd (in_world m) f) Q E pan"
proof (rule spec_bnd[where R = "\<lambda>x. at lg (R x)"])
  show "spec (at lg P) (in_world m) (\<lambda>x. at lg (R x)) E pan"
    by (rule spec_conseq[OF spec_in_world[OF assms(1)]]) (use assms(2) in auto)
qed (rule assms(3))

text \<open>A call that does not fail.\<close>

lemma spec_in_world_step:
  assumes "spec P m R (\<lambda>_ _. False) pan" and "\<And>x. spec (at lg (R x)) (f x) Q E pan"
  shows "spec (at lg P) (bnd (in_world m) f) Q E pan"
  by (rule spec_in_world_bnd[OF assms(1) _ assms(2)]) (simp add: at_def)

lemma spec_at_ex:
  "(\<And>v. spec (at lg (P v)) m Q E pan) \<Longrightarrow> spec (at lg (\<lambda>w. \<exists>v. P v w)) m Q E pan"
  by (auto simp: spec_def at_def)

lemma spec_at_pure:
  "(C \<Longrightarrow> spec (at lg P) m Q E pan) \<Longrightarrow> spec (at lg (\<lambda>w. C \<and> P w)) m Q E pan"
  by (auto simp: spec_def at_def)

lemma spec_alone: "spec P (bnd m ret) Q E pan \<Longrightarrow> spec P m Q E pan"
  by (simp only: bnd_ret_right)

definition kv_roots :: "kv_cache \<Rightarrow> nat set" where
  "kv_roots kv = tn_root ` set (kv_k kv @ kv_v kv)"

lemma copy_layout_roots:
  assumes "kv_shaped hp hdim kv" "map copy_key cs = copy_layout kv offs len (nat (hp_layer hp))" "c \<in> set cs"
  shows "tn_root (cp_dst c) \<in> kv_roots kv"
proof -
  have "copy_key c \<in> set (copy_layout kv offs len (nat (hp_layer hp)))"
    using assms(2,3) by (metis image_eqI list.set_map)
  then show ?thesis
    using assms(1) by (auto simp: copy_layout_def copy_key_def kv_roots_def kv_shaped_def)
qed

text \<open>What a prefill may leave in the cache: some of its copies, all of them on success.\<close>

definition prefilled :: "hparams \<Rightarrow> kv_cache \<Rightarrow> nat \<Rightarrow> bool \<Rightarrow> (nat \<rightharpoonup> u32 list) \<Rightarrow> (nat \<rightharpoonup> u32 list) \<Rightarrow> bool" where
  "prefilled hp kv n full M M' \<longleftrightarrow>
     \<not> full \<and> M' = M \<or>
     (\<exists>val cs k. map copy_key cs = new_rows hp kv n \<and> M' = copied val (take k cs) M \<and>
        (full \<longrightarrow> k = length cs))"

text \<open>After the computation: the logits are read and the call's own resources given back.\<close>

lemma forward_tail_frame:
  "spec (at lg (holds (add_mset (RGallocr g) (L + three ib ic cx)) M))
     (bnd (in_world (ggml_backend_tensor_get lgt n)) (\<lambda>out.
      bnd (in_world (ggml_gallocr_free g)) (\<lambda>_.
      bnd (in_world (release_all cx ic ib)) (\<lambda>_. ret out))))
     (\<lambda>out s. length out = nat n div 4 \<and> at lg (holds L M) s) E True"
proof (rule spec_in_world_step[where R = "\<lambda>xs w. length xs = nat n div 4 \<and>
      holds (add_mset (RGallocr g) (L + three ib ic cx)) M w"], goal_cases)
  case 1
  show ?case by (rule spec_alone, rule spec_tensor_get) (auto intro: spec_ret)
next
  case (2 out)
  show ?case
  proof (rule spec_at_pure, rule spec_in_world_step[where R = "\<lambda>_. holds (L + three ib ic cx) M"], goal_cases)
    case 1
    show ?case
      by (rule spec_alone, rule spec_frees(3), (simp add: in_diff_count three_def; fail), simp only: add_mset_remove_trivial, rule spec_ret)
  next
    case (2 u)
    then show ?case
      by (intro spec_in_world_step[where R = "\<lambda>_. holds L M"]) (rule spec_alone, rule release_all_spec, rule spec_ret, assumption, auto intro!: spec_ret)
  qed
qed

lemma forward_frame:
  assumes kv: "kv_shaped (lg_hp lg) (hdim_of (lg_hp lg)) (lg_kv lg)" and M: "kv_roots (lg_kv lg) \<subseteq> dom M"
  shows "spec (at lg (holds L M)) (forward env md tokens pos)
     (\<lambda>out s. length out = nat (hp_vocab (lg_hp lg) * 4) div 4 \<and>
        kv_head (lg_kv lg) + int (length tokens) \<le> kv_n_ctx (lg_kv lg) \<and>
        (\<exists>M'. prefilled (lg_hp lg) (lg_kv lg) (length tokens) True M M' \<and>
          at (set_head (kv_head (lg_kv lg) + int (length tokens)) lg) (holds L M') s))
     (\<lambda>e s. \<exists>M'. prefilled (lg_hp lg) (lg_kv lg) (length tokens) False M M' \<and>
        at lg (leak_or L (holds L M') (\<lambda>L'. holds L' M) e) s) True"
    (is "spec _ _ ?Q ?E True")
proof -
  let ?hp = "lg_hp lg" and ?kv = "lg_kv lg" and ?n = "length tokens"
  show ?thesis
    unfolding forward_def forward_result_def Let_def
  proof (rule spec_get_graph, rule spec_in_world_bnd[OF forward_build_frame[OF kv]], goal_cases)
    case 1
    then show ?case by (auto simp: prefilled_def leak_or_def at_def)
  next
    case (2 x)
    obtain ib ic cx cs lgt where x: "x = (ib, ic, cx, cs, lgt)" by (cases x)
    show ?case
      unfolding x prod.case
    proof (rule spec_at_pure)
      assume c: "map copy_key cs = new_rows ?hp ?kv ?n \<and> kv_head ?kv + int ?n \<le> kv_n_ctx ?kv"
      have roots: "\<forall>c\<in>set cs. tn_root (cp_dst c) \<in> dom M"
        using copy_layout_roots[OF kv, of cs] c M unfolding new_rows_def by blast
      have full: "prefilled ?hp ?kv ?n True M (copied val cs M)" for val
        using c unfolding prefilled_def by (intro disjI2 exI[of _ val] exI[of _ cs] exI[of _ "length cs"]) simp
      have part: "prefilled ?hp ?kv ?n False M (copied val (take k cs) M)" for val k
        using c unfolding prefilled_def by blast
      show "spec (at lg (holds (L + three ib ic cx) M))
        (bnd (in_world (forward_compute env cx ic ib cs)) (\<lambda>galloc.
         bnd (set_graph (set_head (min (kv_head ?kv + int ?n) (kv_n_ctx ?kv)) lg)) (\<lambda>_.
         bnd (in_world (ggml_backend_tensor_get lgt (hp_vocab ?hp * 4))) (\<lambda>out.
         bnd (in_world (ggml_gallocr_free galloc)) (\<lambda>_.
         bnd (in_world (release_all cx ic ib)) (\<lambda>_. ret out)))))) ?Q ?E True"
      proof (rule spec_in_world_bnd[OF forward_compute_frame[OF roots]], goal_cases)
        case (1 e s)
        then show ?case using part by (fastforce simp: leak_or_def at_def)
      next
        case (2 g)
        show ?case
        proof (rule spec_at_ex, rule spec_set_graph, goal_cases)
          case (1 val)
          show ?case
            by (rule spec_conseq[OF forward_tail_frame[where E = "\<lambda>_ _. False"]])
              (use c full in auto)
        qed
      qed
    qed
  qed
qed

end
