(* ===== verification/Graph_Decode.thy ===== *)
theory Graph_Decode imports Graph_Facts begin

text \<open>The persistent decode graph: what building it and one step of it do to the state.\<close>

definition dg_resources :: "decode_graph \<Rightarrow> resource multiset" where
  "dg_resources dg =
     {#RGallocr (dg_galloc dg), RContext (dg_ctx dg), RContext (dg_inp_ctx dg), RBuffer (bf_id (dg_inp_buf dg))#}"

definition dg_roots :: "decode_graph \<Rightarrow> nat list" where
  "dg_roots dg = [tn_root (dg_token dg), tn_root (dg_pos dg), tn_root (dg_mask dg)]"

definition dg_ok :: "hparams \<Rightarrow> kv_cache \<Rightarrow> decode_graph \<Rightarrow> bool" where
  "dg_ok hp kv dg \<longleftrightarrow>
     plain (dg_token dg) 26 (D4 1 1 1 1) \<and> plain (dg_pos dg) 26 (D4 1 1 1 1) \<and>
     plain (dg_mask dg) 0 (D4 (kv_n_ctx kv) 1 1 1) \<and>
     distinct (dg_roots dg) \<and> set (dg_roots dg) \<inter> kv_roots kv = {}"

text \<open>Extending what is known by the three inputs.\<close>

definition inputs_known :: "decode_graph \<Rightarrow> (nat \<rightharpoonup> u32 list) \<Rightarrow> bool" where
  "inputs_known dg M \<longleftrightarrow>
     (\<exists>a b c. M (tn_root (dg_token dg)) = Some a \<and> length a = 1 \<and>
        M (tn_root (dg_pos dg)) = Some b \<and> length b = 1 \<and>
        M (tn_root (dg_mask dg)) = Some c)"

lemma quiet_decode_nodes: "quiet (decode_nodes md hp kv hdim a b c)"
  unfolding decode_nodes_def by (intro quiet_intros)

lemma missing_decode_nodes: "missing_only (decode_nodes md hp kv hdim a b c)"
  unfolding decode_nodes_def by (intro missing_intros)

lemma decode_nodes_shapes:
  assumes m: "model_shaped md hp hdim n_out" and kv: "kv_shaped hp hdim kv"
    and t: "plain tok 26 (D4 1 1 1 1)" and pos: "plain pos 26 (D4 1 1 1 1)" and msk: "plain msk 0 (D4 (kv_n_ctx kv) 1 1 1)"
  shows "yields pan (decode_nodes md hp kv hdim tok pos msk)
    (\<lambda>(lg, ks, vs). plain lg 0 (D4 n_out 1 1 1) \<and> rows_out (hp_head_kv hp * hdim) (nat (hp_layer hp)) ks \<and>
       rows_out (hp_head_kv hp * hdim) (nat (hp_layer hp)) vs) E"
proof -
  have w: "shaped (model_tensor md ''token_embd.weight'') (hp_embd hp) n_out"
    "shaped (model_tensor md ''output.weight'') (hp_embd hp) n_out"
    using m by (simp_all add: model_shaped_def)
  show ?thesis
    unfolding decode_nodes_def
    apply (rule yields_bnd[OF yields_top_weight[OF w(1)]])
    apply (rule yields_bnd[OF yields_get_rows[OF _ t]], assumption)
    apply (rule yields_bnd_triple[OF decode_layers_shapes[OF m kv pos msk]], assumption)
    apply (elim conjE)
    apply (rule yields_bnd[OF final_norm_shapes[OF m]], assumption)
    apply (rule yields_bnd[OF yields_top_weight[OF w(2)]])
    apply (rule yields_bnd[OF yields_mul_mat_weight], assumption, erule plain_floats)
    apply (rule yields_ret, simp)
    done
qed

lemma overwrite_all: "length ys = length xs \<Longrightarrow> overwrite xs 0 ys = ys"
  by (simp add: overwrite_def)

lemma length_overwrite [simp]: "length (overwrite xs off ys) = min (length xs) (min off (length xs) + length ys + (length xs - (off + length ys)))"
  by (simp add: overwrite_def)

text \<open>The end of the build: the allocator of the graph, or everything given back.\<close>

lemma spec_give_back:
  assumes "spec (holds L M) (f ()) Q E pan"
  shows "spec (holds (L + three ib ic cx) M)
    (bnd (ggml_free ic) (\<lambda>_. bnd (ggml_free cx) (\<lambda>_. bnd (ggml_backend_buffer_free ib) f))) Q E pan"
  by (rule spec_frees, (simp add: in_diff_count three_def; fail))+ (simp add: three_def assms)

lemma persist_frame:
  fixes E :: "graph_error \<Rightarrow> world \<Rightarrow> bool"
  assumes ok: "\<And>dg s. dg_token dg = tok \<Longrightarrow> dg_pos dg = pos \<Longrightarrow> dg_mask dg = msk \<Longrightarrow> holds (L + dg_resources dg) M s \<Longrightarrow> Q dg s"
    and other: "\<And>e s. \<not> is_missing e \<Longrightarrow> holds L M s \<Longrightarrow> E e s"
  shows "spec (holds (L + three ib ic cx) M) (persist_decode_graph env ic cx ib tok pos msk lg ks vs) Q E True"
  unfolding persist_decode_graph_def
  apply (rule spec_gallocr_new)
   prefer 2
   apply (simp only: option.case)
   apply (rule spec_give_back, rule spec_fail, rule other; simp add: is_missing_def)
  apply (simp only: option.case)
  apply (rule spec_alloc_graph)
  apply (simp only: split: if_split)
  apply (intro conjI impI)
   apply (rule spec_frees, (simp; fail), simp only: add_mset_remove_trivial, rule spec_give_back, rule spec_fail, rule other; simp add: is_missing_def)
  apply (rule spec_ret, rule ok; simp add: dg_resources_def three_def add_mset_commute)
  done

lemma build_tail_frame:
  fixes E :: "graph_error \<Rightarrow> world \<Rightarrow> bool"
  assumes ok: "\<And>dg s. dg_token dg = tok \<Longrightarrow> dg_pos dg = pos \<Longrightarrow> dg_mask dg = msk \<Longrightarrow> holds (L + dg_resources dg) M s \<Longrightarrow> Q dg s"
    and other: "\<And>e s. \<not> is_missing e \<Longrightarrow> holds L M s \<Longrightarrow> E e s"
    and miss: "\<And>e s cx. is_missing e \<Longrightarrow> holds (L + three ib ic cx) M s \<Longrightarrow> E e s"
  shows "spec (holds (add_mset (RContext ic) (add_mset (RBuffer (bf_id ib)) L)) M)
    (bnd (ggml_init env) (\<lambda>cx.
     case cx of None \<Rightarrow> bnd (ggml_free ic) (\<lambda>_. bnd (ggml_backend_buffer_free ib) (\<lambda>_. fail GraphCtxAlloc))
     | Some ctx \<Rightarrow>
       bnd (decode_nodes md hp kv hdim tok pos msk) (\<lambda>(lg, ks, vs).
       persist_decode_graph env ic ctx ib tok pos msk lg ks vs))) Q E True"
proof -
  have build: "spec (holds (L + three ib ic cx) M) (decode_nodes md hp kv hdim tok pos msk)
      (\<lambda>_. holds (L + three ib ic cx) M) E True" for cx
    by (rule spec_quiet[OF quiet_decode_nodes yields_anything[OF missing_decode_nodes] miss])
  have nodes: "spec (holds (L + three ib ic cx) M) (bnd (decode_nodes md hp kv hdim tok pos msk)
      (\<lambda>(lg, ks, vs). persist_decode_graph env ic cx ib tok pos msk lg ks vs)) Q E True" for cx
    by (rule spec_bnd[OF build]) (simp add: persist_frame[where Q = Q and E = E, OF ok other] split: prod.split)
  show ?thesis
    apply (rule spec_init)
     prefer 2
     apply (simp only: option.case)
     apply (rule spec_frees, (simp; fail), rule spec_frees, (simp; fail), rule spec_fail, rule other; simp add: is_missing_def)
    apply (simp only: option.case)
    apply (rule spec_conseq[OF nodes])
        apply (simp_all add: three_def add_mset_commute)
    done
qed

lemma build_decode_frame:
  assumes kv: "kv_shaped hp (hdim_of hp) kv" and M: "kv_roots kv \<subseteq> dom M"
  shows "spec (holds L M) (build_decode_graph env md hp kv)
     (\<lambda>dg w. dg_ok hp kv dg \<and> (\<exists>M'. M \<subseteq>\<^sub>m M' \<and> inputs_known dg M' \<and> 
        length (the (M' (tn_root (dg_mask dg)))) = nat (kv_n_ctx kv) \<and> holds (L + dg_resources dg) M' w))
     (leak_or L (holds L M) (\<lambda>L'. holds L' M)) True"
  (is "spec _ _ ?Q ?E _")
proof -
  have other: "?E e s" if "\<not> is_missing e" "holds L M s" for e s
    using that by (simp add: leak_or_def)
  have none: "is_missing InputBufferAlloc = False" "is_missing InputCtxAlloc = False" "is_missing GraphCtxAlloc = False"
    "is_missing GallocrNew = False" "is_missing GallocrAlloc = False" by (simp_all add: is_missing_def)
  show ?thesis
    unfolding build_decode_graph_def Let_def
    apply (rule spec_bnd[where R = "\<lambda>_. holds L M"])
     apply (rule spec_quiet[OF quiet_head_dim yields_head_dim[where E = "\<lambda>_. False"]]; simp)
    apply (rule spec_alloc_buffer)
     prefer 2
     apply (simp only: option.case)
     apply (rule spec_fail, rule other; simp add: none)
    apply (simp only: option.case)
    apply (rule spec_init)
     prefer 2
     apply (simp only: option.case)
     apply (rule spec_frees, (simp add: in_diff_count three_def; fail), rule spec_fail, rule other; simp add: none)
    apply (simp only: option.case)
    apply (rule spec_place, rule disjI1, rule TrueI)
    apply (rule spec_place, rule disjI1, rule TrueI)
    apply (rule spec_place, rule disjI1, rule TrueI)
    apply (rule spec_tensor_set, rule disjI1, rule TrueI, rule fun_upd_same)
    subgoal premises prems for hdim ib ic tok pos msk
    proof -
      let ?mask = "overwrite (replicate (nat (nbytes msk) div 4) 0) (nat (tn_offs msk + 0) div 4)
        (take (nat (kv_n_ctx kv * 4) div 4) (replicate (nat (kv_n_ctx kv)) MASKED))"
      define mk where "mk = ?mask"
      define M4 where "M4 = M(tn_root tok \<mapsto> replicate (nat (nbytes tok) div 4) 0,
        tn_root pos \<mapsto> replicate (nat (nbytes pos) div 4) 0, tn_root msk \<mapsto> mk)"
      define Q where "Q = (\<lambda>dg w. dg_ok hp kv dg \<and> inputs_known dg M4 \<and>
        length (the (M4 (tn_root (dg_mask dg)))) = nat (kv_n_ctx kv) \<and> holds (L + dg_resources dg) M4 w)"
      have free: "M (tn_root tok) = None" "M (tn_root pos) = None" "M (tn_root msk) = None"
        "distinct [tn_root tok, tn_root pos, tn_root msk]"
        using prems by (auto split: if_splits)
      have le: "M \<subseteq>\<^sub>m M4"
        unfolding M4_def using free by (intro map_le_fresh map_le_refl; simp)
      have n: "0 \<le> kv_n_ctx kv" using kv by (simp add: kv_shaped_def)
      have sizes: "nbytes tok = 4" "nbytes pos = 4" "nbytes msk = 4 * kv_n_ctx kv"
        using prems plain_nbytes by fastforce+
      have mask: "length mk = nat (kv_n_ctx kv)" using n sizes by (simp add: mk_def nat_mult_distrib)
      have ok: "Q dg s"
        if "dg_token dg = tok" "dg_pos dg = pos" "dg_mask dg = msk" "holds (L + dg_resources dg) M4 s" for dg s
        using that prems free M mask sizes unfolding Q_def dg_ok_def inputs_known_def dg_roots_def M4_def by auto
      have Qout: "?Q dg w" if "Q dg w" for dg w
        using that le unfolding Q_def by blast
      have other: "?E e s" if "\<not> is_missing e" "holds L M4 s" for e s
        using that holds_forget[OF _ le] by (simp add: leak_or_def)
      have miss: "?E e s" if "is_missing e" "holds (L + three ib ic cx) M4 s" for e s cx
        using that(1) holds_forget[OF that(2) le] unfolding leak_or_def by auto
      have fold4: "(M(tn_root tok \<mapsto> replicate (nat (nbytes tok) div 4) 0,
          tn_root pos \<mapsto> replicate (nat (nbytes pos) div 4) 0,
          tn_root msk \<mapsto> replicate (nat (nbytes msk) div 4) 0, tn_root msk \<mapsto> ?mask)) = M4"
        by (simp add: M4_def mk_def)
      show ?thesis
        unfolding fold4
        by (rule spec_conseq[where Q' = Q and E' = ?E, OF build_tail_frame[where M = M4 and L = L]])
          (erule (3) ok | erule (1) other | erule (1) miss | erule Qout | assumption | rule TrueI)+
    qed
    done
qed

section \<open>Row writes\<close>

type_synonym row_write = "nat \<times> nat \<times> u32 list"

fun writes :: "row_write list \<Rightarrow> (nat \<rightharpoonup> u32 list) \<Rightarrow> nat \<rightharpoonup> u32 list" where
  "writes [] M = M"
| "writes ((r, off, ys) # ws) M = writes ws (M(r \<mapsto> overwrite (the (M r)) off ys))"

lemma writes_append: "writes (ws @ ws') M = writes ws' (writes ws M)"
  by (induction ws arbitrary: M) auto

lemma writes_other: "r \<notin> fst ` set ws \<Longrightarrow> writes ws M r = M r"
  by (induction ws arbitrary: M) auto

lemma writes_hit:
  assumes "distinct (map fst ws)" "(r, off, ys) \<in> set ws"
  shows "writes ws M r = Some (overwrite (the (M r)) off ys)"
  using assms
proof (induction ws arbitrary: M)
  case (Cons w ws)
  obtain r' off' ys' where w: "w = (r', off', ys')" by (cases w)
  show ?case
  proof (cases "(r, off, ys) = w")
    case True
    then show ?thesis using Cons.prems(1) by (force simp: writes_other w)
  next
    case False
    then have m: "(r, off, ys) \<in> set ws" and "r \<noteq> r'" using Cons.prems w by force+
    then show ?thesis using Cons.IH[OF _ m] Cons.prems(1) by (simp add: w)
  qed
qed simp

definition copy_write :: "(nat \<Rightarrow> u32 list) \<Rightarrow> copy_op \<Rightarrow> row_write" where
  "copy_write val c =
     (tn_root (cp_dst c), nat (tn_offs (cp_dst c)) div 4, fit (nat (nelements (cp_src c))) (val (tn_id (cp_src c))))"

lemma copied_writes: "copied val cs M = writes (map (copy_write val) cs) M"
  by (induction cs arbitrary: M) (simp_all add: copy_write_def)

section \<open>Data together with the computed values\<close>

definition computed :: "resource multiset \<Rightarrow> (nat \<rightharpoonup> u32 list) \<Rightarrow> (nat \<Rightarrow> u32 list) \<Rightarrow> world \<Rightarrow> bool" where
  "computed L M V w \<longleftrightarrow> holds L M w \<and> w_vals w = V"

lemma spec_set_computed:
  fixes E :: "'e \<Rightarrow> world \<Rightarrow> bool"
  assumes "pan \<or> offset + sz \<le> nbytes t" "M (tn_root t) = Some xs"
    and "spec (computed L (M(tn_root t \<mapsto> overwrite xs (nat (tn_offs t + offset) div 4) (take (nat sz div 4) ws))) V) (f ()) Q E pan"
  shows "spec (computed L M V) (bnd (ggml_backend_tensor_set t ws offset sz) f) Q E pan"
  unfolding spec_def
proof (intro allI impI)
  fix s assume h: "computed L M V s"
  let ?C = "offset + sz \<le> nbytes t"
  let ?xs = "overwrite xs (nat (tn_offs t + offset) div 4) (take (nat sz div 4) ws)"
  define s2 where "s2 = s\<lparr>w_mem := (w_mem s)(tn_root t := ?xs)\<rparr>"
  have set: "(ggml_backend_tensor_set t ws offset sz :: (unit, 'e) act) s = (if ?C then (Ret (), s2) else (Panic, s))"
    using h assms(2) by (simp add: ggml_backend_tensor_set_def gassert_def s2_def holds_def computed_def)
  have h2: "computed L (M(tn_root t \<mapsto> ?xs)) V s2"
    using h assms(2) by (auto simp: holds_def s2_def computed_def)
  show "ends_in Q E pan (bnd (ggml_backend_tensor_set t ws offset sz) f s)"
    using assms(1,3) set h2 by (cases ?C) (auto simp: spec_def)
qed

lemma spec_get_computed:
  fixes E :: "'e \<Rightarrow> world \<Rightarrow> bool"
  assumes "pan \<or> sz \<le> nbytes t"
    and "spec (computed L M V) (f (fit (nat sz div 4) (V (tn_id t)))) Q E pan"
  shows "spec (computed L M V) (bnd (ggml_backend_tensor_get t sz) f) Q E pan"
  unfolding spec_def
proof (intro allI impI)
  fix s assume h: "computed L M V s"
  have "(ggml_backend_tensor_get t sz :: (u32 list, 'e) act) s =
      (if sz \<le> nbytes t then (Ret (fit (nat sz div 4) (V (tn_id t))), s) else (Panic, s))"
    using h by (simp add: ggml_backend_tensor_get_def gassert_def computed_def)
  then show "ends_in Q E pan (bnd (ggml_backend_tensor_get t sz) f s)"
    using assms h by (cases "sz \<le> nbytes t") (auto simp: spec_def)
qed

lemma spec_compute_values:
  fixes E :: "'e \<Rightarrow> world \<Rightarrow> bool"
  assumes "\<And>V status. spec (computed L M V) (f status) Q E pan"
  shows "spec (holds L M) (bnd (ggml_backend_graph_compute env []) f) Q E pan"
  unfolding spec_def
proof (intro allI impI)
  fix s assume h: "holds L M s"
  define s2 where "s2 = s\<lparr>w_next := Suc (w_next s), w_vals := ge_eval env (w_nodes s) (w_mem s)\<rparr>"
  have "(ggml_backend_graph_compute env [] :: (int, 'e) act) s = (Ret (ge_status env (w_next s)), s2)"
    by (simp add: ggml_backend_graph_compute_def Let_def s2_def)
  moreover have "computed L M (w_vals s2) s2"
    using h by (auto simp: computed_def holds_def s2_def intro: less_SucI)
  ultimately show "ends_in Q E pan (bnd (ggml_backend_graph_compute env []) f s)"
    using assms by (auto simp: spec_def)
qed

text \<open>The rows a decode step stores.\<close>

definition row_words :: "hparams \<Rightarrow> nat" where
  "row_words hp = nat (hp_head_kv hp * hdim_of hp)"

definition decode_writes :: "kv_cache \<Rightarrow> decode_graph \<Rightarrow> nat \<Rightarrow> (nat \<Rightarrow> u32 list) \<Rightarrow> nat \<Rightarrow> row_write list" where
  "decode_writes kv dg row V i =
     concat (map (\<lambda>l. [(tn_root (kv_k kv ! l), nat (kv_head kv) * row, fit row (V (tn_id (dg_k_out dg ! l)))),
                      (tn_root (kv_v kv ! l), nat (kv_head kv) * row, fit row (V (tn_id (dg_v_out dg ! l))))]) [0..<i])"

lemma decode_writes_Suc:
  "decode_writes kv dg row V (Suc i) = decode_writes kv dg row V i @
     [(tn_root (kv_k kv ! i), nat (kv_head kv) * row, fit row (V (tn_id (dg_k_out dg ! i)))),
      (tn_root (kv_v kv ! i), nat (kv_head kv) * row, fit row (V (tn_id (dg_v_out dg ! i))))]"
  by (simp add: decode_writes_def)

lemma dom_writes: "dom M \<subseteq> dom (writes ws M)"
proof (induction ws arbitrary: M)
  case (Cons w ws)
  obtain r off ys where w: "w = (r, off, ys)" by (cases w)
  let ?N = "M(r \<mapsto> overwrite (the (M r)) off ys)"
  have "dom M \<subseteq> dom ?N" by auto
  also have "\<dots> \<subseteq> dom (writes ws ?N)" by (rule Cons)
  finally show ?case by (simp only: w writes.simps)
qed simp

lemma kv_roots_apart:
  assumes "kv_shaped hp hdim kv" "i < nat (hp_layer hp)" "j < nat (hp_layer hp)"
  shows "tn_root (kv_k kv ! i) \<noteq> tn_root (kv_v kv ! j)"
    and "tn_root (kv_k kv ! i) = tn_root (kv_k kv ! j) \<longleftrightarrow> i = j"
    and "tn_root (kv_v kv ! i) = tn_root (kv_v kv ! j) \<longleftrightarrow> i = j"
proof -
  note a = assms[unfolded kv_shaped_def]
  have d: "distinct (map tn_root (kv_k kv))" "distinct (map tn_root (kv_v kv))"
    "tn_root ` set (kv_k kv) \<inter> tn_root ` set (kv_v kv) = {}"
    using a(1) by simp_all
  have "tn_root (kv_k kv ! i) \<in> tn_root ` set (kv_k kv)" "tn_root (kv_v kv ! j) \<in> tn_root ` set (kv_v kv)"
    using a by simp_all
  then show "tn_root (kv_k kv ! i) \<noteq> tn_root (kv_v kv ! j)"
    using d(3) unfolding disjoint_iff by metis
  show "tn_root (kv_k kv ! i) = tn_root (kv_k kv ! j) \<longleftrightarrow> i = j"
    using nth_eq_iff_index_eq[OF d(1), of i j] a by simp
  show "tn_root (kv_v kv ! i) = tn_root (kv_v kv ! j) \<longleftrightarrow> i = j"
    using nth_eq_iff_index_eq[OF d(2), of i j] a by simp
qed

lemma store_rows_frame:
  assumes kv: "kv_shaped hp hdim kv" and M: "kv_roots kv \<subseteq> dom M" and row: "0 \<le> hp_head_kv hp * hdim"
    and out: "pan \<or> (rows_out (hp_head_kv hp * hdim) (nat (hp_layer hp)) (dg_k_out dg) \<and>
      rows_out (hp_head_kv hp * hdim) (nat (hp_layer hp)) (dg_v_out dg) \<and> kv_head kv < kv_n_ctx kv)"
  shows "spec (computed L M V) (loop (store_row kv dg (hp_head_kv hp * hdim * 4)) () [0..<nat (hp_layer hp)])
    (\<lambda>_. computed L (writes (decode_writes kv dg (nat (hp_head_kv hp * hdim)) V (nat (hp_layer hp))) M) V) E pan"
proof (rule spec_conseq[OF spec_loop_upt[where E = E and I = "\<lambda>i _. computed L (writes (decode_writes kv dg (nat (hp_head_kv hp * hdim)) V i) M) V"]])
  let ?r = "hp_head_kv hp * hdim"
  fix i and u :: unit assume i: "i < nat (hp_layer hp)"
  let ?N = "writes (decode_writes kv dg (nat ?r) V i) M"
  have dom: "kv_roots kv \<subseteq> dom ?N" using M dom_writes[of M] by blast
  have t: "plain (kv_k kv ! i) 0 (D4 ?r (kv_n_ctx kv) 1 1)" "plain (kv_v kv ! i) 0 (D4 ?r (kv_n_ctx kv) 1 1)"
    and "tn_root (kv_k kv ! i) \<in> kv_roots kv" "tn_root (kv_v kv ! i) \<in> kv_roots kv" and h: "0 \<le> kv_head kv"
    using kv i by (auto simp: kv_shaped_def kv_roots_def)
  then obtain a b where a: "?N (tn_root (kv_k kv ! i)) = Some a" and b: "?N (tn_root (kv_v kv ! i)) = Some b"
    using dom by blast
  have apart: "tn_root (kv_k kv ! i) \<noteq> tn_root (kv_v kv ! i)"
    by (rule kv_roots_apart(1)[OF kv i i])
  have b': "(?N(tn_root (kv_k kv ! i) \<mapsto> x)) (tn_root (kv_v kv ! i)) = Some b" for x
    using b apart by simp
  have offs: "nat (tn_offs t + kv_head kv * (?r * 4)) div 4 = nat (kv_head kv) * nat ?r" if "tn_offs t = 0" for t
    using h row that by (simp add: nat_mult_distrib)
  have o: "tn_offs (kv_k kv ! i) = 0" "tn_offs (kv_v kv ! i) = 0" using t by (simp_all add: plain_def)
  have words: "nat (?r * 4) div 4 = nat ?r" using row by (simp add: nat_mult_distrib)
  have fits: "pan \<or> kv_head kv * (?r * 4) + ?r * 4 \<le> nbytes (kv_k kv ! i) \<and> ?r * 4 \<le> nbytes (dg_k_out dg ! i) \<and>
      kv_head kv * (?r * 4) + ?r * 4 \<le> nbytes (kv_v kv ! i) \<and> ?r * 4 \<le> nbytes (dg_v_out dg ! i)"
  proof (cases pan)
    case False
    then have ok: "plain (dg_k_out dg ! i) 0 (D4 ?r 1 1 1)" "plain (dg_v_out dg ! i) 0 (D4 ?r 1 1 1)"
      and lt: "kv_head kv + 1 \<le> kv_n_ctx kv"
      using out i by (auto simp: rows_out_def)
    have "?r * (kv_head kv + 1) \<le> ?r * kv_n_ctx kv" using lt row by (rule mult_left_mono)
    then show ?thesis
      using plain_nbytes[OF t(1)] plain_nbytes[OF t(2)] plain_nbytes[OF ok(1)] plain_nbytes[OF ok(2)]
      by (simp add: algebra_simps)
  qed simp
  show "spec (computed L ?N V) (store_row kv dg (?r * 4) u i)
     (\<lambda>_. computed L (writes (decode_writes kv dg (nat ?r) V (Suc i)) M) V) E pan"
    unfolding store_row_def
    apply (rule spec_get_computed) using fits apply blast
    apply (rule spec_set_computed) using fits apply blast
     apply (rule a)
    apply (rule spec_get_computed) using fits apply blast
    apply (rule spec_alone)
    apply (rule spec_set_computed) using fits apply blast
     apply (rule b')
    apply (rule spec_ret)
    apply (simp add: decode_writes_Suc writes_append a b apart[symmetric] offs[OF o(1)] offs[OF o(2)] words)
    done
qed (simp_all add: decode_writes_def)

end
