(* ===== verification/Graph_Engine.thy ===== *)
theory Graph_Engine imports Graph_Decode begin

text \<open>
  The engine's invariant and what each public operation of \<^verbatim>\<open>LlamaGraph\<close> does to it, on
  every outcome.
\<close>

section \<open>The invariant\<close>

definition kv_full_words :: "hparams \<Rightarrow> kv_cache \<Rightarrow> nat" where
  "kv_full_words hp kv = row_words hp * nat (kv_n_ctx kv)"

definition eng_inv :: "llama_graph \<Rightarrow> (nat \<rightharpoonup> u32 list) \<Rightarrow> bool" where
  "eng_inv lg M \<longleftrightarrow>
     (let hp = lg_hp lg; kv = lg_kv lg in
      kv_shaped hp (hdim_of hp) kv \<and> 0 \<le> hp_head_kv hp * hdim_of hp \<and>
      (\<forall>r\<in>kv_roots kv. \<exists>xs. M r = Some xs \<and> length xs = kv_full_words hp kv) \<and>
      (\<forall>dg. lg_dec lg = Some dg \<longrightarrow>
         dg_ok hp kv dg \<and> inputs_known dg M \<and> length (the (M (tn_root (dg_mask dg)))) = nat (kv_n_ctx kv)))"

definition dec_resources :: "llama_graph \<Rightarrow> resource multiset" where
  "dec_resources lg = (case lg_dec lg of None \<Rightarrow> {#} | Some dg \<Rightarrow> dg_resources dg)"

definition with_dec :: "decode_graph \<Rightarrow> llama_graph \<Rightarrow> llama_graph" where
  "with_dec dg lg = lg\<lparr>lg_dec := Some dg\<rparr>"

lemma with_dec_simps [simp]:
  "lg_hp (with_dec dg lg) = lg_hp lg" "lg_kv (with_dec dg lg) = lg_kv lg" "lg_dec (with_dec dg lg) = Some dg"
  "dec_resources (with_dec dg lg) = dg_resources dg"
  by (simp_all add: with_dec_def dec_resources_def)

lemma eng_inv_roots: "eng_inv lg M \<Longrightarrow> kv_roots (lg_kv lg) \<subseteq> dom M"
  by (force simp: eng_inv_def Let_def)

lemma eng_inv_shaped: "eng_inv lg M \<Longrightarrow> kv_shaped (lg_hp lg) (hdim_of (lg_hp lg)) (lg_kv lg)"
  by (simp add: eng_inv_def Let_def)

text \<open>The invariant depends on the cache's contents only through their lengths.\<close>

lemma eng_inv_change:
  assumes "eng_inv lg M" "\<And>r xs. M r = Some xs \<Longrightarrow> \<exists>ys. M' r = Some ys \<and> length ys = length xs"
  shows "eng_inv lg M'"
  unfolding eng_inv_def Let_def
proof (intro conjI ballI allI impI)
  note i = assms(1)[unfolded eng_inv_def Let_def]
  show "kv_shaped (lg_hp lg) (hdim_of (lg_hp lg)) (lg_kv lg)" "0 \<le> hp_head_kv (lg_hp lg) * hdim_of (lg_hp lg)"
    using i by simp_all
  show "\<exists>xs. M' r = Some xs \<and> length xs = kv_full_words (lg_hp lg) (lg_kv lg)" if "r \<in> kv_roots (lg_kv lg)" for r
    using i assms(2)[of r] that by metis
  fix dg assume d: "lg_dec lg = Some dg"
  then have k: "inputs_known dg M" and l: "length (the (M (tn_root (dg_mask dg)))) = nat (kv_n_ctx (lg_kv lg))"
    and ok: "dg_ok (lg_hp lg) (lg_kv lg) dg"
    using i by simp_all
  then show "dg_ok (lg_hp lg) (lg_kv lg) dg" by simp
  show "inputs_known dg M'" using k assms(2) unfolding inputs_known_def by metis
  show "length (the (M' (tn_root (dg_mask dg)))) = nat (kv_n_ctx (lg_kv lg))"
    using k l assms(2)[of "tn_root (dg_mask dg)"] unfolding inputs_known_def by fastforce
qed

lemma length_overwrite_fit: "off + length ys \<le> length xs \<Longrightarrow> length (overwrite xs off ys) = length xs"
  by simp

section \<open>Building the decode graph on demand\<close>

definition decode_failed :: "llama_graph \<Rightarrow> resource multiset \<Rightarrow> (nat \<rightharpoonup> u32 list) \<Rightarrow> graph_error \<Rightarrow> engine \<Rightarrow> bool" where
  "decode_failed lg L M e s \<longleftrightarrow>
     (\<exists>lg' M'. (lg' = lg \<or> lg_dec lg = None \<and> (\<exists>dg. lg' = with_dec dg lg)) \<and> eng_inv lg' M' \<and>
        (\<forall>r\<in>kv_roots (lg_kv lg). M' r = M r) \<and>
        at lg' (leak_or (L + dec_resources lg') (holds (L + dec_resources lg') M') (\<lambda>L'. holds L' M') e) s)"

lemma ensure_decode_frame:
  assumes inv: "eng_inv lg M"
  shows "spec (at lg (holds (L + dec_resources lg) M)) (ensure_decode_graph env md)
     (\<lambda>dg s. \<exists>M'. M \<subseteq>\<^sub>m M' \<and> eng_inv (with_dec dg lg) M' \<and> (lg_dec lg = None \<or> lg_dec lg = Some dg) \<and>
        at (with_dec dg lg) (holds (L + dg_resources dg) M') s)
     (decode_failed lg L M) True"
  unfolding ensure_decode_graph_def
proof (rule spec_get_graph, cases "lg_dec lg")
  case (Some dg)
  then have "with_dec dg lg = lg" by (simp add: with_dec_def)
  then show "spec (at lg (holds (L + dec_resources lg) M))
      (case lg_dec lg of None \<Rightarrow> bnd (in_world (build_decode_graph env md (lg_hp lg) (lg_kv lg)))
         (\<lambda>dg. bnd (set_graph (lg\<lparr>lg_dec := Some dg\<rparr>)) (\<lambda>_. ret dg)) | Some dg \<Rightarrow> ret dg)
      (\<lambda>dg s. \<exists>M'. M \<subseteq>\<^sub>m M' \<and> eng_inv (with_dec dg lg) M' \<and> (lg_dec lg = None \<or> lg_dec lg = Some dg) \<and>
        at (with_dec dg lg) (holds (L + dg_resources dg) M') s)
      (decode_failed lg L M) True"
    using Some inv by (auto simp: dec_resources_def simp del: sm_simps intro!: spec_ret exI[of _ M])
next
  case None
  have res: "dec_resources lg = {#}" using None by (simp add: dec_resources_def)
  show "spec (at lg (holds (L + dec_resources lg) M))
      (case lg_dec lg of None \<Rightarrow> bnd (in_world (build_decode_graph env md (lg_hp lg) (lg_kv lg)))
         (\<lambda>dg. bnd (set_graph (lg\<lparr>lg_dec := Some dg\<rparr>)) (\<lambda>_. ret dg)) | Some dg \<Rightarrow> ret dg)
      (\<lambda>dg s. \<exists>M'. M \<subseteq>\<^sub>m M' \<and> eng_inv (with_dec dg lg) M' \<and> (lg_dec lg = None \<or> lg_dec lg = Some dg) \<and>
        at (with_dec dg lg) (holds (L + dg_resources dg) M') s)
      (decode_failed lg L M) True"
    unfolding None option.case res add_0_right
  proof (rule spec_in_world_bnd[OF build_decode_frame[OF eng_inv_shaped[OF inv] eng_inv_roots[OF inv]]], goal_cases)
    case (1 e s)
    then show ?case
      unfolding decode_failed_def using inv by (intro exI[of _ lg] exI[of _ M]) (auto simp: res)
  next
    case (2 dg)
    show ?case
    proof (rule spec_at_pure, rule spec_at_ex, rule spec_set_graph, rule spec_ret, goal_cases)
      case (1 M' s)
      have le: "M \<subseteq>\<^sub>m M'" using 1 by (simp add: at_def)
      then have "M' r = Some xs" if "M r = Some xs" for r xs using that by (force simp: map_le_def)
      then have "eng_inv lg M'" using eng_inv_change[OF inv] by blast
      then have "eng_inv (with_dec dg lg) M'"
        using 1 None by (simp add: eng_inv_def Let_def at_def)
      with 1 le None show ?case by (auto simp: at_def with_dec_def)
    qed
  qed
qed

section \<open>One decode step\<close>

text \<open>The inputs of a step.\<close>

definition with_inputs :: "decode_graph \<Rightarrow> u32 \<Rightarrow> int \<Rightarrow> int \<Rightarrow> (nat \<rightharpoonup> u32 list) \<Rightarrow> nat \<rightharpoonup> u32 list" where
  "with_inputs dg token n_ctx head M =
     M(tn_root (dg_token dg) \<mapsto> [token], tn_root (dg_pos dg) \<mapsto> [word_of_int head],
       tn_root (dg_mask dg) \<mapsto> decode_mask n_ctx head)"

lemma length_decode_mask: "0 \<le> h \<Longrightarrow> h \<le> n \<Longrightarrow> length (decode_mask n h) = nat n"
  by (simp add: decode_mask_def nat_add_distrib[symmetric])

lemma overwrite_one: "length xs = 1 \<Longrightarrow> overwrite xs 0 [y] = [y]"
  by (simp add: overwrite_def)

lemma decode_inputs_frame:
  assumes ok: "dg_ok hp kv dg" and k: "inputs_known dg M" "length (the (M (tn_root (dg_mask dg)))) = nat n"
    and h: "0 \<le> h" "h \<le> n" and n: "n = kv_n_ctx kv"
  shows "spec (holds L M) (decode_inputs dg token n h) (\<lambda>_. holds L (with_inputs dg token n h M)) E pan"
proof -
  obtain a b c where a: "M (tn_root (dg_token dg)) = Some a" "length a = 1"
    and b: "M (tn_root (dg_pos dg)) = Some b" "length b = 1" and c: "M (tn_root (dg_mask dg)) = Some c"
    using k unfolding inputs_known_def by blast
  have p: "plain (dg_token dg) 26 (D4 1 1 1 1)" "plain (dg_pos dg) 26 (D4 1 1 1 1)" "plain (dg_mask dg) 0 (D4 n 1 1 1)"
    and apart: "tn_root (dg_token dg) \<noteq> tn_root (dg_pos dg)" "tn_root (dg_token dg) \<noteq> tn_root (dg_mask dg)"
      "tn_root (dg_pos dg) \<noteq> tn_root (dg_mask dg)"
    using ok n by (auto simp: dg_ok_def dg_roots_def)
  have sz: "nbytes (dg_token dg) = 4" "nbytes (dg_pos dg) = 4" "nbytes (dg_mask dg) = 4 * n"
    using plain_nbytes[OF p(1)] plain_nbytes[OF p(2)] plain_nbytes[OF p(3)] by simp_all
  have off: "tn_offs (dg_token dg) = 0" "tn_offs (dg_pos dg) = 0" "tn_offs (dg_mask dg) = 0"
    using p by (simp_all add: plain_def)
  have words: "nat (n * 4) div 4 = nat n" using h by (simp add: nat_mult_distrib)
  have b': "(M(tn_root (dg_token dg) \<mapsto> x)) (tn_root (dg_pos dg)) = Some b" for x
    using b apart by simp
  have c': "(M(tn_root (dg_token dg) \<mapsto> x, tn_root (dg_pos dg) \<mapsto> y)) (tn_root (dg_mask dg)) = Some c" for x y
    using c apart by simp
  have lc: "length c = nat n" using k(2) c by simp
  show ?thesis
    unfolding decode_inputs_def
    apply (rule spec_tensor_set)
      apply (simp add: sz)
     apply (rule a)
    apply (rule spec_tensor_set)
      apply (simp add: sz)
     apply (rule b')
    apply (rule spec_alone)
    apply (rule spec_tensor_set)
      apply (simp add: sz)
     apply (rule c')
    apply (rule spec_ret)
    apply (simp add: off words overwrite_one a b lc length_decode_mask h overwrite_all with_inputs_def)
    done
qed

definition decode_done ::
    "llama_graph \<Rightarrow> resource multiset \<Rightarrow> (nat \<rightharpoonup> u32 list) \<Rightarrow> u32 \<Rightarrow> u32 list \<Rightarrow> engine \<Rightarrow> bool" where
  "decode_done lg L M token out s \<longleftrightarrow>
     (let hp = lg_hp lg; kv = lg_kv lg in
      \<exists>dg M' V. (lg_dec lg = None \<or> lg_dec lg = Some dg) \<and> M \<subseteq>\<^sub>m M' \<and> eng_inv (with_dec dg lg) M' \<and>
        kv_head kv < kv_n_ctx kv \<and>
        at (set_head (kv_head kv + 1) (with_dec dg lg))
          (computed (L + dg_resources dg)
            (writes (decode_writes kv dg (row_words hp) V (nat (hp_layer hp)))
              (with_inputs dg token (kv_n_ctx kv) (kv_head kv) M')) V) s \<and>
        out = fit (nat (hp_vocab hp * 4) div 4) (V (tn_id (dg_logits dg))))"

lemma eng_inv_inputs:
  assumes "eng_inv lg M" "lg_dec lg = Some dg"
  shows "eng_inv lg (with_inputs dg token (kv_n_ctx (lg_kv lg)) (kv_head (lg_kv lg)) M)"
proof (rule eng_inv_change[OF assms(1)])
  fix r xs assume r: "M r = Some xs"
  have k: "inputs_known dg M" "length (the (M (tn_root (dg_mask dg)))) = nat (kv_n_ctx (lg_kv lg))"
    and s: "kv_shaped (lg_hp lg) (hdim_of (lg_hp lg)) (lg_kv lg)"
    using assms by (simp_all add: eng_inv_def Let_def)
  show "\<exists>ys. with_inputs dg token (kv_n_ctx (lg_kv lg)) (kv_head (lg_kv lg)) M r = Some ys \<and> length ys = length xs"
    using r k s unfolding inputs_known_def with_inputs_def kv_shaped_def
    by (auto simp: length_decode_mask)
qed

lemma at_computed: "at lg (computed L M V) s \<Longrightarrow> at lg (holds L M) s"
  by (simp add: at_def computed_def)

lemma kv_outside_inputs:
  assumes "dg_ok hp kv dg" "r \<in> kv_roots kv"
  shows "with_inputs dg token n h M r = M r"
proof -
  have "r \<notin> set (dg_roots dg)" using assms by (auto simp: dg_ok_def)
  then show ?thesis by (simp add: with_inputs_def dg_roots_def)
qed

text \<open>The end of a step whose computation worked: the rows are stored, the head moves, the logits are read.\<close>

lemma decode_store_frame:
  assumes shaped: "kv_shaped (lg_hp lg) (hdim_of (lg_hp lg)) (lg_kv lg)" and roots: "kv_roots (lg_kv lg) \<subseteq> dom M"
    and row: "0 \<le> hp_head_kv (lg_hp lg) * hdim_of (lg_hp lg)" and full: "kv_head (lg_kv lg) < kv_n_ctx (lg_kv lg)"
  shows "spec (at lg (computed L M V))
     (bnd (in_world (loop (store_row (lg_kv lg) dg (hp_head_kv (lg_hp lg) * hdim_of (lg_hp lg) * 4)) () [0..<nat (hp_layer (lg_hp lg))])) (\<lambda>_.
      bnd (set_graph (set_head (min (kv_head (lg_kv lg) + 1) (kv_n_ctx (lg_kv lg))) lg)) (\<lambda>_.
      in_world (ggml_backend_tensor_get (dg_logits dg) (hp_vocab (lg_hp lg) * 4)))))
     (\<lambda>out s. kv_head (lg_kv lg) < kv_n_ctx (lg_kv lg) \<and>
        (\<exists>V. out = fit (nat (hp_vocab (lg_hp lg) * 4) div 4) (V (tn_id (dg_logits dg))) \<and>
          at (set_head (kv_head (lg_kv lg) + 1) lg)
            (computed L (writes (decode_writes (lg_kv lg) dg (row_words (lg_hp lg)) V (nat (hp_layer (lg_hp lg)))) M) V) s))
     E True"
  (is "spec _ _ ?Q _ _")
proof (rule spec_in_world_step[where R = "\<lambda>_. computed L
    (writes (decode_writes (lg_kv lg) dg (row_words (lg_hp lg)) V (nat (hp_layer (lg_hp lg)))) M) V"], goal_cases)
  case 1
  show ?case
    unfolding row_words_def by (rule store_rows_frame[OF shaped roots row]) simp
next
  case (2 u)
  show ?case
    by (rule spec_set_graph, rule spec_conseq[OF spec_in_world[OF spec_alone[OF spec_get_computed[where Q = "\<lambda>out w.
        out = fit (nat (hp_vocab (lg_hp lg) * 4) div 4) (V (tn_id (dg_logits dg))) \<and>
        computed L (writes (decode_writes (lg_kv lg) dg (row_words (lg_hp lg)) V (nat (hp_layer (lg_hp lg)))) M) V w" and E = "\<lambda>_ _. False"]]]])
      (use full in \<open>auto simp: at_def intro!: spec_ret\<close>)
qed

lemma decode_run_frame:
  assumes inv: "eng_inv lg M'" and dg: "lg_dec lg = Some dg"
  shows "spec (at lg (holds (L + dg_resources dg) M')) (decode_run env dg token)
     (\<lambda>out s. kv_head (lg_kv lg) < kv_n_ctx (lg_kv lg) \<and>
        (\<exists>V. out = fit (nat (hp_vocab (lg_hp lg) * 4) div 4) (V (tn_id (dg_logits dg))) \<and>
          at (set_head (kv_head (lg_kv lg) + 1) lg)
            (computed (L + dg_resources dg)
              (writes (decode_writes (lg_kv lg) dg (row_words (lg_hp lg)) V (nat (hp_layer (lg_hp lg))))
                (with_inputs dg token (kv_n_ctx (lg_kv lg)) (kv_head (lg_kv lg)) M')) V) s))
     (\<lambda>e s. \<not> is_missing e \<and> (\<exists>M1. eng_inv lg M1 \<and> (\<forall>r\<in>kv_roots (lg_kv lg). M1 r = M' r) \<and>
        at lg (holds (L + dg_resources dg) M1) s)) True"
  (is "spec _ _ ?Q ?E True")
proof -
  let ?hp = "lg_hp lg" and ?kv = "lg_kv lg"
  let ?n = "kv_n_ctx ?kv" and ?h = "kv_head ?kv" and ?L = "L + dg_resources dg"
  let ?M1 = "with_inputs dg token ?n ?h M'"
  have shaped: "kv_shaped ?hp (hdim_of ?hp) ?kv" and row: "0 \<le> hp_head_kv ?hp * hdim_of ?hp"
    and ok: "dg_ok ?hp ?kv dg" and k: "inputs_known dg M'" "length (the (M' (tn_root (dg_mask dg)))) = nat ?n"
    using inv dg by (simp_all add: eng_inv_def Let_def)
  have h: "0 \<le> ?h" "?h \<le> ?n" using shaped by (simp_all add: kv_shaped_def)
  have inv1: "eng_inv lg ?M1" by (rule eng_inv_inputs[OF inv dg])
  have same: "\<forall>r\<in>kv_roots ?kv. ?M1 r = M' r" using kv_outside_inputs[OF ok] by blast
  note roots = eng_inv_roots[OF inv1]
  have low: "spec (holds ?L M') (head_dim ?hp) (\<lambda>hd w. hd = hdim_of ?hp \<and> holds ?L M' w) (\<lambda>_ _. False) True"
    by (rule spec_quiet[OF quiet_head_dim yields_head_dim[where E = "\<lambda>_. False"]]; simp)
  show ?thesis
    unfolding decode_run_def Let_def
  proof (rule spec_get_graph, rule spec_in_world_step[OF low], rule spec_at_pure, goal_cases)
    case (1 hdim)
    show ?case
    proof (cases "?n \<le> ?h")
      case True
      then show ?thesis
        using inv by (simp del: sm_simps) (rule spec_fail, auto simp: is_missing_def)
    next
      case False
      then have full: "?h < ?n" by simp
      show ?thesis
        unfolding 1 if_not_P[OF False]
      proof (rule spec_in_world_step[OF decode_inputs_frame[OF ok k h refl]],
          rule spec_in_world_step[where R = "\<lambda>_ w. \<exists>V. computed ?L ?M1 V w"], goal_cases)
        case 1
        show ?case by (rule spec_alone, rule spec_compute_values, rule spec_ret, blast)
      next
        case (2 u status)
        show ?case
        proof (rule spec_at_ex, cases "status = 0", goal_cases)
          case (1 V)
          then show ?case by (simp del: sm_simps) (rule decode_store_frame[OF shaped roots row full])
        next
          case (2 V)
          then show ?case
            using inv1 same at_computed by (simp del: sm_simps) (rule spec_fail, auto simp: is_missing_def)
        qed
      qed
    qed
  qed
qed

lemma execute_decode_frame:
  assumes inv: "eng_inv lg M"
  shows "spec (at lg (holds (L + dec_resources lg) M)) (execute_decode env md token)
     (decode_done lg L M token) (decode_failed lg L M) True"
  unfolding execute_decode_def
proof (rule spec_bnd[OF ensure_decode_frame[OF inv]])
  fix dg
  show "spec (\<lambda>s. \<exists>M'. M \<subseteq>\<^sub>m M' \<and> eng_inv (with_dec dg lg) M' \<and> (lg_dec lg = None \<or> lg_dec lg = Some dg) \<and>
        at (with_dec dg lg) (holds (L + dg_resources dg) M') s)
     (decode_run env dg token) (decode_done lg L M token) (decode_failed lg L M) True"
    unfolding spec_def
  proof (intro allI impI, elim exE conjE)
    fix s M'
    assume le: "M \<subseteq>\<^sub>m M'" and inv': "eng_inv (with_dec dg lg) M'" and dec: "lg_dec lg = None \<or> lg_dec lg = Some dg"
      and at: "at (with_dec dg lg) (holds (L + dg_resources dg) M') s"
    have roots: "M' r = M r" if "r \<in> kv_roots (lg_kv lg)" for r
      using le eng_inv_roots[OF inv] that by (force simp: map_le_def)
    have lg': "with_dec dg lg = lg \<or> lg_dec lg = None \<and> (\<exists>dg'. with_dec dg lg = with_dec dg' lg)"
      using dec by (auto simp: with_dec_def)
    have e: "ends_in (\<lambda>out s. kv_head (lg_kv lg) < kv_n_ctx (lg_kv lg) \<and>
        (\<exists>V. out = fit (nat (hp_vocab (lg_hp lg) * 4) div 4) (V (tn_id (dg_logits dg))) \<and>
          at (set_head (kv_head (lg_kv lg) + 1) (with_dec dg lg))
            (computed (L + dg_resources dg)
              (writes (decode_writes (lg_kv lg) dg (row_words (lg_hp lg)) V (nat (hp_layer (lg_hp lg))))
                (with_inputs dg token (kv_n_ctx (lg_kv lg)) (kv_head (lg_kv lg)) M')) V) s))
     (\<lambda>e s. \<not> is_missing e \<and> (\<exists>M1. eng_inv (with_dec dg lg) M1 \<and> (\<forall>r\<in>kv_roots (lg_kv lg). M1 r = M' r) \<and>
        at (with_dec dg lg) (holds (L + dg_resources dg) M1) s)) True (decode_run env dg token s)"
      using decode_run_frame[OF inv', of dg L env token] at by (simp add: spec_def)
    show "ends_in (decode_done lg L M token) (decode_failed lg L M) True (decode_run env dg token s)"
    proof (rule ends_in_mono[OF e], goal_cases)
      case (1 out t)
      then show ?case
        unfolding decode_done_def Let_def using dec le inv' by blast
    next
      case (2 err t)
      then obtain M1 where "\<not> is_missing err" "eng_inv (with_dec dg lg) M1"
        "\<forall>r\<in>kv_roots (lg_kv lg). M1 r = M' r" "at (with_dec dg lg) (holds (L + dg_resources dg) M1) t" by blast
      then show ?case
        unfolding decode_failed_def using lg' roots
        by (intro exI[of _ "with_dec dg lg"] exI[of _ M1]) (auto simp: leak_or_def at_def)
    qed simp
  qed
qed

section \<open>Rows\<close>

definition rows :: "'a list \<Rightarrow> nat \<Rightarrow> nat \<Rightarrow> 'a list list" where
  "rows xs row n = map (\<lambda>i. take row (drop (i * row) xs)) [0..<n]"

lemma length_rows [simp]: "length (rows xs row n) = n"
  by (simp add: rows_def)

lemma rows_prefix:
  assumes "take (n * row) xs = take (n * row) ys"
  shows "rows xs row n = rows ys row n"
  unfolding rows_def
proof (rule map_cong[OF refl])
  fix i assume "i \<in> set [0..<n]"
  then have le: "i * row + row \<le> n * row"
    using mult_le_mono1[of "Suc i" n row] by simp
  have "take row (drop (i * row) zs) = take row (drop (i * row) (take (n * row) zs))" for zs :: "'a list"
    using le by (simp add: drop_take min_def)
  then show "take row (drop (i * row) xs) = take row (drop (i * row) ys)"
    using assms by metis
qed

lemma rows_add: "rows xs row (n + m) = rows xs row n @ rows (drop (n * row) xs) row m"
proof -
  have "[0..<n + m] = [0..<n] @ map (\<lambda>i. i + n) [0..<m]"
    using map_add_upt[of n m] upt_add_eq_append[of 0 n m] by (simp add: add.commute)
  then show ?thesis by (simp add: rows_def add_mult_distrib add.commute)
qed

lemma overwrite_take:
  "off \<le> length xs \<Longrightarrow> take off (overwrite xs off ys) = take off xs"
  by (simp add: overwrite_def min_def)

lemma overwrite_drop:
  "off + length ys \<le> length xs \<Longrightarrow> take (length ys) (drop off (overwrite xs off ys)) = ys"
  by (simp add: overwrite_def)

text \<open>Writing rows at position \<open>n\<close> keeps the rows before it.\<close>

lemma rows_overwrite:
  assumes "n * row \<le> length xs"
  shows "rows (overwrite xs (n * row) ys) row n = rows xs row n"
  by (rule rows_prefix) (rule overwrite_take[OF assms])

lemma rows_append_one:
  assumes "n * row + row \<le> length xs" "length ys = row"
  shows "rows (overwrite xs (n * row) ys) row (n + 1) = rows xs row n @ [ys]"
  using assms rows_overwrite[of n row xs ys] overwrite_drop[of "n * row" ys xs]
  by (simp add: rows_add del: Suc_eq_plus1 add_Suc_right) (simp add: rows_def)

section \<open>The abstract cache\<close>

text \<open>What the cache holds for a layer: the first \<open>kv_head\<close> rows of keys and of values.\<close>

definition k_rows :: "engine \<Rightarrow> nat \<Rightarrow> u32 list list" where
  "k_rows s l =
     (let kv = lg_kv (eg_graph s) in
      rows (w_mem (eg_world s) (tn_root (kv_k kv ! l))) (row_words (lg_hp (eg_graph s))) (nat (kv_head kv)))"

definition v_rows :: "engine \<Rightarrow> nat \<Rightarrow> u32 list list" where
  "v_rows s l =
     (let kv = lg_kv (eg_graph s) in
      rows (w_mem (eg_world s) (tn_root (kv_v kv ! l))) (row_words (lg_hp (eg_graph s))) (nat (kv_head kv)))"

definition engine_ok :: "resource multiset \<Rightarrow> engine \<Rightarrow> bool" where
  "engine_ok L s \<longleftrightarrow>
     (\<exists>M. eng_inv (eg_graph s) M \<and> holds (L + dec_resources (eg_graph s)) M (eg_world s))"

definition used :: "engine \<Rightarrow> int" where
  "used s = kv_head (lg_kv (eg_graph s))"

definition capacity :: "engine \<Rightarrow> int" where
  "capacity s = kv_n_ctx (lg_kv (eg_graph s))"

lemma engine_ok_head: "engine_ok L s \<Longrightarrow> 0 \<le> used s \<and> used s \<le> capacity s \<and> 1 \<le> capacity s"
  by (auto simp: engine_ok_def eng_inv_def Let_def kv_shaped_def used_def capacity_def)

section \<open>What a prefill leaves in the cache\<close>

lemma copy_layout_fst:
  "map fst (copy_layout kv offs len i) = concat (map (\<lambda>l. [tn_root (kv_k kv ! l), tn_root (kv_v kv ! l)]) [0..<i])"
  by (induction i) (simp_all add: copy_layout_def)

lemma distinct_layer_roots:
  assumes "kv_shaped hp hdim kv" "i \<le> nat (hp_layer hp)"
  shows "distinct (concat (map (\<lambda>l. [tn_root (kv_k kv ! l), tn_root (kv_v kv ! l)]) [0..<i]))"
  using assms(2)
proof (induction i)
  case (Suc i)
  note apart = kv_roots_apart[OF assms(1)]
  have "tn_root (kv_k kv ! i) \<noteq> tn_root (kv_k kv ! l)" "tn_root (kv_k kv ! i) \<noteq> tn_root (kv_v kv ! l)"
    "tn_root (kv_v kv ! i) \<noteq> tn_root (kv_k kv ! l)" "tn_root (kv_v kv ! i) \<noteq> tn_root (kv_v kv ! l)" if "l < i" for l
    using apart[of i l] apart[of l i] that Suc.prems by auto
  then show ?case using Suc apart(1)[of i i] by auto
qed simp

lemma new_rows_entry:
  assumes "c \<in> set (new_rows hp kv n)"
  shows "fst (snd c) = kv_head kv * (hp_head_kv hp * hdim_of hp * 4) \<and>
    snd (snd c) = hp_head_kv hp * hdim_of hp * int n"
  using assms by (auto simp: new_rows_def copy_layout_def)

lemma new_rows_roots:
  assumes "l < nat (hp_layer hp)"
  shows "tn_root (kv_k kv ! l) \<in> fst ` set (new_rows hp kv n)" "tn_root (kv_v kv ! l) \<in> fst ` set (new_rows hp kv n)"
  using assms by (force simp: new_rows_def copy_layout_def)+

lemma fst_copy_write: "fst (copy_write val c) = fst (copy_key c)"
  by (simp add: copy_write_def copy_key_def)

definition row_update :: "bool \<Rightarrow> nat \<Rightarrow> nat \<Rightarrow> u32 list \<Rightarrow> u32 list \<Rightarrow> bool" where
  "row_update full off len xs xs' \<longleftrightarrow> \<not> full \<and> xs' = xs \<or> (\<exists>ys. length ys = len \<and> xs' = overwrite xs off ys)"

lemma copy_write_entry:
  assumes kv: "kv_shaped hp (hdim_of hp) kv" and row: "0 \<le> hp_head_kv hp * hdim_of hp"
    and cs: "map copy_key cs = new_rows hp kv n" and w: "w \<in> set (map (copy_write val) (take k cs))"
  shows "\<exists>ys. w = (fst w, nat (kv_head kv) * row_words hp, ys) \<and> length ys = row_words hp * n"
proof -
  have h: "0 \<le> kv_head kv" using kv by (simp add: kv_shaped_def)
  have "w \<in> copy_write val ` set (take k cs)" using w by (simp only: list.set_map)
  then obtain c where "c \<in> set (take k cs)" "w = copy_write val c" by blast
  then have c: "c \<in> set cs" "w = copy_write val c" by (auto dest: in_set_takeD)
  then have "copy_key c \<in> set (new_rows hp kv n)" by (metis cs image_eqI list.set_map)
  from new_rows_entry[OF this] show ?thesis
    using c h row by (simp add: copy_key_def copy_write_def row_words_def nat_mult_distrib)
qed

lemma prefilled_contents:
  assumes kv: "kv_shaped hp (hdim_of hp) kv" and row: "0 \<le> hp_head_kv hp * hdim_of hp"
    and p: "prefilled hp kv n full M M'"
  shows "r \<notin> kv_roots kv \<Longrightarrow> M' r = M r"
    and "M r = Some xs \<Longrightarrow> \<exists>xs'. M' r = Some xs' \<and> row_update False (nat (kv_head kv) * row_words hp) (row_words hp * n) xs xs'"
    and "full \<Longrightarrow> M r = Some xs \<Longrightarrow> r \<in> fst ` set (new_rows hp kv n) \<Longrightarrow>
      \<exists>xs'. M' r = Some xs' \<and> row_update True (nat (kv_head kv) * row_words hp) (row_words hp * n) xs xs'"
proof -
  have h: "0 \<le> kv_head kv" using kv by (simp add: kv_shaped_def)
  consider (same) "\<not> full" "M' = M"
    | (copied) val cs k where "map copy_key cs = new_rows hp kv n" "M' = writes (map (copy_write val) (take k cs)) M"
        "full \<longrightarrow> k = length cs"
    using p unfolding prefilled_def copied_writes by blast
  then have "(r \<notin> kv_roots kv \<longrightarrow> M' r = M r) \<and>
    (\<forall>xs. M r = Some xs \<longrightarrow> (\<exists>xs'. M' r = Some xs' \<and>
       row_update (full \<and> r \<in> fst ` set (new_rows hp kv n)) (nat (kv_head kv) * row_words hp) (row_words hp * n) xs xs'))"
  proof cases
    case same
    then show ?thesis by (auto simp: row_update_def)
  next
    case copied
    let ?ws = "map (copy_write val) (take k cs)"
    have fsts: "map fst ?ws = take k (map fst (new_rows hp kv n))"
      by (simp add: fst_copy_write comp_def take_map copied(1)[symmetric])
    have dist: "distinct (map fst ?ws)"
      unfolding fsts using distinct_layer_roots[OF kv order_refl]
      by (intro distinct_take) (simp only: new_rows_def copy_layout_fst)
    have roots: "fst ` set ?ws \<subseteq> kv_roots kv"
      using copy_layout_roots[OF kv copied(1)[unfolded new_rows_def]]
      by (auto simp: copy_write_def dest: in_set_takeD)
    note entry = copy_write_entry[OF kv row copied(1)]
    show ?thesis
    proof (cases "r \<in> fst ` set ?ws")
      case True
      then obtain ys where ys: "(r, nat (kv_head kv) * row_words hp, ys) \<in> set ?ws" "length ys = row_words hp * n"
        using entry by force
      have "M' r = Some (overwrite (the (M r)) (nat (kv_head kv) * row_words hp) ys)"
        unfolding copied(2) by (rule writes_hit[OF dist ys(1)])
      moreover have "r \<in> kv_roots kv" using True roots by blast
      ultimately show ?thesis using ys(2) by (auto simp: row_update_def)
    next
      case False
      then have "M' r = M r" by (simp only: copied(2) writes_other not_False_eq_True)
      moreover have "\<not> (full \<and> r \<in> fst ` set (new_rows hp kv n))"
        using False copied(3) by (auto simp: copied(1)[symmetric] fst_copy_write image_image)
      ultimately show ?thesis by (auto simp: row_update_def)
    qed
  qed
  then show "r \<notin> kv_roots kv \<Longrightarrow> M' r = M r"
    and "M r = Some xs \<Longrightarrow> \<exists>xs'. M' r = Some xs' \<and> row_update False (nat (kv_head kv) * row_words hp) (row_words hp * n) xs xs'"
    and "full \<Longrightarrow> M r = Some xs \<Longrightarrow> r \<in> fst ` set (new_rows hp kv n) \<Longrightarrow>
      \<exists>xs'. M' r = Some xs' \<and> row_update True (nat (kv_head kv) * row_words hp) (row_words hp * n) xs xs'"
    unfolding row_update_def by blast+
qed

end
