(* ===== verification/Graph_Total.thy ===== *)
theory Graph_Total imports Graph_Engine begin

text \<open>
  Shape safety of the two execution paths: over a well-shaped model no check of the
  library fails, and when no allocation fails either the call returns.
\<close>

section \<open>Prefill\<close>

lemma length_positions:
  assumes "int n < 2 ^ 31"
  shows "length (positions 0 n) = n"
proof -
  have "sint (of_nat n :: i32) = int n"
    using assms by (simp add: signed_of_nat signed_take_bit_int_eq_self)
  then show ?thesis by (simp add: positions_def)
qed

lemma forward_inputs_yields:
  assumes "int (length tokens) < 2 ^ 31" "\<And>e. \<not> never_fails env \<Longrightarrow> E e"
  shows "yields pan (forward_inputs env tokens 0)
    (\<lambda>(ib, ic, t, p). plain t 26 (D4 (int (length tokens)) 1 1 1) \<and> plain p 26 (D4 (int (length tokens)) 1 1 1)) E"
proof -
  let ?n = "int (length tokens)"
  have sz: "nbytes t = 4 * ?n" if "plain t 26 (D4 ?n 1 1 1)" for t
    using plain_nbytes[OF that] by simp
  show ?thesis
    unfolding forward_inputs_def Let_def
    apply (rule yields_bnd[OF yields_alloc_buffer])
    subgoal for ib
      apply (cases ib)
       apply (use assms(2) in \<open>simp add: yields_fail del: sm_simps\<close>)
      subgoal for b
        apply (simp del: sm_simps)
        apply (rule yields_bnd[OF yields_init])
        subgoal for ic
          apply (cases ic)
           apply (simp del: sm_simps)
           apply (rule yields_bnd[OF yields_frees(2)], rule yields_fail, simp add: assms(2))
          apply (simp del: sm_simps)
          apply (rule yields_bnd[OF yields_new_tensor])
          apply (rule yields_bnd[OF yields_tensor_alloc], simp, simp add: sz)
          apply (rule yields_bnd[OF yields_tensor_set], simp add: sz)
          apply (rule yields_bnd[OF yields_new_tensor])
          apply (rule yields_bnd[OF yields_tensor_alloc], simp)
           apply (simp add: sz)
          apply (rule yields_bnd)
           apply (rule yields_assert)
            apply (rule length_positions[OF assms(1)])
           apply (rule yields_tensor_set)
           apply (simp add: sz)
          apply (rule yields_ret, simp)
          done
        done
      done
    done
qed

lemma yields_release_all: "yields pan (release_all cx ic ib) (\<lambda>_. True) E"
  unfolding release_all_def by (rule yields_bnd[OF yields_frees(1)], rule yields_bnd[OF yields_frees(1)], rule yields_frees(2))

lemma forward_build_yields:
  assumes m: "model_shaped md hp hdim n_out" and kv: "kv_shaped hp hdim kv" and hd: "hdim = hdim_of hp"
    and n: "1 \<le> length tokens" "int (length tokens) < 2 ^ 31"
    and E: "\<And>e. \<not> (never_fails env \<and> kv_head kv + int (length tokens) \<le> kv_n_ctx kv) \<Longrightarrow> E e"
  shows "yields pan (forward_build env md hp kv tokens 0) (\<lambda>(ib, ic, cx, cs, lg). plain lg 0 (D4 n_out 1 1 1)) E"
proof -
  have w: "shaped (model_tensor md ''token_embd.weight'') (hp_embd hp) n_out" and h: "hp_head hp \<noteq> 0"
    using m by (auto simp: model_shaped_def dims_ok_def)
  show ?thesis
    unfolding forward_build_def Let_def
    apply (rule yields_bnd[OF forward_inputs_yields[OF n(2) E]], simp)
    subgoal for x
      apply (cases x)
      apply (simp only: prod.case)
      apply (elim conjE)
      apply (rule yields_bnd[OF yields_init])
      subgoal for ib ic t p cx
        apply (cases cx)
         apply (simp only: option.case)
         apply (rule yields_bnd[OF yields_frees(1)], rule yields_bnd[OF yields_frees(2)], rule yields_fail, simp add: E)
        apply (simp only: option.case)
        apply (rule yields_bnd[OF yields_top_weight[OF w]])
        apply (rule yields_bnd[OF yields_get_rows], assumption, assumption)
        apply (rule yields_bnd[OF yields_head_dim[OF disjI2[OF h]]])
        apply (simp only: hd[symmetric])
        apply (simp only: split: if_split)
        apply (intro conjI impI)
         apply (rule yields_bnd[OF yields_release_all], rule yields_fail, simp add: E)
        apply (rule yields_bnd_pair[OF forward_layers_shapes[OF m kv]])
            apply (use n(1) in simp)
           apply (simp add: not_less)
          apply assumption
         apply assumption
        apply (elim conjE)
        apply (rule yields_bnd[OF forward_logits_shapes[OF m]], assumption)
        apply (rule yields_ret, simp)
        done
      done
    done
qed

lemma forward_compute_yields:
  assumes "\<And>e. \<not> never_fails env \<Longrightarrow> E e"
  shows "yields pan (forward_compute env cx ic ib cs) (\<lambda>_. True) E"
  unfolding forward_compute_def
  apply (rule yields_bnd[OF yields_gallocr])
  subgoal for ga
    apply (cases ga)
     apply (simp only: option.case)
     apply (rule yields_bnd[OF yields_release_all], rule yields_fail, simp add: assms)
    apply (simp only: option.case)
    apply (rule yields_bnd[OF yields_alloc_graph])
    apply (simp only: split: if_split)
    apply (intro conjI impI)
     apply (rule yields_bnd[OF yields_frees(3)], rule yields_bnd[OF yields_release_all], rule yields_fail, simp add: assms)
    apply (rule yields_bnd[OF yields_compute])
    apply (simp only: split: if_split)
    apply (intro conjI impI)
     apply (rule yields_bnd[OF yields_frees(3)], rule yields_bnd[OF yields_release_all], rule yields_fail, simp add: assms)
    apply (rule yields_ret, rule TrueI)
    done
  done

lemma spec_in_world_yields:
  assumes "yields pan m R E" "lg_dec lg = d"
    and "\<And>x. R x \<Longrightarrow> spec (at lg (\<lambda>_. True)) (f x) Q (\<lambda>e s. E e \<and> lg_dec (eg_graph s) = d) pan"
  shows "spec (at lg (\<lambda>_. True)) (bnd (in_world m) f) Q (\<lambda>e s. E e \<and> lg_dec (eg_graph s) = d) pan"
proof (rule spec_in_world_bnd)
  show "spec (\<lambda>_. True) m (\<lambda>x _. R x \<and> True) (\<lambda>e _. E e) pan"
    using assms(1) by (simp add: yields_def)
  show "at lg (\<lambda>_. E e) s \<Longrightarrow> E e \<and> lg_dec (eg_graph s) = d" for e s
    using assms(2) by (simp add: at_def)
  show "spec (at lg (\<lambda>_. R x \<and> True)) (f x) Q (\<lambda>e s. E e \<and> lg_dec (eg_graph s) = d) pan" for x
    by (rule spec_at_pure) (rule assms(3))
qed

lemma set_head_dec [simp]: "lg_dec (set_head h lg) = lg_dec lg"
  by (simp add: set_head_def)

lemma forward_yields:
  assumes m: "model_shaped md (lg_hp lg) (hdim_of (lg_hp lg)) n_out"
    and kv: "kv_shaped (lg_hp lg) (hdim_of (lg_hp lg)) (lg_kv lg)"
    and n: "1 \<le> length tokens" "int (length tokens) < 2 ^ 31"
    and E: "\<And>e. \<not> (never_fails env \<and> kv_head (lg_kv lg) + int (length tokens) \<le> kv_n_ctx (lg_kv lg)) \<Longrightarrow> E e"
  shows "spec (at lg (\<lambda>_. True)) (forward env md tokens 0)
    (\<lambda>_ s. lg_dec (eg_graph s) = lg_dec lg) (\<lambda>e s. E e \<and> lg_dec (eg_graph s) = lg_dec lg) False"
proof -
  have vocab: "hp_vocab (lg_hp lg) * 4 \<le> nbytes t" if "plain t 0 (D4 n_out 1 1 1)" for t
    using plain_nbytes[OF that] m by (simp add: model_shaped_def)
  show ?thesis
    unfolding forward_def forward_result_def Let_def
    apply (rule spec_get_graph)
    apply (rule spec_in_world_yields[OF forward_build_yields[OF m kv refl n E] refl], assumption)
    subgoal for x
      apply (cases x)
      apply (simp only: prod.case)
      apply (rule spec_in_world_yields[OF forward_compute_yields refl], simp add: E)
      apply (rule spec_set_graph)
      apply (rule spec_in_world_yields[OF yields_tensor_get set_head_dec], simp add: vocab)
      apply (rule spec_in_world_yields[OF yields_frees(3) set_head_dec])
      apply (rule spec_in_world_yields[OF yields_release_all set_head_dec])
      apply (rule spec_ret, simp add: at_def)
      done
    done
qed

section \<open>Decode\<close>

definition dg_shaped :: "hparams \<Rightarrow> int \<Rightarrow> decode_graph \<Rightarrow> bool" where
  "dg_shaped hp n_out dg \<longleftrightarrow>
     plain (dg_logits dg) 0 (D4 n_out 1 1 1) \<and>
     rows_out (hp_head_kv hp * hdim_of hp) (nat (hp_layer hp)) (dg_k_out dg) \<and>
     rows_out (hp_head_kv hp * hdim_of hp) (nat (hp_layer hp)) (dg_v_out dg)"

definition inputs_plain :: "kv_cache \<Rightarrow> decode_graph \<Rightarrow> bool" where
  "inputs_plain kv dg \<longleftrightarrow>
     plain (dg_token dg) 26 (D4 1 1 1 1) \<and> plain (dg_pos dg) 26 (D4 1 1 1 1) \<and>
     plain (dg_mask dg) 0 (D4 (kv_n_ctx kv) 1 1 1)"

lemma persist_yields:
  assumes "\<And>e. \<not> never_fails env \<Longrightarrow> E e"
  shows "yields pan (persist_decode_graph env ic cx ib tok pos msk lg ks vs)
    (\<lambda>dg. dg_token dg = tok \<and> dg_pos dg = pos \<and> dg_mask dg = msk \<and> dg_logits dg = lg \<and> dg_k_out dg = ks \<and> dg_v_out dg = vs) E"
  unfolding persist_decode_graph_def
  apply (rule yields_bnd[OF yields_gallocr])
  subgoal for ga
    apply (cases ga)
     apply (simp only: option.case)
     apply (rule yields_bnd[OF yields_frees(1)], rule yields_bnd[OF yields_frees(1)],
       rule yields_bnd[OF yields_frees(2)], rule yields_fail, simp add: assms)
    apply (simp only: option.case)
    apply (rule yields_bnd[OF yields_alloc_graph])
    apply (simp only: split: if_split)
    apply (intro conjI impI)
     apply (rule yields_bnd[OF yields_frees(3)], rule yields_bnd[OF yields_frees(1)], rule yields_bnd[OF yields_frees(1)],
       rule yields_bnd[OF yields_frees(2)], rule yields_fail, simp add: assms)
    apply (rule yields_ret, simp)
    done
  done

lemma build_decode_yields:
  assumes m: "model_shaped md hp (hdim_of hp) n_out" and kv: "kv_shaped hp (hdim_of hp) kv"
    and E: "\<And>e. \<not> never_fails env \<Longrightarrow> E e"
  shows "yields pan (build_decode_graph env md hp kv) (\<lambda>dg. dg_shaped hp n_out dg \<and> inputs_plain kv dg) E"
proof -
  have h: "hp_head hp \<noteq> 0" using m by (auto simp: model_shaped_def dims_ok_def)
  have one: "nbytes t = 4" if "plain t 26 (D4 1 1 1 1)" for t using plain_nbytes[OF that] by simp
  have msk: "nbytes t = 4 * kv_n_ctx kv" if "plain t 0 (D4 (kv_n_ctx kv) 1 1 1)" for t
    using plain_nbytes[OF that] by simp
  have n: "1 \<le> kv_n_ctx kv" using kv by (simp add: kv_shaped_def)
  show ?thesis
    unfolding build_decode_graph_def Let_def
    apply (rule yields_bnd[OF yields_head_dim[OF disjI2[OF h]]])
    apply (rule yields_bnd[OF yields_alloc_buffer])
    subgoal for hdim ib
      apply (cases ib)
       apply (simp only: option.case, rule yields_fail, simp add: E)
      apply (simp only: option.case)
      apply (rule yields_bnd[OF yields_init])
      subgoal for b ic
        apply (cases ic)
         apply (simp only: option.case, rule yields_bnd[OF yields_frees(2)], rule yields_fail, simp add: E)
        apply (simp only: option.case)
        apply (rule yields_bnd[OF yields_new_tensor])
        apply (rule yields_bnd[OF yields_tensor_alloc], simp, use n in \<open>simp add: one\<close>)
        apply (rule yields_bnd[OF yields_new_tensor])
        apply (rule yields_bnd[OF yields_tensor_alloc], simp, use n in \<open>simp add: one\<close>)
        apply (rule yields_bnd[OF yields_new_tensor])
        apply (rule yields_bnd[OF yields_tensor_alloc], simp, use n in \<open>simp add: msk\<close>)
        apply (rule yields_bnd[OF yields_tensor_set], simp add: msk)
        apply (rule yields_bnd[OF yields_init])
        subgoal for ic tok u1 pos u2 mk u3 u4 cx
          apply (cases cx)
           apply (simp only: option.case)
           apply (rule yields_bnd[OF yields_frees(1)], rule yields_bnd[OF yields_frees(2)], rule yields_fail, simp add: E)
          apply (simp only: option.case)
          apply (rule yields_bnd_triple[OF decode_nodes_shapes[OF m kv]], assumption, assumption, assumption)
          apply (elim conjE)
          apply (rule yields_weaken[OF persist_yields[where E = E]]; simp add: E dg_shaped_def inputs_plain_def)
          done
        done
      done
    done
qed

lemma store_rows_yields:
  assumes kv: "kv_shaped hp (hdim_of hp) kv" and dg: "dg_shaped hp n_out dg" and full: "kv_head kv < kv_n_ctx kv"
    and row: "0 \<le> hp_head_kv hp * hdim_of hp"
  shows "yields pan (loop (store_row kv dg (hp_head_kv hp * hdim_of hp * 4)) () [0..<nat (hp_layer hp)]) (\<lambda>_. True) E"
proof (rule yields_loop_upt[where I = "\<lambda>_ _. True"])
  fix i and u :: unit assume i: "i < nat (hp_layer hp)"
  let ?r = "hp_head_kv hp * hdim_of hp"
  have t: "plain (kv_k kv ! i) 0 (D4 ?r (kv_n_ctx kv) 1 1)" "plain (kv_v kv ! i) 0 (D4 ?r (kv_n_ctx kv) 1 1)"
    using kv i by (auto simp: kv_shaped_def)
  have o: "plain (dg_k_out dg ! i) 0 (D4 ?r 1 1 1)" "plain (dg_v_out dg ! i) 0 (D4 ?r 1 1 1)"
    using dg i by (auto simp: dg_shaped_def rows_out_def)
  have "?r * (kv_head kv + 1) \<le> ?r * kv_n_ctx kv" using full row by (intro mult_left_mono) auto
  then have "kv_head kv * (?r * 4) + ?r * 4 \<le> nbytes (kv_k kv ! i)" "kv_head kv * (?r * 4) + ?r * 4 \<le> nbytes (kv_v kv ! i)"
    "?r * 4 \<le> nbytes (dg_k_out dg ! i)" "?r * 4 \<le> nbytes (dg_v_out dg ! i)"
    using plain_nbytes[OF t(1)] plain_nbytes[OF t(2)] plain_nbytes[OF o(1)] plain_nbytes[OF o(2)]
    by (simp_all add: algebra_simps)
  then show "yields pan (store_row kv dg (?r * 4) u i) (\<lambda>_. True) E"
    unfolding store_row_def
    by (intro yields_bnd[OF yields_tensor_get] yields_bnd[OF yields_tensor_set] yields_tensor_set)
qed simp_all

lemma decode_run_yields:
  assumes m: "hp_head (lg_hp lg) \<noteq> 0" "hp_vocab (lg_hp lg) \<le> n_out" and kv: "kv_shaped (lg_hp lg) (hdim_of (lg_hp lg)) (lg_kv lg)"
    and dg: "dg_shaped (lg_hp lg) n_out dg" "inputs_plain (lg_kv lg) dg" and row: "0 \<le> hp_head_kv (lg_hp lg) * hdim_of (lg_hp lg)"
    and E: "\<And>e. \<not> (never_fails env \<and> kv_head (lg_kv lg) < kv_n_ctx (lg_kv lg)) \<Longrightarrow> E e"
  shows "spec (at lg (\<lambda>_. True)) (decode_run env dg token) (\<lambda>_ s. lg_dec (eg_graph s) = lg_dec lg)
    (\<lambda>e s. E e \<and> lg_dec (eg_graph s) = lg_dec lg) False"
proof -
  have i: "plain (dg_token dg) 26 (D4 1 1 1 1)" "plain (dg_pos dg) 26 (D4 1 1 1 1)"
    "plain (dg_mask dg) 0 (D4 (kv_n_ctx (lg_kv lg)) 1 1 1)"
    using dg(2) by (simp_all add: inputs_plain_def)
  have sz: "nbytes (dg_token dg) = 4" "nbytes (dg_pos dg) = 4" "nbytes (dg_mask dg) = 4 * kv_n_ctx (lg_kv lg)"
    "nbytes (dg_logits dg) = 4 * n_out"
    using plain_nbytes[OF i(1)] plain_nbytes[OF i(2)] plain_nbytes[OF i(3)] dg(1) plain_nbytes[of "dg_logits dg" 0 n_out 1 1 1]
    by (simp_all add: dg_shaped_def)
  have inputs: "yields pan (decode_inputs dg token (kv_n_ctx (lg_kv lg)) h) (\<lambda>_. True) E" for h pan
    unfolding decode_inputs_def
    by (intro yields_bnd[OF yields_tensor_set] yields_tensor_set) (simp_all add: sz)
  show ?thesis
    unfolding decode_run_def Let_def
    apply (rule spec_get_graph)
    apply (rule spec_in_world_yields[OF yields_head_dim[OF disjI2[OF m(1)]] refl])
    apply (simp only: split: if_split)
    apply (intro conjI impI)
     apply (rule spec_fail, simp add: E at_def)
    apply (rule spec_in_world_yields[OF inputs refl])
    apply (rule spec_in_world_yields[OF yields_compute refl])
    apply (simp only: split: if_split)
    apply (intro conjI impI)
     apply (rule spec_fail, simp add: E at_def)
    apply (rule spec_in_world_yields[OF store_rows_yields[OF kv dg(1) _ row] refl], simp)
    apply (rule spec_set_graph)
    apply (rule spec_conseq[OF spec_in_world[OF yields_tensor_get[unfolded yields_def, where E = E]]])
        apply (auto simp: sz m(2) at_def)
    done
qed

definition graph_shaped :: "hparams \<Rightarrow> int \<Rightarrow> llama_graph \<Rightarrow> bool" where
  "graph_shaped hp n_out lg \<longleftrightarrow> (\<forall>dg. lg_dec lg = Some dg \<longrightarrow> dg_shaped hp n_out dg)"

lemma execute_decode_yields:
  assumes m: "model_shaped md (lg_hp lg) (hdim_of (lg_hp lg)) n_out" and inv: "eng_inv lg M"
    and sh: "graph_shaped (lg_hp lg) n_out lg"
    and E: "\<And>e. \<not> (never_fails env \<and> kv_head (lg_kv lg) < kv_n_ctx (lg_kv lg)) \<Longrightarrow> E e"
  shows "spec (at lg (\<lambda>_. True)) (execute_decode env md token)
    (\<lambda>_ s. graph_shaped (lg_hp lg) n_out (eg_graph s))
    (\<lambda>e s. E e \<and> graph_shaped (lg_hp lg) n_out (eg_graph s)) False"
proof -
  have kv: "kv_shaped (lg_hp lg) (hdim_of (lg_hp lg)) (lg_kv lg)" and row: "0 \<le> hp_head_kv (lg_hp lg) * hdim_of (lg_hp lg)"
    using inv by (simp_all add: eng_inv_def Let_def)
  have h: "hp_head (lg_hp lg) \<noteq> 0" "hp_vocab (lg_hp lg) \<le> n_out"
    using m by (auto simp: model_shaped_def dims_ok_def)
  have run: "spec (at (with_dec dg lg) (\<lambda>_. True)) (decode_run env dg token)
      (\<lambda>_ s. graph_shaped (lg_hp lg) n_out (eg_graph s)) (\<lambda>e s. E e \<and> graph_shaped (lg_hp lg) n_out (eg_graph s)) False"
    if "dg_shaped (lg_hp lg) n_out dg" "inputs_plain (lg_kv lg) dg" for dg
    by (rule spec_conseq[OF decode_run_yields[of "with_dec dg lg" n_out dg env E, simplified]])
      (use h kv row that E in \<open>auto simp: graph_shaped_def\<close>)
  show ?thesis
    unfolding execute_decode_def ensure_decode_graph_def bnd_assoc
  proof (rule spec_get_graph, cases "lg_dec lg")
    case None
    then show "spec (at lg (\<lambda>_. True))
        (bnd (case lg_dec lg of None \<Rightarrow> bnd (in_world (build_decode_graph env md (lg_hp lg) (lg_kv lg)))
           (\<lambda>dg. bnd (set_graph (lg\<lparr>lg_dec := Some dg\<rparr>)) (\<lambda>_. ret dg)) | Some dg \<Rightarrow> ret dg) (\<lambda>dg. decode_run env dg token))
        (\<lambda>_ s. graph_shaped (lg_hp lg) n_out (eg_graph s)) (\<lambda>e s. E e \<and> graph_shaped (lg_hp lg) n_out (eg_graph s)) False"
      unfolding None option.case bnd_assoc bnd_ret
    proof (intro spec_in_world_bnd[OF build_decode_yields[OF m kv, unfolded yields_def, where E = E]], goal_cases)
      case (1 e)
      then show ?case using E by blast
    next
      case (2 e s)
      then show ?case using None by (simp add: at_def graph_shaped_def)
    next
      case (3 dg)
      show ?case
        by (rule spec_conseq[where P' = "\<lambda>s. (dg_shaped (lg_hp lg) n_out dg \<and> inputs_plain (lg_kv lg) dg) \<and> at lg (\<lambda>_. True) s"], rule spec_pure,
            rule spec_set_graph, fold with_dec_def, rule run) (auto simp: at_def)
    qed
  next
    case (Some dg)
    have "dg_shaped (lg_hp lg) n_out dg" "inputs_plain (lg_kv lg) dg" "with_dec dg lg = lg"
      using Some sh inv by (simp_all add: graph_shaped_def eng_inv_def Let_def dg_ok_def inputs_plain_def with_dec_def)
    with run[of dg] show "spec (at lg (\<lambda>_. True))
        (bnd (case lg_dec lg of None \<Rightarrow> bnd (in_world (build_decode_graph env md (lg_hp lg) (lg_kv lg)))
           (\<lambda>dg. bnd (set_graph (lg\<lparr>lg_dec := Some dg\<rparr>)) (\<lambda>_. ret dg)) | Some dg \<Rightarrow> ret dg) (\<lambda>dg. decode_run env dg token))
        (\<lambda>_ s. graph_shaped (lg_hp lg) n_out (eg_graph s)) (\<lambda>e s. E e \<and> graph_shaped (lg_hp lg) n_out (eg_graph s)) False"
      by (simp add: Some bnd_ret del: sm_simps)
  qed
qed

end
