(* ===== verification/Graph_New.thy ===== *)
theory Graph_New imports Graph_Engine begin

text \<open>Construction of the cache and of the engine, and their release.\<close>

definition placed :: "int \<Rightarrow> int \<Rightarrow> (nat \<rightharpoonup> u32 list) \<Rightarrow> (nat \<rightharpoonup> u32 list) \<Rightarrow> tensor list \<Rightarrow> bool" where
  "placed row n M M' ts \<longleftrightarrow>
     M \<subseteq>\<^sub>m M' \<and> distinct (map tn_root ts) \<and>
     (\<forall>t\<in>set ts. plain t 0 (D4 row n 1 1) \<and> M (tn_root t) = None \<and>
        (\<exists>xs. M' (tn_root t) = Some xs \<and> length xs = nat (row * n)))"

lemma placed_upd:
  assumes "placed row n M M' ts" "M' (tn_root t) = Some xs" "length ys = length xs" "t \<in> set ts"
  shows "placed row n M (M'(tn_root t \<mapsto> ys)) ts"
  using assms unfolding placed_def map_le_def by (auto simp: domIff)

lemma placed_new:
  assumes "placed row n M M' ts" "plain t 0 (D4 row n 1 1)" "M' (tn_root t) = None" "length xs = nat (row * n)"
  shows "placed row n M (M'(tn_root t \<mapsto> xs)) (t # ts)"
proof -
  have "M (tn_root t) = None"
    using assms(1,3) unfolding placed_def map_le_def by (metis domIff)
  moreover have "tn_root t \<notin> tn_root ` set ts" using assms(1,3) unfolding placed_def by force
  ultimately show ?thesis
    using assms unfolding placed_def map_le_def by (auto simp: domIff)
qed

lemma placed_set: "placed row n M M' ts \<Longrightarrow> mset us = mset ts \<Longrightarrow> placed row n M M' us"
  unfolding placed_def by (metis mset_eq_setD mset_map mset_eq_imp_distinct_iff)

lemma kv_layer_frame:
  assumes "placed row n M M' (ks @ vs)"
  shows "spec (holds L M') (kv_layer buf bytes_per layers row n (ks, vs) i)
    (\<lambda>(ks', vs') w. (\<exists>kt vt. ks' = ks @ [kt] \<and> vs' = vs @ [vt]) \<and>
       (\<exists>M''. placed row n M M'' (ks' @ vs') \<and> holds L M'' w)) E True"
proof -
  have words: "nat (nbytes t) div 4 = nat (row * n)" if "plain t 0 (D4 row n 1 1)" for t
    using plain_nbytes[OF that] by (cases "0 \<le> row * n") (simp_all add: nat_mult_distrib)
  show ?thesis
    unfolding kv_layer_def
    apply (rule spec_place, rule disjI1, rule TrueI)
    apply (rule spec_place, rule disjI1, rule TrueI)
    apply (rule spec_ret)
    subgoal premises p for kt vt s
    proof -
      have "placed row n M (M'(tn_root kt \<mapsto> replicate (nat (nbytes kt) div 4) 0)) (kt # ks @ vs)"
        by (rule placed_new[OF assms]) (use p words in auto)
      then have "placed row n M (M'(tn_root kt \<mapsto> replicate (nat (nbytes kt) div 4) 0,
          tn_root vt \<mapsto> replicate (nat (nbytes vt) div 4) 0)) (vt # kt # ks @ vs)"
        by (rule placed_new) (use p words in auto)
      then have "placed row n M (M'(tn_root kt \<mapsto> replicate (nat (nbytes kt) div 4) 0,
          tn_root vt \<mapsto> replicate (nat (nbytes vt) div 4) 0)) ((ks @ [kt]) @ vs @ [vt])"
        by (rule placed_set) simp
      then show ?thesis using p by auto
    qed
    done
qed

lemma kv_zero_frame:
  assumes "placed row n M M' ts" "k \<in> set ts" "v \<in> set ts"
  shows "spec (holds L M') (kv_zero bytes_per z u (k, v)) (\<lambda>_ w. \<exists>M''. placed row n M M'' ts \<and> holds L M'' w) E True"
proof -
  obtain a where a: "M' (tn_root k) = Some a" using assms unfolding placed_def by blast
  obtain b where b: "M' (tn_root v) = Some b" using assms unfolding placed_def by blast
  have b': "\<exists>c. (M'(tn_root k \<mapsto> x)) (tn_root v) = Some c" for x
    using b by simp
  have off: "tn_offs k = 0" "tn_offs v = 0" using assms unfolding placed_def plain_def by auto
  show ?thesis
    unfolding kv_zero_def fst_conv snd_conv
    apply (rule spec_tensor_set, rule disjI1, rule TrueI, rule a)
    apply (rule exE[OF b'])
    apply (rule spec_alone)
    apply (rule spec_tensor_set, rule disjI1, rule TrueI, assumption)
    apply (rule spec_ret)
    subgoal premises p for c s
    proof -
      let ?ys = "overwrite a (nat (tn_offs k + 0) div 4) (take (nat bytes_per div 4) (replicate z 0))"
      let ?zs = "overwrite c (nat (tn_offs v + 0) div 4) (take (nat bytes_per div 4) (replicate z 0))"
      have one: "placed row n M (M'(tn_root k \<mapsto> ?ys)) ts"
        by (rule placed_upd[OF assms(1) a _ assms(2)]) (simp add: off)
      have "placed row n M (M'(tn_root k \<mapsto> ?ys, tn_root v \<mapsto> ?zs)) ts"
        by (rule placed_upd[OF one p(2) _ assms(3)]) (simp add: off)
      with p(4) show ?thesis by blast
    qed
    done
qed

lemma kv_fill_frame:
  "spec (holds L M)
     (bnd (loop (kv_layer buf bp layers row n) ([], []) [0..<layers]) (\<lambda>(k, v).
      bnd (loop (kv_zero bp z) () (zip k v)) (\<lambda>_.
      ret \<lparr>kv_ctx = cx, kv_buf = buf, kv_k = k, kv_v = v, kv_n_ctx = n, kv_head = 0\<rparr>)))
     (\<lambda>kv w. length (kv_k kv) = layers \<and> length (kv_v kv) = layers \<and> kv_n_ctx kv = n \<and> kv_head kv = 0 \<and>
        kv_ctx kv = cx \<and> kv_buf kv = buf \<and>
        (\<exists>M'. placed row n M M' (kv_k kv @ kv_v kv) \<and> holds L M' w)) E True"
proof -
  define I where "I = (\<lambda>i (kvs :: tensor list \<times> tensor list) w. length (fst kvs) = i \<and> length (snd kvs) = i \<and>
    (\<exists>M'. placed row n M M' (fst kvs @ snd kvs) \<and> holds L M' w))"
  have layers: "spec (holds L M) (loop (kv_layer buf bp layers row n) ([], []) [0..<layers]) (I layers) E True"
  proof (rule spec_conseq[OF spec_loop_upt[where I = I and E = E]])
    fix i and kvs :: "tensor list \<times> tensor list"
    obtain ks vs where kvs: "kvs = (ks, vs)" by fastforce
    show "spec (I i kvs) (kv_layer buf bp layers row n kvs i) (I (Suc i)) E True"
      unfolding spec_def
    proof (intro allI impI)
      fix s assume "I i kvs s"
      then obtain M' where m: "length ks = i" "length vs = i" "placed row n M M' (ks @ vs)" "holds L M' s"
        by (auto simp: I_def kvs)
      have "ends_in (\<lambda>(ks', vs') w. (\<exists>kt vt. ks' = ks @ [kt] \<and> vs' = vs @ [vt]) \<and>
          (\<exists>M''. placed row n M M'' (ks' @ vs') \<and> holds L M'' w)) E True (kv_layer buf bp layers row n kvs i s)"
        using kv_layer_frame[OF m(3), of L buf bp layers i E] m(4) by (simp add: spec_def kvs)
      then show "ends_in (I (Suc i)) E True (kv_layer buf bp layers row n kvs i s)"
        by (rule ends_in_mono) (use m in \<open>auto simp: I_def\<close>)
    qed
  qed (auto simp: I_def placed_def intro: exI[of _ M])
  have zeros: "spec (\<lambda>w. \<exists>M'. placed row n M M' (ks @ vs) \<and> holds L M' w) (loop (kv_zero bp z) () (zip ks vs))
      (\<lambda>_ w. \<exists>M'. placed row n M M' (ks @ vs) \<and> holds L M' w) E True" for ks vs
  proof (rule spec_loop)
    fix a and u :: unit assume a: "a \<in> set (zip ks vs)"
    obtain k v where kv0: "a = (k, v)" by fastforce
    have kv: "a = (k, v)" "k \<in> set (ks @ vs)" "v \<in> set (ks @ vs)"
      using set_zip_leftD[OF a[unfolded kv0]] set_zip_rightD[OF a[unfolded kv0]] kv0 by simp_all
    show "spec (\<lambda>w. \<exists>M'. placed row n M M' (ks @ vs) \<and> holds L M' w) (kv_zero bp z u a)
      (\<lambda>_ w. \<exists>M'. placed row n M M' (ks @ vs) \<and> holds L M' w) E True"
      using kv_zero_frame[OF _ kv(2,3)] unfolding spec_def kv(1) by blast
  qed
  show ?thesis
  proof (rule spec_bnd[OF layers])
    fix kvs :: "tensor list \<times> tensor list"
    obtain ks vs where kvs: "kvs = (ks, vs)" by fastforce
    have pre: "I layers kvs w \<Longrightarrow> (length ks = layers \<and> length vs = layers) \<and> (\<exists>M'. placed row n M M' (ks @ vs) \<and> holds L M' w)" for w
      by (auto simp: I_def kvs)
    have "spec (\<lambda>w. (length ks = layers \<and> length vs = layers) \<and> (\<exists>M'. placed row n M M' (ks @ vs) \<and> holds L M' w))
       (bnd (loop (kv_zero bp z) () (zip ks vs)) (\<lambda>_.
        ret \<lparr>kv_ctx = cx, kv_buf = buf, kv_k = ks, kv_v = vs, kv_n_ctx = n, kv_head = 0\<rparr>))
       (\<lambda>kv w. length (kv_k kv) = layers \<and> length (kv_v kv) = layers \<and> kv_n_ctx kv = n \<and> kv_head kv = 0 \<and>
        kv_ctx kv = cx \<and> kv_buf kv = buf \<and> (\<exists>M'. placed row n M M' (kv_k kv @ kv_v kv) \<and> holds L M' w)) E True"
      by (rule spec_pure, rule spec_bnd[OF zeros], rule spec_ret) auto
    then show "spec (I layers kvs) (case kvs of (k, v) \<Rightarrow> bnd (loop (kv_zero bp z) () (zip k v)) (\<lambda>_.
        ret \<lparr>kv_ctx = cx, kv_buf = buf, kv_k = k, kv_v = v, kv_n_ctx = n, kv_head = 0\<rparr>))
       (\<lambda>kv w. length (kv_k kv) = layers \<and> length (kv_v kv) = layers \<and> kv_n_ctx kv = n \<and> kv_head kv = 0 \<and>
        kv_ctx kv = cx \<and> kv_buf kv = buf \<and> (\<exists>M'. placed row n M M' (kv_k kv @ kv_v kv) \<and> holds L M' w)) E True"
      unfolding kvs prod.case by (rule spec_conseq) (use pre kvs in auto)
  qed
qed

definition kv_resources :: "kv_cache \<Rightarrow> resource multiset" where
  "kv_resources kv =
     add_mset (RBuffer (bf_id (kv_buf kv))) (case kv_ctx kv of None \<Rightarrow> {#} | Some c \<Rightarrow> {#RContext c#})"

lemma kv_new_frame:
  "spec (holds L M) (kv_new env layers n_head_kv hdim n)
    (\<lambda>kv w. (length (kv_k kv) = layers \<and> length (kv_v kv) = layers \<and> kv_n_ctx kv = n \<and> kv_head kv = 0) \<and>
       (\<exists>M'. placed (n_head_kv * hdim) n M M' (kv_k kv @ kv_v kv) \<and> holds (L + kv_resources kv) M' w)) E True"
  unfolding kv_new_def Let_def
  apply (rule spec_alloc_buffer)
   prefer 2 apply (simp only: option.case, rule spec_abort, rule TrueI)
  apply (simp only: option.case)
  apply (rule spec_init)
   apply (simp only: option.distinct simp_thms if_False)
   apply (rule spec_conseq[OF kv_fill_frame]; auto simp: kv_resources_def add_mset_commute)
  apply (simp only: split: if_split)
  apply (intro conjI impI)
   apply (rule spec_abort, rule TrueI)
  apply (rule spec_conseq[OF kv_fill_frame]; auto simp: kv_resources_def)
  done

definition base_resources :: "llama_graph \<Rightarrow> resource multiset" where
  "base_resources lg = add_mset (RBackend (lg_backend lg)) (kv_resources (lg_kv lg))"

lemma hparams_nonneg:
  "0 \<le> hp_vocab (hparams_from_model md)" "0 \<le> hp_embd (hparams_from_model md)" "0 \<le> hp_head (hparams_from_model md)"
  "0 \<le> hp_head_kv (hparams_from_model md)" "0 \<le> hp_layer (hparams_from_model md)"
  by (simp_all add: hparams_from_model_def get_u32_def Let_def)

lemma llama_graph_new_frame:
  "spec (holds L M) (llama_graph_new env md)
    (\<lambda>lg w. (lg_hp lg = hparams_from_model md \<and> lg_dec lg = None \<and> kv_head (lg_kv lg) = 0 \<and> kv_n_ctx (lg_kv lg) = 512) \<and>
       (\<exists>M'. eng_inv lg M' \<and> holds (L + base_resources lg) M' w))
    (\<lambda>e w. e = BackendInit \<and> holds L M w) True"
proof -
  let ?hp = "hparams_from_model md"
  have nonneg: "0 \<le> hp_head_kv ?hp * hdim_of ?hp"
    using hparams_nonneg[of md] by (simp add: hdim_of_def pos_imp_zdiv_nonneg_iff zdiv_int div_int_pos_iff)
  have inv: "eng_inv \<lparr>lg_hp = ?hp, lg_backend = b, lg_kv = kv, lg_dec = None\<rparr> M'"
    if "length (kv_k kv) = nat (hp_layer ?hp)" "length (kv_v kv) = nat (hp_layer ?hp)" "kv_n_ctx kv = 512" "kv_head kv = 0"
      "placed (hp_head_kv ?hp * hdim_of ?hp) 512 M0 M' (kv_k kv @ kv_v kv)" for b kv M' M0
    using that nonneg
    by (auto simp: eng_inv_def kv_shaped_def placed_def kv_roots_def kv_full_words_def row_words_def nat_mult_distrib)
  show ?thesis
    unfolding llama_graph_new_def Let_def
    apply (rule spec_acquire)
     prefer 2 apply (simp only: option.case, rule spec_fail, simp)
    apply (simp only: option.case)
    apply (rule spec_quiet_bnd[OF quiet_head_dim yields_head_dim[where E = "\<lambda>_. False"]]; simp del: sm_simps)
    apply (rule spec_bnd[OF kv_new_frame])
    apply (rule spec_ret)
    using inv by (fastforce simp: base_resources_def)
qed

lemma llama_graph_drop_frame:
  "spec (holds (L + base_resources lg + dec_resources lg) M) (llama_graph_drop lg) (\<lambda>_. holds L M) E pan"
proof -
  have k: "spec (holds (L + kv_resources (lg_kv lg)) M) (kv_drop (lg_kv lg)) (\<lambda>_. holds L M) E pan"
    unfolding kv_drop_def kv_resources_def
    by (cases "kv_ctx (lg_kv lg)"; simp only: option.case bnd_ret; (rule spec_frees, (simp add: in_diff_count three_def; fail))?; rule spec_alone; rule spec_frees, (simp add: in_diff_count three_def; fail), rule spec_ret)
      (simp_all add: add_mset_commute)
  have b: "spec (holds (L + base_resources lg) M) (bnd (release (RBackend (lg_backend lg))) (\<lambda>_. kv_drop (lg_kv lg))) (\<lambda>_. holds L M) E pan"
    unfolding base_resources_def by (rule spec_release) (simp_all add: k)
  show ?thesis
  proof (cases "lg_dec lg")
    case None
    then show ?thesis using b by (simp only: llama_graph_drop_def dec_resources_def option.case bnd_ret add_0_right)
  next
    case (Some dg)
    have e: "L + base_resources lg + dec_resources lg = add_mset (RGallocr (dg_galloc dg))
        ((L + base_resources lg) + three (dg_inp_buf dg) (dg_inp_ctx dg) (dg_ctx dg))"
      by (simp add: Some dec_resources_def dg_resources_def three_def add_mset_commute)
    show ?thesis
      unfolding llama_graph_drop_def Some option.case bnd_assoc e
      by (rule spec_frees(3), (simp add: in_diff_count three_def; fail), simp only: add_mset_remove_trivial, rule release_all_spec, rule b)
  qed
qed

end
