(* ===== verification/Graph_Properties.thy ===== *)
theory Graph_Properties imports Graph_Total Graph_New begin

text \<open>
  The properties of the inference graph: each public operation refines an operation on the
  abstract cache (a list of key rows and a list of value rows per layer), no check of the
  library fails over a well-shaped model, and every resource is released but for the ones
  that a missing tensor leaves behind.
\<close>

section \<open>Prefill\<close>

definition n_layers :: "engine \<Rightarrow> nat" where
  "n_layers s = nat (hp_layer (lg_hp (eg_graph s)))"

text \<open>What a step may not touch: the hyperparameters, the backend and the storage of the cache.\<close>

definition same_setup :: "llama_graph \<Rightarrow> llama_graph \<Rightarrow> bool" where
  "same_setup lg lg' \<longleftrightarrow> lg_hp lg' = lg_hp lg \<and> base_resources lg' = base_resources lg"

lemma same_setup_simps [simp]:
  "same_setup lg lg" "same_setup lg (set_head h lg')\<longleftrightarrow> same_setup lg lg'" "same_setup lg (with_dec dg lg') \<longleftrightarrow> same_setup lg lg'"
  by (simp_all add: same_setup_def base_resources_def kv_resources_def set_head_def with_dec_def)

lemma same_setup_head [simp]: "same_setup lg (lg\<lparr>lg_kv := (lg_kv lg)\<lparr>kv_head := h\<rparr>\<rparr>)"
  using same_setup_simps(2)[of lg h lg] by (simp add: set_head_def)

lemma same_setup_trans: "same_setup a b \<Longrightarrow> same_setup b c \<Longrightarrow> same_setup a c"
  by (simp add: same_setup_def)

definition same_history :: "engine \<Rightarrow> engine \<Rightarrow> bool" where
  "same_history s s' \<longleftrightarrow>
     used s' = used s \<and> capacity s' = capacity s \<and> n_layers s' = n_layers s \<and>
     (\<forall>l<n_layers s. k_rows s' l = k_rows s l \<and> v_rows s' l = v_rows s l)"

lemma eng_inv_head:
  assumes "eng_inv lg M"
  shows "0 \<le> kv_head (lg_kv lg)" "kv_head (lg_kv lg) \<le> kv_n_ctx (lg_kv lg)" "1 \<le> kv_n_ctx (lg_kv lg)"
    "nat (kv_head (lg_kv lg)) \<le> nat (kv_n_ctx (lg_kv lg))"
  using assms unfolding eng_inv_def Let_def kv_shaped_def by linarith+

lemma eng_inv_row_update:
  assumes inv: "eng_inv lg M" and kv: "\<And>r xs. M r = Some xs \<Longrightarrow>
      \<exists>xs'. M' r = Some xs' \<and> row_update False (nat (kv_head (lg_kv lg)) * row_words (lg_hp lg)) len xs xs'"
    and other: "\<And>r. r \<notin> kv_roots (lg_kv lg) \<Longrightarrow> M' r = M r"
  shows "eng_inv lg M'"
proof (rule eng_inv_change[OF inv])
  fix r xs assume r: "M r = Some xs"
  note i = inv[unfolded eng_inv_def Let_def]
  show "\<exists>ys. M' r = Some ys \<and> length ys = length xs"
  proof (cases "r \<in> kv_roots (lg_kv lg)")
    case True
    then have "length xs = row_words (lg_hp lg) * nat (kv_n_ctx (lg_kv lg))"
      using i r by (auto simp: kv_full_words_def)
    then have "nat (kv_head (lg_kv lg)) * row_words (lg_hp lg) \<le> length xs"
      using eng_inv_head(4)[OF inv] by (simp add: mult.commute mult_le_mono2)
    then show ?thesis using kv[OF r] by (auto simp: row_update_def)
  next
    case False
    then show ?thesis using other r by auto
  qed
qed

lemma eng_inv_set_head:
  assumes "eng_inv lg M" "0 \<le> h" "h \<le> kv_n_ctx (lg_kv lg)"
  shows "eng_inv (set_head h lg) M"
  using assms
  by (simp add: eng_inv_def Let_def set_head_def kv_shaped_def kv_roots_def kv_full_words_def dg_ok_def)

lemma rows_of_world:
  assumes "holds L M (eg_world s)" "M (tn_root (kv_k (lg_kv (eg_graph s)) ! l)) = Some a"
    "M (tn_root (kv_v (lg_kv (eg_graph s)) ! l)) = Some b"
  shows "k_rows s l = rows a (row_words (lg_hp (eg_graph s))) (nat (used s))"
    and "v_rows s l = rows b (row_words (lg_hp (eg_graph s))) (nat (used s))"
  using assms by (auto simp: k_rows_def v_rows_def holds_def used_def Let_def)

lemma row_update_rows:
  assumes "row_update full (n * row) len xs xs'" "n * row \<le> length xs"
  shows "rows xs' row n = rows xs row n"
  using assms rows_overwrite by (auto simp: row_update_def)

lemma layer_contents:
  assumes "eng_inv lg M" "l < nat (hp_layer (lg_hp lg))"
  obtains a b where "M (tn_root (kv_k (lg_kv lg) ! l)) = Some a" "M (tn_root (kv_v (lg_kv lg) ! l)) = Some b"
    "length a = kv_full_words (lg_hp lg) (lg_kv lg)" "length b = kv_full_words (lg_hp lg) (lg_kv lg)"
    "nat (kv_head (lg_kv lg)) * row_words (lg_hp lg) \<le> length a" "nat (kv_head (lg_kv lg)) * row_words (lg_hp lg) \<le> length b"
proof -
  note i = assms(1)[unfolded eng_inv_def Let_def]
  have "tn_root (kv_k (lg_kv lg) ! l) \<in> kv_roots (lg_kv lg)" "tn_root (kv_v (lg_kv lg) ! l) \<in> kv_roots (lg_kv lg)"
    using i assms(2) by (simp_all add: kv_roots_def kv_shaped_def)
  then obtain a b where ab: "M (tn_root (kv_k (lg_kv lg) ! l)) = Some a" "M (tn_root (kv_v (lg_kv lg) ! l)) = Some b"
    "length a = kv_full_words (lg_hp lg) (lg_kv lg)" "length b = kv_full_words (lg_hp lg) (lg_kv lg)"
    using i by blast
  moreover have "nat (kv_head (lg_kv lg)) * row_words (lg_hp lg) \<le> kv_full_words (lg_hp lg) (lg_kv lg)"
    using eng_inv_head(4)[OF assms(1)] by (simp add: kv_full_words_def mult.commute mult_le_mono2)
  ultimately show ?thesis using that by simp
qed

text \<open>The outcome of a forward pass, on the abstract cache.\<close>

definition forward_outcome :: "resource multiset \<Rightarrow> engine \<Rightarrow> nat \<Rightarrow> (u32 list, graph_error) outcome \<times> engine \<Rightarrow> bool" where
  "forward_outcome L s n rs \<longleftrightarrow>
     ends_in (\<lambda>out s'. engine_ok L s' \<and> used s' = used s + int n \<and> capacity s' = capacity s \<and>
         same_setup (eg_graph s) (eg_graph s') \<and>
         length out = nat (hp_vocab (lg_hp (eg_graph s))) \<and>
         (\<forall>l<n_layers s. \<exists>ks vs. length ks = n \<and> length vs = n \<and>
            k_rows s' l = k_rows s l @ ks \<and> v_rows s' l = v_rows s l @ vs))
       (\<lambda>e s'. same_history s s' \<and> same_setup (eg_graph s) (eg_graph s') \<and>
         (if is_missing e then \<exists>ib ic cx. engine_ok (L + three ib ic cx) s' else engine_ok L s')) True rs"

lemma prefilled_rows:
  assumes inv: "eng_inv (eg_graph s) M" and s: "holds L M (eg_world s)" "holds L' M' (eg_world s')"
    and p: "prefilled (lg_hp (eg_graph s)) (lg_kv (eg_graph s)) n full M M'"
    and g: "eg_graph s' = set_head h (eg_graph s)" "kv_head (lg_kv (eg_graph s)) \<le> h" and l: "l < n_layers s"
  shows "\<exists>ks vs. k_rows s' l = k_rows s l @ ks \<and> v_rows s' l = v_rows s l @ vs \<and>
    length ks = nat (h - used s) \<and> length vs = nat (h - used s)"
proof -
  let ?lg = "eg_graph s"
  let ?row = "row_words (lg_hp ?lg)" and ?n = "nat (kv_head (lg_kv ?lg))"
  note i = inv[unfolded eng_inv_def Let_def]
  obtain a b where ab: "M (tn_root (kv_k (lg_kv ?lg) ! l)) = Some a" "M (tn_root (kv_v (lg_kv ?lg) ! l)) = Some b"
    and len: "?n * ?row \<le> length a" "?n * ?row \<le> length b"
    using layer_contents[OF inv, of l] l unfolding n_layers_def by metis
  obtain a' b' where ab': "M' (tn_root (kv_k (lg_kv ?lg) ! l)) = Some a'" "M' (tn_root (kv_v (lg_kv ?lg) ! l)) = Some b'"
    and up: "row_update False (?n * ?row) (?row * n) a a'" "row_update False (?n * ?row) (?row * n) b b'"
    using prefilled_contents(2)[OF _ _ p ab(1)] prefilled_contents(2)[OF _ _ p ab(2)] i by blast
  have h: "nat h = ?n + nat (h - used s)" and u: "nat (used s) = ?n"
    using g(2) eng_inv_head(1)[OF inv] by (simp_all add: used_def)
  have u': "nat (used s') = nat h" and hp: "lg_hp (eg_graph s') = lg_hp ?lg" and kvs: "kv_k (lg_kv (eg_graph s')) = kv_k (lg_kv ?lg)"
      "kv_v (lg_kv (eg_graph s')) = kv_v (lg_kv ?lg)"
    by (simp_all add: used_def g(1) set_head_def)
  have k': "k_rows s' l = rows a' ?row (?n + nat (h - used s))" "v_rows s' l = rows b' ?row (?n + nat (h - used s))"
    using rows_of_world[OF s(2), of l a' b'] ab' u' unfolding hp kvs h by simp_all
  have k: "k_rows s l = rows a ?row ?n" "v_rows s l = rows b ?row ?n"
    using rows_of_world[OF s(1), of l a b] ab u by simp_all
  show ?thesis
    unfolding k' k rows_add row_update_rows[OF up(1) len(1)] row_update_rows[OF up(2) len(2)] by auto
qed

lemma forward_failed:
  assumes inv: "eng_inv (eg_graph s) M" and M: "holds L M (eg_world s)"
    and p: "prefilled (lg_hp (eg_graph s)) (lg_kv (eg_graph s)) n False M M'"
    and g: "eg_graph t = eg_graph s"
    and leak: "leak_or L (holds L M') (\<lambda>L'. holds L' M) e (eg_world t)"
  shows "same_history s t \<and>
    (if is_missing e then (\<exists>ib ic cx. holds (L + three ib ic cx) M (eg_world t)) else holds L M' (eg_world t))"
proof -
  have head: "eg_graph s = set_head (kv_head (lg_kv (eg_graph s))) (eg_graph s)" by (simp add: set_head_def)
  have same: "same_history s t"
    if "holds L' N (eg_world t)" "prefilled (lg_hp (eg_graph s)) (lg_kv (eg_graph s)) n False M N" for L' N
    unfolding same_history_def
    using prefilled_rows[OF inv M that(1) that(2), of "kv_head (lg_kv (eg_graph s))"] head
    by (fastforce simp: used_def capacity_def n_layers_def g)
  show ?thesis
  proof (cases "is_missing e")
    case True
    then obtain ib ic cx where h: "holds (L + three ib ic cx) M (eg_world t)"
      using leak by (auto simp: leak_or_def)
    moreover have "same_history s t" by (rule same[OF h]) (simp add: prefilled_def)
    ultimately show ?thesis using True by auto
  next
    case False
    then have h: "holds L M' (eg_world t)" using leak by (simp add: leak_or_def)
    then show ?thesis using same[OF h p] False by simp
  qed
qed

lemma forward_refines:
  assumes ok: "engine_ok L s" and ids: "ids \<noteq> []"
  shows "forward_outcome L s (length ids) (forward env md ids pos s)"
proof -
  let ?lg = "eg_graph s"
  obtain M where inv: "eng_inv ?lg M" and M: "holds (L + dec_resources ?lg) M (eg_world s)"
    using ok by (auto simp: engine_ok_def)
  note i = inv[unfolded eng_inv_def Let_def]
  have f: "ends_in (\<lambda>out s. length out = nat (hp_vocab (lg_hp ?lg) * 4) div 4 \<and>
        kv_head (lg_kv ?lg) + int (length ids) \<le> kv_n_ctx (lg_kv ?lg) \<and>
        (\<exists>M'. prefilled (lg_hp ?lg) (lg_kv ?lg) (length ids) True M M' \<and>
          at (set_head (kv_head (lg_kv ?lg) + int (length ids)) ?lg) (holds (L + dec_resources ?lg) M') s))
     (\<lambda>e s. \<exists>M'. prefilled (lg_hp ?lg) (lg_kv ?lg) (length ids) False M M' \<and>
        at ?lg (leak_or (L + dec_resources ?lg) (holds (L + dec_resources ?lg) M') (\<lambda>L'. holds L' M) e) s) True
     (forward env md ids pos s)"
    using forward_frame[OF eng_inv_shaped[OF inv] eng_inv_roots[OF inv], of "L + dec_resources ?lg" env md ids pos] M
    by (simp add: spec_def at_def)
  have upd: "eng_inv ?lg M'" if p: "prefilled (lg_hp ?lg) (lg_kv ?lg) (length ids) full M M'" for full M'
    by (rule eng_inv_row_update[OF inv]) (use prefilled_contents[OF _ _ p] i in blast)+
  show ?thesis
    unfolding forward_outcome_def
  proof (rule ends_in_mono[OF f], goal_cases)
    case (1 out t)
    then obtain M' where p: "prefilled (lg_hp ?lg) (lg_kv ?lg) (length ids) True M M'"
      and t: "eg_graph t = set_head (kv_head (lg_kv ?lg) + int (length ids)) ?lg" "holds (L + dec_resources ?lg) M' (eg_world t)"
      and fits: "kv_head (lg_kv ?lg) + int (length ids) \<le> kv_n_ctx (lg_kv ?lg)" and len: "length out = nat (hp_vocab (lg_hp ?lg) * 4) div 4"
      by (auto simp: at_def)
    have "eng_inv (eg_graph t) M'"
      unfolding t(1) by (rule eng_inv_set_head[OF upd[OF p]]) (use i fits in \<open>auto simp: kv_shaped_def\<close>)
    then have "engine_ok L t"
      using t by (auto simp: engine_ok_def dec_resources_def)
    moreover have "nat (hp_vocab (lg_hp ?lg) * 4) div 4 = nat (hp_vocab (lg_hp ?lg))"
      by (cases "0 \<le> hp_vocab (lg_hp ?lg)") (simp_all add: nat_mult_distrib)
    moreover have "\<exists>ks vs. length ks = length ids \<and> length vs = length ids \<and> k_rows t l = k_rows s l @ ks \<and> v_rows t l = v_rows s l @ vs"
      if "l < n_layers s" for l
      using prefilled_rows[OF inv M t(2) p t(1) _ that] by (auto simp: used_def)
    ultimately show ?case
      using t len by (auto simp: used_def capacity_def set_head_def)
  next
    case (2 e t)
    then obtain M' where p: "prefilled (lg_hp ?lg) (lg_kv ?lg) (length ids) False M M'" and g: "eg_graph t = ?lg"
      and leak: "leak_or (L + dec_resources ?lg) (holds (L + dec_resources ?lg) M') (\<lambda>L'. holds L' M) e (eg_world t)"
      by (auto simp: at_def)
    note f = forward_failed[OF inv M p g leak]
    show ?case
    proof (cases "is_missing e")
      case True
      then obtain ib ic cx where h: "holds (L + dec_resources ?lg + three ib ic cx) M (eg_world t)"
        using f by auto
      then have "engine_ok (L + three ib ic cx) t"
        unfolding engine_ok_def g using inv by (auto simp: add.commute add.left_commute add.assoc)
      then show ?thesis using f True g by auto
    next
      case False
      then have "engine_ok L t" unfolding engine_ok_def g using upd[OF p] f by auto
      then show ?thesis using f False g by simp
    qed
  qed simp
qed
section \<open>Decode\<close>

lemma decode_writes_fst:
  "map fst (decode_writes kv dg row V i) = concat (map (\<lambda>l. [tn_root (kv_k kv ! l), tn_root (kv_v kv ! l)]) [0..<i])"
  by (induction i) (simp_all add: decode_writes_def)

lemma decode_writes_entry:
  assumes "l < i"
  shows "(tn_root (kv_k kv ! l), nat (kv_head kv) * row, fit row (V (tn_id (dg_k_out dg ! l)))) \<in> set (decode_writes kv dg row V i)"
    and "(tn_root (kv_v kv ! l), nat (kv_head kv) * row, fit row (V (tn_id (dg_v_out dg ! l)))) \<in> set (decode_writes kv dg row V i)"
  using assms unfolding decode_writes_def by auto

lemma decode_writes_shape:
  "w \<in> set (decode_writes kv dg row V i) \<Longrightarrow> \<exists>ys. w = (fst w, nat (kv_head kv) * row, ys) \<and> length ys = row"
  by (auto simp: decode_writes_def)

lemma decode_writes_roots:
  "kv_shaped hp hdim kv \<Longrightarrow> fst ` set (decode_writes kv dg row V (nat (hp_layer hp))) \<subseteq> kv_roots kv"
  unfolding list.set_map[symmetric] decode_writes_fst by (auto simp: kv_roots_def kv_shaped_def)

definition decode_outcome :: "resource multiset \<Rightarrow> engine \<Rightarrow> u32 \<Rightarrow> u32 list \<Rightarrow> engine \<Rightarrow> bool" where
  "decode_outcome L s token out s' \<longleftrightarrow>
     (\<exists>dg. lg_dec (eg_graph s') = Some dg \<and> engine_ok L s' \<and> same_setup (eg_graph s) (eg_graph s') \<and>
        used s < capacity s \<and> used s' = used s + 1 \<and> capacity s' = capacity s \<and>
        (\<forall>l<n_layers s.
           k_rows s' l = k_rows s l @ [fit (row_words (lg_hp (eg_graph s))) (w_vals (eg_world s') (tn_id (dg_k_out dg ! l)))] \<and>
           v_rows s' l = v_rows s l @ [fit (row_words (lg_hp (eg_graph s))) (w_vals (eg_world s') (tn_id (dg_v_out dg ! l)))]) \<and>
        w_mem (eg_world s') (tn_root (dg_token dg)) = [token] \<and>
        w_mem (eg_world s') (tn_root (dg_pos dg)) = [word_of_int (used s)] \<and>
        w_mem (eg_world s') (tn_root (dg_mask dg)) = replicate (nat (used s)) 0 @ replicate (nat (capacity s - used s)) MASKED \<and>
        out = fit (nat (hp_vocab (lg_hp (eg_graph s)))) (w_vals (eg_world s') (tn_id (dg_logits dg))))"

lemma same_history_at:
  assumes inv: "eng_inv (eg_graph s) M" "holds L1 M (eg_world s)" and inv': "eng_inv lg' M'" "holds L2 M' (eg_world t)"
    and same: "\<forall>r\<in>kv_roots (lg_kv (eg_graph s)). M' r = M r"
    and g: "eg_graph t = lg'" "lg_kv lg' = lg_kv (eg_graph s)" "lg_hp lg' = lg_hp (eg_graph s)"
  shows "same_history s t"
proof -
  have "k_rows t l = k_rows s l \<and> v_rows t l = v_rows s l" if "l < n_layers s" for l
  proof -
    have l': "l < nat (hp_layer (lg_hp (eg_graph s)))" using that by (simp add: n_layers_def)
    obtain a b where ab: "M (tn_root (kv_k (lg_kv (eg_graph s)) ! l)) = Some a" "M (tn_root (kv_v (lg_kv (eg_graph s)) ! l)) = Some b"
      by (rule layer_contents[OF inv(1) l'])
    have "tn_root (kv_k (lg_kv (eg_graph s)) ! l) \<in> kv_roots (lg_kv (eg_graph s))" "tn_root (kv_v (lg_kv (eg_graph s)) ! l) \<in> kv_roots (lg_kv (eg_graph s))"
      using eng_inv_shaped[OF inv(1)] that by (simp_all add: kv_roots_def kv_shaped_def n_layers_def)
    then have "M' (tn_root (kv_k (lg_kv (eg_graph t)) ! l)) = Some a" "M' (tn_root (kv_v (lg_kv (eg_graph t)) ! l)) = Some b"
      using ab same g by simp_all
    then show ?thesis
      using rows_of_world[OF inv(2) ab] rows_of_world[OF inv'(2), of l a b] g by (simp add: used_def)
  qed
  then show ?thesis using g by (simp add: same_history_def used_def capacity_def n_layers_def)
qed

text \<open>What a step writes to the cache: one row of every layer, in place.\<close>

lemma decode_writes_distinct:
  assumes "eng_inv lg M"
  shows "distinct (map fst (decode_writes (lg_kv lg) dg (row_words (lg_hp lg)) V (nat (hp_layer (lg_hp lg)))))"
  unfolding decode_writes_fst by (rule distinct_layer_roots[OF eng_inv_shaped[OF assms] order_refl])

lemma decode_writes_keep:
  assumes inv: "eng_inv lg M"
  shows "eng_inv lg (writes (decode_writes (lg_kv lg) dg (row_words (lg_hp lg)) V (nat (hp_layer (lg_hp lg)))) M)"
proof -
  define W where "W = (decode_writes (lg_kv lg) dg (row_words (lg_hp lg)) V (nat (hp_layer (lg_hp lg))))"
  have dist: "distinct (map fst W)" unfolding W_def by (rule decode_writes_distinct[OF inv])
  have roots: "fst ` set W \<subseteq> kv_roots (lg_kv lg)"
    unfolding W_def by (rule decode_writes_roots[OF eng_inv_shaped[OF inv]])
  have "eng_inv lg (writes W M)"
  proof (rule eng_inv_row_update[OF inv])
    show "writes W M r = M r" if "r \<notin> kv_roots (lg_kv lg)" for r
      using that roots by (intro writes_other) auto
    show "\<exists>xs'. writes W M r = Some xs' \<and> row_update False (nat (kv_head (lg_kv lg)) * row_words (lg_hp lg)) (row_words (lg_hp lg)) xs xs'"
      if r: "M r = Some xs" for r xs
    proof (cases "r \<in> fst ` set W")
      case True
      then obtain w where w: "w \<in> set W" "r = fst w" by blast
      then obtain ys where ys: "w = (r, nat (kv_head (lg_kv lg)) * row_words (lg_hp lg), ys)" "length ys = row_words (lg_hp lg)"
        using decode_writes_shape unfolding W_def by blast
      show ?thesis using writes_hit[OF dist] w(1) ys r by (auto simp: row_update_def)
    next
      case False
      then show ?thesis using r by (simp add: writes_other row_update_def)
    qed
  qed
  then show ?thesis by (simp add: W_def)
qed

lemma decode_rows_appended:
  assumes inv: "eng_inv (eg_graph s) M" and M: "holds L0 M (eg_world s)"
    and full: "kv_head (lg_kv (eg_graph s)) < kv_n_ctx (lg_kv (eg_graph s))"
    and g: "eg_graph t = set_head (kv_head (lg_kv (eg_graph s)) + 1) (with_dec dg (eg_graph s))"
    and same: "\<forall>r\<in>kv_roots (lg_kv (eg_graph s)). M1 r = M r"
    and t: "holds L (writes (decode_writes (lg_kv (eg_graph s)) dg (row_words (lg_hp (eg_graph s))) V (nat (hp_layer (lg_hp (eg_graph s))))) M1) (eg_world t)"
    and l: "l < n_layers s"
  shows "k_rows t l = k_rows s l @ [fit (row_words (lg_hp (eg_graph s))) (V (tn_id (dg_k_out dg ! l)))] \<and>
      v_rows t l = v_rows s l @ [fit (row_words (lg_hp (eg_graph s))) (V (tn_id (dg_v_out dg ! l)))]"
proof -
  let ?hp = "lg_hp (eg_graph s)" and ?kv = "lg_kv (eg_graph s)"
  define W where "W = (decode_writes (lg_kv (eg_graph s)) dg (row_words (lg_hp (eg_graph s))) V (nat (hp_layer (lg_hp (eg_graph s)))))"
  have dist: "distinct (map fst W)" unfolding W_def by (rule decode_writes_distinct[OF inv])
  note h2 = t[folded W_def] and shaped = eng_inv_shaped[OF inv]
  have l': "l < nat (hp_layer ?hp)" using l by (simp add: n_layers_def)
  obtain a b where ab: "M (tn_root (kv_k ?kv ! l)) = Some a" "M (tn_root (kv_v ?kv ! l)) = Some b"
    and len: "length a = kv_full_words ?hp ?kv" "length b = kv_full_words ?hp ?kv"
    using layer_contents[OF inv l'] by metis
  have r: "tn_root (kv_k ?kv ! l) \<in> kv_roots ?kv" "tn_root (kv_v ?kv ! l) \<in> kv_roots ?kv"
    using shaped l' by (simp_all add: kv_roots_def kv_shaped_def)
  have ab1: "M1 (tn_root (kv_k ?kv ! l)) = Some a" "M1 (tn_root (kv_v ?kv ! l)) = Some b" using ab r same by simp_all
  let ?n = "nat (kv_head ?kv)"
  have ab2: "writes W M1 (tn_root (kv_k ?kv ! l)) = Some (overwrite a (?n * row_words ?hp) (fit (row_words ?hp) (V (tn_id (dg_k_out dg ! l)))))"
    "writes W M1 (tn_root (kv_v ?kv ! l)) = Some (overwrite b (?n * row_words ?hp) (fit (row_words ?hp) (V (tn_id (dg_v_out dg ! l)))))"
    using writes_hit[OF dist] decode_writes_entry[OF l', of ?kv "row_words ?hp" V dg] ab1 unfolding W_def by simp_all
  have "?n + 1 \<le> nat (kv_n_ctx ?kv)" using full eng_inv_head(1)[OF inv] by simp
  then have "(?n + 1) * row_words ?hp \<le> nat (kv_n_ctx ?kv) * row_words ?hp" by (rule mult_le_mono1)
  then have fits: "?n * row_words ?hp + row_words ?hp \<le> length a" "?n * row_words ?hp + row_words ?hp \<le> length b"
    using len by (simp_all add: kv_full_words_def mult.commute)
  have ut: "nat (used t) = ?n + 1" using eng_inv_head(1)[OF inv] by (simp add: used_def g set_head_def nat_add_distrib)
  have ht: "lg_hp (eg_graph t) = ?hp" "kv_k (lg_kv (eg_graph t)) = kv_k ?kv" "kv_v (lg_kv (eg_graph t)) = kv_v ?kv"
    by (simp_all add: g set_head_def)
  have new: "k_rows t l = rows (overwrite a (?n * row_words ?hp) (fit (row_words ?hp) (V (tn_id (dg_k_out dg ! l))))) (row_words ?hp) (?n + 1)"
    "v_rows t l = rows (overwrite b (?n * row_words ?hp) (fit (row_words ?hp) (V (tn_id (dg_v_out dg ! l))))) (row_words ?hp) (?n + 1)"
    using rows_of_world[OF h2 ab2(1)[folded ht(2)] ab2(2)[folded ht(3)]] unfolding ut ht by simp_all
  have old: "k_rows s l = rows a (row_words ?hp) ?n" "v_rows s l = rows b (row_words ?hp) ?n"
    using rows_of_world[OF M ab] by (simp_all add: used_def)
  show ?thesis
    unfolding new old rows_append_one[OF fits(1) length_fit] rows_append_one[OF fits(2) length_fit] by simp
qed

lemma decode_done_outcome:
  assumes inv: "eng_inv (eg_graph s) M" and M: "holds L0 M (eg_world s)"
    and d: "decode_done (eg_graph s) L M token out t"
  shows "decode_outcome L s token out t"
proof -
  let ?lg = "eg_graph s"
  let ?hp = "lg_hp ?lg" and ?kv = "lg_kv ?lg"
  obtain dg M' V where dec: "lg_dec ?lg = None \<or> lg_dec ?lg = Some dg" and le: "M \<subseteq>\<^sub>m M'"
    and inv': "eng_inv (with_dec dg ?lg) M'" and full: "kv_head ?kv < kv_n_ctx ?kv"
    and t: "at (set_head (kv_head ?kv + 1) (with_dec dg ?lg)) (computed (L + dg_resources dg)
        (writes (decode_writes ?kv dg (row_words ?hp) V (nat (hp_layer ?hp)))
          (with_inputs dg token (kv_n_ctx ?kv) (kv_head ?kv) M')) V) t"
    and out: "out = fit (nat (hp_vocab ?hp * 4) div 4) (V (tn_id (dg_logits dg)))"
    using d unfolding decode_done_def Let_def by blast
  define W where "W = decode_writes ?kv dg (row_words ?hp) V (nat (hp_layer ?hp))"
  define M1 where "M1 = with_inputs dg token (kv_n_ctx ?kv) (kv_head ?kv) M'"
  have inv1: "eng_inv (with_dec dg ?lg) M1"
    using eng_inv_inputs[OF inv', of dg token] by (simp add: M1_def)
  note i = inv'[unfolded eng_inv_def Let_def, simplified]
  have shaped: "kv_shaped ?hp (hdim_of ?hp) ?kv" and ok: "dg_ok ?hp ?kv dg" using i by blast+
  have g: "eg_graph t = set_head (kv_head ?kv + 1) (with_dec dg ?lg)" and h2: "holds (L + dg_resources dg) (writes W M1) (eg_world t)"
    and V: "w_vals (eg_world t) = V"
    using t by (auto simp: at_def computed_def W_def M1_def)
  have roots: "fst ` set W \<subseteq> kv_roots ?kv" unfolding W_def by (rule decode_writes_roots[OF shaped])
  have inv2: "eng_inv (with_dec dg ?lg) (writes W M1)"
    using decode_writes_keep[OF inv1, of dg V] by (simp add: W_def)
  have okt: "engine_ok L t"
    unfolding engine_ok_def g
    using eng_inv_set_head[OF inv2, of "kv_head ?kv + 1"] eng_inv_head(1)[OF inv] full h2
    by (intro exI[of _ "writes W M1"]) (simp add: dec_resources_def)
  have same1: "\<forall>r\<in>kv_roots ?kv. M1 r = M r"
    using kv_outside_inputs[OF ok] le eng_inv_roots[OF inv] unfolding M1_def map_le_def by (metis subsetD)
  have rowsl: "k_rows t l = k_rows s l @ [fit (row_words ?hp) (V (tn_id (dg_k_out dg ! l)))] \<and>
      v_rows t l = v_rows s l @ [fit (row_words ?hp) (V (tn_id (dg_v_out dg ! l)))]" if l: "l < n_layers s" for l
    by (rule decode_rows_appended[OF inv M full g same1 h2[unfolded W_def] l])
  have inputs: "w_mem (eg_world t) r = xs" if "M1 r = Some xs" "r \<in> set (dg_roots dg)" for r xs
  proof -
    have "r \<notin> kv_roots ?kv" using ok that(2) by (auto simp: dg_ok_def)
    then have "writes W M1 r = Some xs" using writes_other[of r W M1] roots that(1) by auto
    then show ?thesis using h2 by (simp add: holds_def)
  qed
  have apart: "tn_root (dg_token dg) \<noteq> tn_root (dg_pos dg)" "tn_root (dg_token dg) \<noteq> tn_root (dg_mask dg)"
      "tn_root (dg_pos dg) \<noteq> tn_root (dg_mask dg)"
    using ok by (auto simp: dg_ok_def dg_roots_def)
  have vocab: "nat (hp_vocab ?hp * 4) div 4 = nat (hp_vocab ?hp)"
    by (cases "0 \<le> hp_vocab ?hp") (simp_all add: nat_mult_distrib)
  have same: "same_setup ?lg (eg_graph t)" by (simp add: g)
  show ?thesis
    unfolding decode_outcome_def
    using same okt rowsl inputs out full apart V
    by (intro exI[of _ dg]) (simp add: g set_head_def used_def capacity_def dg_roots_def M1_def with_inputs_def decode_mask_def vocab)
qed

section \<open>The public operations\<close>

fun missing_tensor :: "forward_error \<Rightarrow> bool" where
  "missing_tensor (FAllocationFailed (GraphMsg e)) = is_missing e"
| "missing_tensor _ = False"

text \<open>After an error the history is as before; a missing tensor leaves three resources behind.\<close>

definition failed_call :: "resource multiset \<Rightarrow> engine \<Rightarrow> forward_error \<Rightarrow> engine \<Rightarrow> bool" where
  "failed_call L s e s' \<longleftrightarrow>
     same_history s s' \<and> same_setup (eg_graph s) (eg_graph s') \<and>
     (if missing_tensor e then \<exists>ib ic cx. engine_ok (L + three ib ic cx) s' else engine_ok L s')"

definition prefilled_call :: "resource multiset \<Rightarrow> engine \<Rightarrow> nat \<Rightarrow> f32 list \<Rightarrow> engine \<Rightarrow> bool" where
  "prefilled_call L s n out s' \<longleftrightarrow>
     engine_ok L s' \<and> used s' = used s + int n \<and> capacity s' = capacity s \<and>
     same_setup (eg_graph s) (eg_graph s') \<and> length out = nat (hp_vocab (lg_hp (eg_graph s))) \<and>
     (\<forall>l<n_layers s. \<exists>ks vs. length ks = n \<and> length vs = n \<and>
        k_rows s' l = k_rows s l @ ks \<and> v_rows s' l = v_rows s l @ vs)"

lemma prefill_spec:
  "spec (\<lambda>t. t = s \<and> engine_ok L s) (prefill env md ids)
     (\<lambda>out s'. ids \<noteq> [] \<and> prefilled_call L s (length ids) out s') (failed_call L s) True"
proof (cases "ids = []")
  case True
  then show ?thesis
    by (auto simp: prefill_def spec_def failed_call_def same_history_def)
next
  case False
  have f: "spec (\<lambda>t. t = s \<and> engine_ok L s) (forward env md ids 0)
      (\<lambda>out s'. prefilled_call L s (length ids) (map Bits32 out) s')
      (\<lambda>e s'. failed_call L s (FAllocationFailed (GraphMsg e)) s') True"
    unfolding spec_def
  proof (intro allI impI, elim conjE)
    fix t assume "t = s" "engine_ok L s"
    then show "ends_in (\<lambda>out s'. prefilled_call L s (length ids) (map Bits32 out) s')
        (\<lambda>e s'. failed_call L s (FAllocationFailed (GraphMsg e)) s') True (forward env md ids 0 t)"
      using forward_refines[OF _ False, of L s env md 0] unfolding forward_outcome_def
      by (auto simp: prefilled_call_def failed_call_def elim!: ends_in_mono)
  qed
  show ?thesis
    unfolding prefill_def if_not_P[OF False]
    by (rule spec_bnd[OF spec_map_err[where E = "failed_call L s", OF f]], rule spec_ret) (use False in simp)
qed

lemma decode_spec:
  "spec (\<lambda>t. t = s \<and> engine_ok L s) (graph_decode_one env md token)
     (\<lambda>out s'. \<exists>ws. out = map Bits32 ws \<and> decode_outcome L s token ws s') (failed_call L s) True"
proof -
  let ?lg = "eg_graph s"
  have f: "spec (\<lambda>t. t = s \<and> engine_ok L s) (execute_decode env md token)
      (\<lambda>ws s'. decode_outcome L s token ws s') (\<lambda>e s'. failed_call L s (FAllocationFailed (GraphMsg e)) s') True"
    unfolding spec_def
  proof (intro allI impI, elim conjE)
    fix t assume t: "t = s" and "engine_ok L s"
    then obtain M where inv: "eng_inv ?lg M" and M: "holds (L + dec_resources ?lg) M (eg_world s)"
      by (auto simp: engine_ok_def)
    have e: "ends_in (decode_done ?lg L M token) (decode_failed ?lg L M) True (execute_decode env md token s)"
      using execute_decode_frame[OF inv, of L env md token] M by (simp add: spec_def at_def)
    show "ends_in (\<lambda>ws s'. decode_outcome L s token ws s') (\<lambda>e s'. failed_call L s (FAllocationFailed (GraphMsg e)) s') True
        (execute_decode env md token t)"
      unfolding t
    proof (rule ends_in_mono[OF e], goal_cases)
      case (1 ws t)
      then show ?case by (rule decode_done_outcome[OF inv M])
    next
      case (2 err t)
      then obtain lg' M' where lg': "lg' = ?lg \<or> (\<exists>dg. lg' = with_dec dg ?lg)" and inv': "eng_inv lg' M'"
        and same: "\<forall>r\<in>kv_roots (lg_kv ?lg). M' r = M r"
        and at: "eg_graph t = lg'" "leak_or (L + dec_resources lg') (holds (L + dec_resources lg') M') (\<lambda>L'. holds L' M') err (eg_world t)"
        unfolding decode_failed_def at_def by blast
      have kvhp: "lg_kv lg' = lg_kv ?lg" "lg_hp lg' = lg_hp ?lg" "same_setup ?lg lg'" using lg' by auto
      obtain L' where L': "holds L' M' (eg_world t)"
        and res: "if is_missing err then \<exists>ib ic cx. L' = (L + three ib ic cx) + dec_resources lg' else L' = L + dec_resources lg'"
        using at(2) by (auto simp: leak_or_def ac_simps split: if_splits)
      have h: "same_history s t" by (rule same_history_at[OF inv M inv' L' same at(1) kvhp(1,2)])
      have ok: "engine_ok N t" if "L' = N + dec_resources lg'" for N
        unfolding engine_ok_def at(1) using inv' L' that by blast
      show ?case
      proof (cases "is_missing err")
        case True
        then obtain ib ic cx where "L' = (L + three ib ic cx) + dec_resources lg'" using res by auto
        from ok[OF this] show ?thesis unfolding failed_call_def using h True at(1) kvhp by auto
      next
        case False
        then have "engine_ok L t" using res ok by simp
        then show ?thesis unfolding failed_call_def using h False at(1) kvhp by simp
      qed
    qed simp
  qed
  show ?thesis
    unfolding graph_decode_one_def
    by (rule spec_bnd[OF spec_map_err[where E = "failed_call L s", OF f]], rule spec_ret) blast
qed

lemma reset_spec:
  "spec (\<lambda>t. t = s \<and> engine_ok L s) reset_kv
     (\<lambda>_ s'. engine_ok L s' \<and> used s' = 0 \<and> capacity s' = capacity s \<and> same_setup (eg_graph s) (eg_graph s')) E pan"
proof -
  have "engine_ok L (s\<lparr>eg_graph := (eg_graph s)\<lparr>lg_kv := kv_clear (lg_kv (eg_graph s))\<rparr>\<rparr>)" if ok: "engine_ok L s"
  proof -
    have e: "(eg_graph s)\<lparr>lg_kv := kv_clear (lg_kv (eg_graph s))\<rparr> = set_head 0 (eg_graph s)"
      by (simp add: set_head_def kv_clear_def)
    from ok obtain M where "eng_inv (eg_graph s) M" "holds (L + dec_resources (eg_graph s)) M (eg_world s)"
      by (auto simp: engine_ok_def)
    then show ?thesis
      unfolding e engine_ok_def using eng_inv_set_head[of "eg_graph s" M 0] eng_inv_head(3)[of "eg_graph s" M]
      by (auto simp: dec_resources_def)
  qed
  then show ?thesis
    by (auto simp: spec_def reset_kv_def bnd_def get_graph_def set_graph_def kv_clear_def used_def capacity_def)
qed

section \<open>Shape safety\<close>

text \<open>Nothing is left to fail: no allocation, no computation, and room for \<open>n\<close> more rows.\<close>

definition all_well :: "ggml_env \<Rightarrow> int \<Rightarrow> engine \<Rightarrow> bool" where
  "all_well env n s \<longleftrightarrow> never_fails env \<and> used s + n \<le> capacity s"

text \<open>The weights have the shapes that the hyperparameters call for, and so has a built decode graph.\<close>

definition well_typed :: "model \<Rightarrow> int \<Rightarrow> engine \<Rightarrow> bool" where
  "well_typed md n_out s \<longleftrightarrow>
     model_shaped md (lg_hp (eg_graph s)) (hdim_of (lg_hp (eg_graph s))) n_out \<and>
     graph_shaped (lg_hp (eg_graph s)) n_out (eg_graph s)"

lemma engine_ok_inv:
  assumes "engine_ok L s"
  obtains M where "eng_inv (eg_graph s) M" "kv_shaped (lg_hp (eg_graph s)) (hdim_of (lg_hp (eg_graph s))) (lg_kv (eg_graph s))"
  using assms by (auto simp: engine_ok_def eng_inv_def Let_def)

lemma prefill_total:
  assumes ok: "engine_ok L s" and m: "well_typed md n_out s" and ids: "length ids < 2 ^ 31"
  shows "ends_in (\<lambda>_ s'. lg_dec (eg_graph s') = lg_dec (eg_graph s))
    (\<lambda>e s'. (ids = [] \<or> \<not> all_well env (int (length ids)) s) \<and> lg_dec (eg_graph s') = lg_dec (eg_graph s)) False
    (prefill env md ids s)"
proof (cases "ids = []")
  case False
  obtain M where kv: "kv_shaped (lg_hp (eg_graph s)) (hdim_of (lg_hp (eg_graph s))) (lg_kv (eg_graph s))"
    using engine_ok_inv[OF ok] by blast
  have m': "model_shaped md (lg_hp (eg_graph s)) (hdim_of (lg_hp (eg_graph s))) n_out"
    using m by (simp add: well_typed_def)
  have n: "1 \<le> length ids" "int (length ids) < 2 ^ 31" using False ids by (cases ids, simp_all)
  have "ends_in (\<lambda>_ s'. lg_dec (eg_graph s') = lg_dec (eg_graph s))
      (\<lambda>e s'. \<not> all_well env (int (length ids)) s \<and> lg_dec (eg_graph s') = lg_dec (eg_graph s)) False (forward env md ids 0 s)"
    using forward_yields[OF m' kv n, where E = "\<lambda>_. \<not> all_well env (int (length ids)) s" and env = env]
    by (simp add: spec_def at_def all_well_def used_def capacity_def)
  then show ?thesis
    using False by (cases "forward env md ids 0 s"; cases "fst (forward env md ids 0 s)")
      (auto simp: prefill_def bnd_def map_err_def)
qed (simp add: prefill_def)

lemma decode_total:
  assumes ok: "engine_ok L s" and m: "well_typed md n_out s"
  shows "ends_in (\<lambda>_ s'. graph_shaped (lg_hp (eg_graph s)) n_out (eg_graph s'))
    (\<lambda>e s'. \<not> all_well env 1 s \<and> graph_shaped (lg_hp (eg_graph s)) n_out (eg_graph s')) False
    (graph_decode_one env md token s)"
proof -
  obtain M where inv: "eng_inv (eg_graph s) M" using engine_ok_inv[OF ok] by blast
  have m': "model_shaped md (lg_hp (eg_graph s)) (hdim_of (lg_hp (eg_graph s))) n_out"
      "graph_shaped (lg_hp (eg_graph s)) n_out (eg_graph s)"
    using m by (simp_all add: well_typed_def)
  have "ends_in (\<lambda>_ s'. graph_shaped (lg_hp (eg_graph s)) n_out (eg_graph s'))
      (\<lambda>e s'. \<not> all_well env 1 s \<and> graph_shaped (lg_hp (eg_graph s)) n_out (eg_graph s')) False (execute_decode env md token s)"
    using execute_decode_yields[OF m'(1) inv m'(2), where E = "\<lambda>_. \<not> all_well env 1 s" and env = env and token = token]
    by (simp add: spec_def at_def all_well_def used_def capacity_def zless_add1_eq add1_zle_eq)
  then show ?thesis
    by (cases "execute_decode env md token s"; cases "fst (execute_decode env md token s)")
      (auto simp: graph_decode_one_def bnd_def map_err_def)
qed

section \<open>A small engine\<close>

text \<open>One layer of one head over two positions.\<close>

definition sample_hp :: hparams where
  "sample_hp = \<lparr>hp_vocab = 2, hp_embd = 2, hp_head = 1, hp_head_kv = 1, hp_layer = 1, hp_ff = 2, hp_rot = 2,
     hp_freq_base = 0, hp_eps = 0\<rparr>"

definition sample_engine :: "resource list \<Rightarrow> engine" where
  "sample_engine live =
     \<lparr>eg_graph = \<lparr>lg_hp = sample_hp, lg_backend = 0,
        lg_kv = \<lparr>kv_ctx = Some 2, kv_buf = \<lparr>bf_id = 1, bf_base = 0, bf_size = 1088\<rparr>,
          kv_k = [fresh_tensor 3 0 (D4 2 2 1 1)], kv_v = [fresh_tensor 4 0 (D4 2 2 1 1)], kv_n_ctx = 2, kv_head = 0\<rparr>,
        lg_dec = None\<rparr>,
      eg_world = \<lparr>w_next = 5, w_live = live, w_mem = (\<lambda>i. [0, 0, 0, 0]), w_nodes = [], w_vals = (\<lambda>i. [])\<rparr>\<rparr>"

definition sample_model :: model where
  "sample_model =
     \<lparr>md_mapper = \<lparr>fm_fd = 3, fm_ptr = 0, fm_total = 0\<rparr>, md_ctx = 0, md_buf = \<lparr>bf_id = 1, bf_base = 0, bf_size = 0\<rparr>,
      md_tensors = map_of (map (\<lambda>(name, i, m). (name, (fresh_tensor i 0 (D4 2 m 1 1), 0)))
        [(''token_embd.weight'', 100, 2), (''output_norm.weight'', 101, 1), (''output.weight'', 102, 2),
         (''blk.0.attn_norm.weight'', 103, 1), (''blk.0.attn_q.weight'', 104, 2), (''blk.0.attn_k.weight'', 105, 2),
         (''blk.0.attn_v.weight'', 106, 2), (''blk.0.attn_output.weight'', 107, 2), (''blk.0.ffn_norm.weight'', 108, 1),
         (''blk.0.ffn_gate.weight'', 109, 2), (''blk.0.ffn_up.weight'', 110, 2), (''blk.0.ffn_down.weight'', 111, 2)]),
      md_header = \<lparr>gh_version = 3, gh_n_tensors = 12,
        gh_metadata = map_of [(''llama.vocab_size'', VU32 2), (''llama.embedding_length'', VU32 2),
          (''llama.attention.head_count'', VU32 1), (''llama.attention.head_count_kv'', VU32 1),
          (''llama.block_count'', VU32 1), (''llama.feed_forward_length'', VU32 2),
          (''llama.rope.dimension_count'', VU32 2), (''llama.rope.freq_base'', VF32 0),
          (''llama.attention.layer_norm_rms_epsilon'', VF32 0)],
        gh_tensors = [], gh_data_offset = 0\<rparr>\<rparr>"

definition sample_env :: ggml_env where
  "sample_env = \<lparr>ge_alloc = (\<lambda>i. True), ge_base = (\<lambda>i. 0), ge_status = (\<lambda>i. 0), ge_done = (\<lambda>i. 0), ge_eval = (\<lambda>nodes mem i. [])\<rparr>"

lemma tn_root_fresh: "tn_root (fresh_tensor i ty ne) = i"
  by (simp add: fresh_tensor_def)

lemma sample_engine_ok: "engine_ok (mset live) (sample_engine live)"
proof -
  have "fresh_tensor 3 0 (D4 2 2 1 1) \<noteq> fresh_tensor 4 0 (D4 2 2 1 1)" by (simp add: fresh_tensor_def)
  then show ?thesis
    unfolding engine_ok_def
    by (intro exI[of _ "[3 \<mapsto> [0, 0, 0, 0], 4 \<mapsto> [0, 0, 0, 0]]"])
      (auto simp: sample_engine_def sample_hp_def eng_inv_def kv_shaped_def kv_roots_def kv_full_words_def row_words_def
        hdim_of_def holds_def dec_resources_def tn_root_fresh)
qed

lemma sample_digits: "dec_digits 0 = ''0''"
  by code_simp

lemma sample_model_shaped: "model_shaped sample_model sample_hp (hdim_of sample_hp) 2"
  by (simp add: model_shaped_def dims_ok_def sample_hp_def hdim_of_def layer_shaped_def shaped_def layer_tensor_def
      model_tensor_def sample_model_def weight_shape_def fresh_tensor_def type_size_def blck_size_def sample_digits Let_def)

lemma sample_never_fails: "never_fails sample_env"
  by (simp add: never_fails_def sample_env_def)

lemma sample_well_typed: "well_typed sample_model 2 (sample_engine live)"
  using sample_model_shaped by (simp add: well_typed_def sample_engine_def graph_shaped_def)

lemma sample_size: "used (sample_engine live) = 0" "capacity (sample_engine live) = 2"
  by (simp_all add: sample_engine_def used_def capacity_def)

lemma sample_prefill: "\<exists>out s'. prefill sample_env sample_model [0, 1] (sample_engine live) = (Ret out, s')"
proof -
  have "all_well sample_env 2 (sample_engine live)" using sample_never_fails by (simp add: all_well_def sample_size)
  then show ?thesis
    using prefill_total[OF sample_engine_ok sample_well_typed, of "[0, 1]" live sample_env]
    by (auto elim: ends_in_ret)
qed

lemma sample_decode: "\<exists>out s'. graph_decode_one sample_env sample_model 0 (sample_engine live) = (Ret out, s')"
proof -
  have "all_well sample_env 1 (sample_engine live)" using sample_never_fails by (simp add: all_well_def sample_size)
  then show ?thesis
    using decode_total[OF sample_engine_ok sample_well_typed, of live sample_env 0]
    by (auto elim: ends_in_ret)
qed

section \<open>Properties\<close>

text \<open>
  C2: \<^verbatim>\<open>prefill\<close> refines "append \<open>n\<close> rows" on the abstract cache. When it returns logits
  there is one per vocabulary entry, every layer's history of key rows and of value rows is
  the old history followed by as many rows as there are tokens, and the cache did not
  overflow. When it reports an error (some of the copies may have been performed) the
  history and the position are what they were; all resources have been released, except
  that a missing tensor leaves exactly one buffer and two contexts live.
\<close>

theorem prefill_refines:
  assumes "engine_ok L s" "prefill env md ids s = (r, s')"
  shows "case r of
      Ret out \<Rightarrow> ids \<noteq> [] \<and> prefilled_call L s (length ids) out s' \<and> used s' \<le> capacity s
    | Fail e \<Rightarrow> failed_call L s e s'
    | Panic \<Rightarrow> True"
proof -
  have e: "ends_in (\<lambda>out s'. ids \<noteq> [] \<and> prefilled_call L s (length ids) out s') (failed_call L s) True (r, s')"
    using prefill_spec[of s L env md ids] assms by (simp add: spec_def)
  show ?thesis
  proof (cases r)
    case (Ret out)
    then have "prefilled_call L s (length ids) out s'" "ids \<noteq> []" using e by simp_all
    moreover from this(1) have "used s' \<le> capacity s"
      using engine_ok_head[of L s'] by (simp add: prefilled_call_def)
    ultimately show ?thesis using Ret by simp
  qed (use e in simp_all)
qed

theorem prefill_refines_witness:
  "\<exists>out s'. prefill sample_env sample_model [0, 1] (sample_engine [RBackend 0]) = (Ret out, s') \<and>
     prefilled_call {#RBackend 0#} (sample_engine [RBackend 0]) 2 out s' \<and> used s' = 2"
proof -
  obtain out s' where p: "prefill sample_env sample_model [0, 1] (sample_engine [RBackend 0]) = (Ret out, s')"
    using sample_prefill by blast
  show ?thesis
    using prefill_refines[OF sample_engine_ok p] p sample_size
    by (intro exI[of _ out] exI[of _ s']) (auto simp: prefilled_call_def)
qed



end
