(* ===== verification/Graph_Runs.thy ===== *)
theory Graph_Runs imports Graph_Properties begin

text \<open>
  Whole runs of the inference graph: the engine built by \<^verbatim>\<open>LlamaGraph::new\<close>, any sequence of
  \<^verbatim>\<open>prefill\<close>, \<^verbatim>\<open>decode_one\<close> and \<^verbatim>\<open>reset_kv\<close>, and the drop at the end. The invariant of every
  reachable engine, the ledger of its resources, the absence of failed checks over a
  well-shaped model, and the layout of the cache inside its buffer.
\<close>

section \<open>Shape safety\<close>

lemma well_typed_change:
  assumes "well_typed md n_out s" "same_setup (eg_graph s) (eg_graph s')"
    "graph_shaped (lg_hp (eg_graph s)) n_out (eg_graph s')"
  shows "well_typed md n_out s'"
  using assms by (simp add: well_typed_def same_setup_def)

lemma prefill_typed:
  assumes ok: "engine_ok L s" and m: "well_typed md n_out s" and ids: "length ids < 2 ^ 31"
  shows "ends_in (\<lambda>_ s'. well_typed md n_out s')
    (\<lambda>e s'. (ids = [] \<or> \<not> all_well env (int (length ids)) s) \<and> well_typed md n_out s') False (prefill env md ids s)"
proof -
  have r: "ends_in (\<lambda>out s'. ids \<noteq> [] \<and> prefilled_call L s (length ids) out s') (failed_call L s) True (prefill env md ids s)"
    using prefill_spec[of s L env md ids] ok by (simp add: spec_def)
  have "graph_shaped (lg_hp (eg_graph s)) n_out lg'" if "lg_dec lg' = lg_dec (eg_graph s)" for lg'
    using m that by (simp add: well_typed_def graph_shaped_def)
  then show ?thesis
    by (intro ends_in_mono[OF ends_in_conj[OF prefill_total[OF ok m ids] r]])
      (auto simp: prefilled_call_def failed_call_def intro: well_typed_change[OF m])
qed

lemma decode_typed:
  assumes ok: "engine_ok L s" and m: "well_typed md n_out s"
  shows "ends_in (\<lambda>_ s'. well_typed md n_out s') (\<lambda>e s'. \<not> all_well env 1 s \<and> well_typed md n_out s') False
    (graph_decode_one env md token s)"
proof -
  have r: "ends_in (\<lambda>out s'. \<exists>ws. out = map Bits32 ws \<and> decode_outcome L s token ws s') (failed_call L s) True
      (graph_decode_one env md token s)"
    using decode_spec[of s L env md token] ok by (simp add: spec_def)
  show ?thesis
    by (intro ends_in_mono[OF ends_in_conj[OF decode_total[OF ok m] r]])
      (auto simp: decode_outcome_def failed_call_def intro: well_typed_change[OF m])
qed

section \<open>Runs\<close>

definition leaked :: "forward_error \<Rightarrow> nat" where
  "leaked e = (if missing_tensor e then 1 else 0)"

text \<open>
  The engines reachable from world \<open>w\<close>, with the number of calls that ended in a missing
  tensor. A call that panics has no successor.
\<close>

inductive graph_run :: "ggml_env \<Rightarrow> model \<Rightarrow> world \<Rightarrow> nat \<Rightarrow> engine \<Rightarrow> bool" for env md w where
  opened: "llama_graph_new env md w = (Ret lg, w') \<Longrightarrow> graph_run env md w 0 \<lparr>eg_graph = lg, eg_world = w'\<rparr>"
| prefilled: "graph_run env md w k s \<Longrightarrow> prefill env md ids s = (Ret out, s') \<Longrightarrow> graph_run env md w k s'"
| prefill_failed: "graph_run env md w k s \<Longrightarrow> prefill env md ids s = (Fail e, s') \<Longrightarrow> graph_run env md w (k + leaked e) s'"
| decoded: "graph_run env md w k s \<Longrightarrow> graph_decode_one env md token s = (Ret out, s') \<Longrightarrow> graph_run env md w k s'"
| decode_failed: "graph_run env md w k s \<Longrightarrow> graph_decode_one env md token s = (Fail e, s') \<Longrightarrow>
    graph_run env md w (k + leaked e) s'"
| reset: "graph_run env md w k s \<Longrightarrow> reset_kv s = (Ret () :: (unit, forward_error) outcome, s') \<Longrightarrow> graph_run env md w k s'"

text \<open>What \<open>k\<close> such calls leave behind; no resource was freed twice.\<close>

definition losses :: "nat \<Rightarrow> resource multiset \<Rightarrow> bool" where
  "losses k lost \<longleftrightarrow> size lost = 3 * k \<and> RDoubleFree \<notin># lost"

lemma losses_0 [simp]: "losses 0 lost \<longleftrightarrow> lost = {#}"
  by (auto simp: losses_def)

definition run_inv :: "model \<Rightarrow> world \<Rightarrow> nat \<Rightarrow> engine \<Rightarrow> bool" where
  "run_inv md w k s \<longleftrightarrow>
     lg_hp (eg_graph s) = hparams_from_model md \<and> capacity s = 512 \<and>
     (\<exists>lost. losses k lost \<and> engine_ok (mset (w_live w) + lost + base_resources (eg_graph s)) s)"

lemma run_inv_step:
  assumes "run_inv md w k s" "same_setup (eg_graph s) (eg_graph s')" "capacity s' = capacity s"
    "\<And>L. engine_ok L s \<Longrightarrow> \<exists>more. losses j more \<and> engine_ok (L + more) s'"
  shows "run_inv md w (k + j) s'"
proof -
  from assms(1) obtain lost where "losses k lost" "engine_ok (mset (w_live w) + lost + base_resources (eg_graph s)) s"
    by (auto simp: run_inv_def)
  moreover from assms(4)[OF this(2)] obtain more where
    "losses j more" "engine_ok (mset (w_live w) + lost + base_resources (eg_graph s) + more) s'" by blast
  ultimately have "losses (k + j) (lost + more)"
    "engine_ok (mset (w_live w) + (lost + more) + base_resources (eg_graph s)) s'"
    by (simp_all add: losses_def ac_simps)
  then show ?thesis
    using assms(1-3) unfolding run_inv_def same_setup_def
    by (intro conjI exI[of _ "lost + more"]) simp_all
qed

lemma run_inv_done:
  assumes "run_inv md w k s" "same_setup (eg_graph s) (eg_graph s')" "capacity s' = capacity s"
    "\<And>L. engine_ok L s \<Longrightarrow> engine_ok L s'"
  shows "run_inv md w k s'"
  using run_inv_step[OF assms(1-3), of 0] assms(4) by simp

lemma run_inv_failed:
  assumes "run_inv md w k s" "\<And>L. engine_ok L s \<Longrightarrow> failed_call L s e s'"
  shows "run_inv md w (k + leaked e) s'"
proof -
  obtain L where "engine_ok L s" using assms(1) by (auto simp: run_inv_def)
  with assms(2) have same: "same_setup (eg_graph s) (eg_graph s')" "capacity s' = capacity s"
    by (auto simp: failed_call_def same_history_def)
  show ?thesis
  proof (rule run_inv_step[OF assms(1) same])
    fix L assume "engine_ok L s"
    then have f: "failed_call L s e s'" by (rule assms(2))
    show "\<exists>more. losses (leaked e) more \<and> engine_ok (L + more) s'"
    proof (cases "missing_tensor e")
      case True
      with f obtain ib ic cx where "engine_ok (L + three ib ic cx) s'" by (auto simp: failed_call_def)
      then show ?thesis using True by (intro exI[of _ "three ib ic cx"]) (simp add: leaked_def three_def losses_def)
    next
      case False
      with f show ?thesis by (simp add: failed_call_def leaked_def)
    qed
  qed
qed

lemma new_run_inv:
  assumes "llama_graph_new env md w = (Ret lg, w')"
  shows "run_inv md w 0 \<lparr>eg_graph = lg, eg_world = w'\<rparr>"
proof -
  have "holds (mset (w_live w)) Map.empty w" by (simp add: holds_def)
  with llama_graph_new_frame[of "mset (w_live w)" Map.empty env md] assms
  obtain M where "lg_hp lg = hparams_from_model md" "lg_dec lg = None" "kv_n_ctx (lg_kv lg) = 512"
    "eng_inv lg M" "holds (mset (w_live w) + base_resources lg) M w'"
    by (fastforce simp: spec_def)
  then show ?thesis
    by (auto simp: run_inv_def capacity_def engine_ok_def dec_resources_def)
qed

lemma graph_run_inv:
  assumes "graph_run env md w k s"
  shows "run_inv md w k s"
  using assms
proof induction
  case (opened lg w')
  then show ?case by (rule new_run_inv)
next
  case (prefilled k s ids out s')
  from prefilled(3) obtain L where "engine_ok L s" by (auto simp: run_inv_def)
  have p: "prefilled_call L s (length ids) out s'" if "engine_ok L s" for L
    using prefill_spec[of s L env md ids] that prefilled(2) by (simp add: spec_def)
  show ?case
    by (rule run_inv_done[OF prefilled(3)]) (use p \<open>engine_ok L s\<close> in \<open>auto simp: prefilled_call_def\<close>)
next
  case (prefill_failed k s ids e s')
  show ?case
    by (rule run_inv_failed[OF prefill_failed(3)])
      (use prefill_spec[of s _ env md ids] prefill_failed(2) in \<open>auto simp: spec_def\<close>)
next
  case (decoded k s token out s')
  from decoded(3) obtain L where "engine_ok L s" by (auto simp: run_inv_def)
  have p: "\<exists>ws. decode_outcome L s token ws s'" if "engine_ok L s" for L
    using decode_spec[of s L env md token] that decoded(2) by (auto simp: spec_def)
  show ?case
    by (rule run_inv_done[OF decoded(3)]) (use p \<open>engine_ok L s\<close> in \<open>fastforce simp: decode_outcome_def\<close>)+
next
  case (decode_failed k s token e s')
  show ?case
    by (rule run_inv_failed[OF decode_failed(3)])
      (use decode_spec[of s _ env md token] decode_failed(2) in \<open>auto simp: spec_def\<close>)
next
  case (reset k s s')
  from reset(3) obtain L where "engine_ok L s" by (auto simp: run_inv_def)
  have p: "engine_ok L s' \<and> capacity s' = capacity s \<and> same_setup (eg_graph s) (eg_graph s')" if "engine_ok L s" for L
    using reset_spec[of s L "\<lambda>(_ :: forward_error) _. True" True] that reset(2) by (simp add: spec_def)
  show ?case
    by (rule run_inv_done[OF reset(3)]) (use p \<open>engine_ok L s\<close> in auto)
qed


section \<open>The layout of the cache\<close>

text \<open>The cache of \<open>layers\<close> layers of \<open>n\<close> rows fits the address space from \<open>base\<close> on.\<close>

definition kv_fits :: "int \<Rightarrow> nat \<Rightarrow> int \<Rightarrow> int \<Rightarrow> int \<Rightarrow> bool" where
  "kv_fits base layers n_head_kv hdim n \<longleftrightarrow>
     0 \<le> base \<and> 0 \<le> n_head_kv * hdim * n \<and> n_head_kv * hdim * n * 4 < 2 ^ 63 \<and>
     base + 2 * int layers * (n_head_kv * hdim * n * 4) + 1024 < 2 ^ 64"

lemma kv_fits_sizes:
  assumes "kv_fits base layers n_head_kv hdim n"
  shows "kv_bytes_per n_head_kv hdim n = n_head_kv * hdim * n * 4"
    and "kv_total_data (n_head_kv * hdim * n * 4) layers = 2 * int layers * (n_head_kv * hdim * n * 4) + 1024"
proof -
  let ?b = "n_head_kv * hdim * n * 4"
  have b: "0 \<le> ?b" "?b < 2 ^ 63" "0 \<le> base" "base + 2 * int layers * ?b + 1024 < 2 ^ 64"
    using assms by (simp_all add: kv_fits_def)
  have "0 \<le> int layers * ?b" using b(1) by simp
  then have "0 \<le> 2 * int layers * ?b + 1024" "2 * int layers * ?b + 1024 < 2 ^ 64" using b by linarith+
  then show "kv_total_data ?b layers = 2 * int layers * ?b + 1024"
    by (simp add: kv_total_data_def usize_wrap_def mult.commute mult.left_commute)
  have "i64_wrap ?b = ?b"
    unfolding i64_wrap_def using b by (subst mod_pos_pos_trivial) auto
  then show "kv_bytes_per n_head_kv hdim n = ?b"
    unfolding kv_bytes_per_def usize_wrap_def using b by simp
qed

lemma kv_fits_addr:
  assumes "kv_fits base layers n_head_kv hdim n" "i < layers"
  defines "b \<equiv> n_head_kv * hdim * n * 4"
  shows "k_addr base b i = base + int i * b" "v_addr base b layers i = base + int layers * b + int i * b"
    "base + int i * b + b \<le> base + int layers * b"
    "base + int layers * b + int i * b + b \<le> base + 2 * int layers * b + 1024"
proof -
  have b: "0 \<le> b" "0 \<le> base" "base + 2 * int layers * b + 1024 < 2 ^ 64"
    using assms by (simp_all add: kv_fits_def)
  have "int (Suc i) * b \<le> int layers * b" using assms(2) b(1) by (intro mult_right_mono) auto
  then have i: "int i * b + b \<le> int layers * b" by (simp add: algebra_simps)
  have z: "0 \<le> int i * b" using b(1) by simp
  have two: "2 * int layers * b = int layers * b + int layers * b" by simp
  show "base + int i * b + b \<le> base + int layers * b"
    "base + int layers * b + int i * b + b \<le> base + 2 * int layers * b + 1024"
    using i two by linarith+
  show "k_addr base b i = base + int i * b" "v_addr base b layers i = base + int layers * b + int i * b"
    unfolding k_addr_def v_addr_def usize_wrap_def using i z two b by (intro mod_pos_pos_trivial; linarith)+
qed

lemma kv_layer_yields:
  assumes "kv_fits (bf_base buf) layers n_head_kv hdim n" "i < layers"
    and "bf_size buf = 2 * int layers * (n_head_kv * hdim * n * 4) + 1024 + 32"
    and "\<forall>t\<in>set (fst kvs) \<union> set (snd kvs). plain t 0 (D4 (n_head_kv * hdim) n 1 1)"
  shows "yields pan (kv_layer buf (n_head_kv * hdim * n * 4) layers (n_head_kv * hdim) n kvs i)
    (\<lambda>kvs'. \<forall>t\<in>set (fst kvs') \<union> set (snd kvs'). plain t 0 (D4 (n_head_kv * hdim) n 1 1)) E"
proof -
  let ?b = "n_head_kv * hdim * n * 4"
  have sz: "nbytes t = ?b" if "plain t 0 (D4 (n_head_kv * hdim) n 1 1)" for t using plain_nbytes[OF that] by simp
  note a = kv_fits_addr[OF assms(1,2)]
  have b: "0 \<le> ?b" using assms(1) by (simp add: kv_fits_def)
  then have p: "0 \<le> int i * ?b" "0 \<le> int layers * ?b" by simp_all
  show ?thesis
    unfolding kv_layer_def
    apply (rule yields_bnd[OF yields_new_tensor])
    subgoal for kt
      apply (rule yields_bnd[OF yields_tensor_alloc])
        apply (use a(1) p in linarith)
       apply (use a(1,3,4) sz[of kt] assms(3) p in linarith)
      apply (rule yields_bnd[OF yields_new_tensor])
      subgoal for u vt
        apply (rule yields_bnd[OF yields_tensor_alloc])
          apply (use a(2) p in linarith)
         apply (use a(2,4) sz[of vt] assms(3) in linarith)
        apply (rule yields_ret, use assms(4) in auto)
        done
      done
    done
qed

lemma kv_zero_yields:
  assumes "plain (fst kv) 0 (D4 row n 1 1)" "plain (snd kv) 0 (D4 row n 1 1)"
  shows "yields pan (kv_zero (row * n * 4) z u kv) (\<lambda>_. True) E"
  unfolding kv_zero_def
  by (intro yields_bnd[OF yields_tensor_set] yields_tensor_set)
    (use plain_nbytes[OF assms(1)] plain_nbytes[OF assms(2)] in simp_all)


lemma yields_alloc_buffer_at:
  "yields pan (ggml_backend_alloc_buffer env sz)
     (\<lambda>r. (never_fails env \<longrightarrow> r \<noteq> None) \<and> (\<forall>b. r = Some b \<longrightarrow> (\<exists>i. bf_base b = ge_base env i) \<and> bf_size b = sz + 32)) E"
  unfolding ggml_backend_alloc_buffer_def
  by (rule yields_bnd[OF yields_acquire]) (auto intro!: yields_ret simp del: sm_simps)

lemma kv_new_yields:
  assumes fits: "\<And>i. kv_fits (ge_base env i) layers n_head_kv hdim n" and env: "never_fails env"
  shows "yields pan (kv_new env layers n_head_kv hdim n) (\<lambda>_. True) E"
proof -
  let ?shape = "\<lambda>t. plain t 0 (D4 (n_head_kv * hdim) n 1 1)"
  have zeros: "yields pan (loop (kv_zero (n_head_kv * hdim * n * 4) z) () (zip ks vs)) (\<lambda>_. True) E"
    if "\<forall>t\<in>set ks \<union> set vs. ?shape t" for ks vs z
    by (rule yields_loop)
      (use that in \<open>auto intro!: kv_zero_yields dest: set_zip_leftD set_zip_rightD\<close>)
  show ?thesis
    unfolding kv_new_def Let_def kv_fits_sizes[OF fits]
    apply (rule yields_bnd[OF yields_alloc_buffer_at])
    subgoal for db
      apply (cases db)
       apply (use env in simp)
      apply (simp only: option.case)
      apply (rule yields_bnd[OF yields_init])
      subgoal for buf ctx
        apply (cases ctx)
         apply (use env in simp)
        apply (simp only: option.distinct simp_thms if_False)
        apply (rule yields_bnd[where R = "\<lambda>kvs. \<forall>t\<in>set (fst kvs) \<union> set (snd kvs). ?shape t"])
         apply (rule yields_loop[where I = "\<lambda>kvs. \<forall>t\<in>set (fst kvs) \<union> set (snd kvs). ?shape t"])
          apply (rule kv_layer_yields)
             apply (use fits in auto)[4]
         apply simp
        apply (simp only: split: prod.split)
        apply (intro allI impI)
        apply (rule yields_bnd[OF zeros])
         apply simp
        apply (rule yields_ret, rule TrueI)
        done
      done
    done
qed

text \<open>Over address \<open>base\<close> the 512 rows of every layer fit.\<close>

definition context_fits :: "hparams \<Rightarrow> int \<Rightarrow> bool" where
  "context_fits hp base \<longleftrightarrow> kv_fits base (nat (hp_layer hp)) (hp_head_kv hp) (hdim_of hp) 512"

lemma llama_graph_new_yields:
  assumes "\<And>i. context_fits (hparams_from_model md) (ge_base env i)" "never_fails env" "hp_head (hparams_from_model md) \<noteq> 0"
  shows "yields pan (llama_graph_new env md) (\<lambda>_. True) E"
  unfolding llama_graph_new_def Let_def
  apply (rule yields_bnd[OF yields_acquire])
  subgoal for b
    apply (cases b)
     apply (use assms(2) in simp)
    apply (simp only: option.case)
    apply (rule yields_bnd[OF yields_head_dim[OF disjI2[OF assms(3)]]])
    apply (rule yields_bnd[OF kv_new_yields])
      apply (use assms in \<open>simp_all add: context_fits_def\<close>)
    apply (rule yields_ret, rule TrueI)
    done
  done


lemma yields_returns:
  assumes "yields False m R (\<lambda>_. False)"
  obtains x w' where "m w = (Ret x, w')" "R x"
proof -
  have "ends_in (\<lambda>x _. R x) (\<lambda>_ _. False) False (m w)" using assms by (simp add: yields_def spec_def)
  then show ?thesis by (rule ends_in_ret) (rule that)
qed

lemma llama_graph_new_returns:
  assumes "\<And>i. context_fits (hparams_from_model md) (ge_base env i)" "never_fails env" "hp_head (hparams_from_model md) \<noteq> 0"
  obtains lg w' where "llama_graph_new env md w = (Ret lg, w')"
  using yields_returns[OF llama_graph_new_yields[OF assms], of w] by metis

text \<open>A model without an embedding table fails every prefill, with the resources of the inputs live.\<close>

lemma forward_build_missing:
  assumes "never_fails env" "model_tensor md ''token_embd.weight'' = None" "int (length tokens) < 2 ^ 31"
  shows "yields False (forward_build env md hp kv tokens 0) (\<lambda>_. False) (\<lambda>e. e = TensorNotFound ''token_embd.weight'')"
  unfolding forward_build_def Let_def
  apply (rule yields_bnd[OF forward_inputs_yields[OF assms(3)]])
   apply (use assms(1) in blast)
  subgoal for x
    apply (cases x)
    apply (simp only: prod.case)
    apply (rule yields_bnd[OF yields_init])
    subgoal for ib ic t p cx
      apply (cases cx)
       apply (use assms(1) in simp)
      apply (simp only: option.case)
      apply (rule yields_bnd[where R = "\<lambda>_. False"])
       apply (simp only: top_weight_def assms(2) ok_or_def option.case)
       apply (rule yields_fail, rule refl)
      apply (rule FalseE, assumption)
      done
    done
  done

lemma prefill_missing:
  assumes "never_fails env" "model_tensor md ''token_embd.weight'' = None" "int (length tokens) < 2 ^ 31" "tokens \<noteq> []"
  obtains s' where "prefill env md tokens s = (Fail (FAllocationFailed (GraphMsg (TensorNotFound ''token_embd.weight''))), s')"
proof -
  let ?m = "forward_build env md (lg_hp (eg_graph s)) (lg_kv (eg_graph s)) tokens 0"
  have "ends_in (\<lambda>_ _. False) (\<lambda>e _. e = TensorNotFound ''token_embd.weight'') False (?m (eg_world s))"
    using forward_build_missing[OF assms(1-3)] by (simp add: yields_def spec_def)
  then obtain w' where "?m (eg_world s) = (Fail (TensorNotFound ''token_embd.weight''), w')"
    by (rule ends_in_fail) simp
  then show ?thesis
    using assms(4) that by (simp add: prefill_def forward_def forward_result_def get_graph_def in_world_def bnd_def map_err_def Let_def)
qed

section \<open>A small run\<close>

lemma sample_hparams: "hparams_from_model sample_model = sample_hp"
  by (simp add: hparams_from_model_def sample_model_def sample_hp_def get_u32_def get_f32_def unwrap_or_def
      architecture_def Let_def)

definition sample_world :: world where
  "sample_world = \<lparr>w_next = 0, w_live = [], w_mem = (\<lambda>i. []), w_nodes = [], w_vals = (\<lambda>i. [])\<rparr>"

lemma sample_new:
  assumes "hparams_from_model md = sample_hp"
  obtains lg w' where "llama_graph_new sample_env md sample_world = (Ret lg, w')"
proof (rule llama_graph_new_returns[where env = sample_env and md = md and w = sample_world])
  show "context_fits (hparams_from_model md) (ge_base sample_env i)" for i
    by (simp add: assms context_fits_def kv_fits_def sample_hp_def hdim_of_def sample_env_def)
  show "hp_head (hparams_from_model md) \<noteq> 0" by (simp add: assms sample_hp_def)
qed (use sample_never_fails that in auto)

lemma sample_opened: "\<exists>s. graph_run sample_env sample_model sample_world 0 s"
  using sample_new[OF sample_hparams] graph_run.opened by metis

text \<open>Without its tensors, the model stops the first prefill, and what it acquired stays.\<close>

lemma sample_missing:
  "\<exists>s. graph_run sample_env (sample_model\<lparr>md_tensors := Map.empty\<rparr>) sample_world 1 s"
proof -
  let ?md = "sample_model\<lparr>md_tensors := Map.empty\<rparr>"
  have hp: "hparams_from_model ?md = sample_hp"
    using sample_hparams by (simp add: hparams_from_model_def)
  obtain lg w' where new: "llama_graph_new sample_env ?md sample_world = (Ret lg, w')"
    using sample_new[OF hp] by blast
  let ?s = "\<lparr>eg_graph = lg, eg_world = w'\<rparr>"
  obtain s' where "prefill sample_env ?md [7] ?s = (Fail (FAllocationFailed (GraphMsg (TensorNotFound ''token_embd.weight''))), s')"
    by (rule prefill_missing[OF sample_never_fails, of ?md "[7]" ?s]) (simp_all add: model_tensor_def)
  from graph_run.prefill_failed[OF graph_run.opened[OF new] this] show ?thesis
    by (auto simp: leaked_def is_missing_def)
qed


section \<open>Properties\<close>



text \<open>
  C9: the invariant of every run. Whatever sequence of prefills, decode steps and resets
  follows \<^verbatim>\<open>LlamaGraph::new\<close>, failed calls included, the position stays between 0 and the
  512 rows of the cache, the hyperparameters are the model's, and the engine stays well
  formed: the tensors of the cache have the planned shapes and separate storage, and so have
  the inputs of the decode graph once it is built. What is live beyond the world the engine
  was opened in are its own resources and three for each call that met a missing tensor; nothing
  was freed that was not live.
\<close>

theorem graph_run_invariant:
  assumes "graph_run env md w k s"
  shows "0 \<le> used s \<and> used s \<le> capacity s \<and> capacity s = 512 \<and> lg_hp (eg_graph s) = hparams_from_model md \<and>
    (\<exists>lost. size lost = 3 * k \<and> RDoubleFree \<notin># lost \<and> engine_ok (mset (w_live w) + lost + base_resources (eg_graph s)) s)"
proof -
  have "run_inv md w k s" using assms by (rule graph_run_inv)
  moreover from this obtain L where "engine_ok L s" by (auto simp: run_inv_def)
  from engine_ok_head[OF this] have "0 \<le> used s" "used s \<le> capacity s" by auto
  ultimately show ?thesis unfolding run_inv_def losses_def by blast
qed

theorem graph_run_invariant_witness:
  "\<exists>s. graph_run sample_env sample_model sample_world 0 s \<and> used s \<le> capacity s \<and> capacity s = 512"
proof -
  obtain s where "graph_run sample_env sample_model sample_world 0 s" using sample_opened by blast
  with graph_run_invariant[OF this] show ?thesis by blast
qed

text \<open>
  C15: the resource ledger. Dropping the engine after any run always returns and frees every
  buffer, context, allocator and backend that the engine or its calls acquired, except three
  (an input buffer, an input context and a graph context) for each call that stopped at a
  missing tensor: those two functions leave through \<^verbatim>\<open>?\<close> without freeing them. Nothing is
  ever freed twice.
\<close>

theorem graph_ledger:
  assumes "graph_run env md w k s"
  shows "\<exists>w' lost. llama_graph_drop (eg_graph s) (eg_world s) = (Ret () :: (unit, forward_error) outcome, w') \<and>
    mset (w_live w') = mset (w_live w) + lost \<and> size lost = 3 * k \<and> RDoubleFree \<notin># lost"
proof -
  have "run_inv md w k s" using assms by (rule graph_run_inv)
  then obtain lost M where lost: "size lost = 3 * k" "RDoubleFree \<notin># lost" and
    h: "holds (mset (w_live w) + lost + base_resources (eg_graph s) + dec_resources (eg_graph s)) M (eg_world s)"
    unfolding run_inv_def losses_def engine_ok_def by blast
  have "ends_in (\<lambda>_ w'. holds (mset (w_live w) + lost) M w') (\<lambda>_ _. False) False
      (llama_graph_drop (eg_graph s) (eg_world s) :: (unit, forward_error) outcome \<times> world)"
    using llama_graph_drop_frame[of "mset (w_live w) + lost" "eg_graph s" M "\<lambda>(_ :: forward_error) _. False" False] h
    by (simp add: spec_def)
  then show ?thesis
    by (rule ends_in_ret) (use lost in \<open>auto simp: holds_def\<close>)
qed

theorem graph_ledger_witness:
  "\<exists>s w' lost. graph_run sample_env (sample_model\<lparr>md_tensors := Map.empty\<rparr>) sample_world 1 s \<and>
     llama_graph_drop (eg_graph s) (eg_world s) = (Ret () :: (unit, forward_error) outcome, w') \<and>
     mset (w_live w') = lost \<and> size lost = 3"
proof -
  obtain s where "graph_run sample_env (sample_model\<lparr>md_tensors := Map.empty\<rparr>) sample_world 1 s"
    using sample_missing by blast
  with graph_ledger[OF this] show ?thesis by (fastforce simp: sample_world_def)
qed

text \<open>
  C27: the layout of the cache in its buffer. When the products do not wrap, the key and value
  tensors of the layers are laid out one after the other: keys first, in the order of the
  layers, then values, no two overlap, and the last one ends 1024 bytes before the end of the
  allocation.
\<close>

theorem kv_layout:
  assumes "kv_fits base layers n_head_kv hdim n" "i < layers"
  defines "b \<equiv> kv_bytes_per n_head_kv hdim n"
  shows "base \<le> k_addr base b i \<and> k_addr base b i + b \<le> v_addr base b layers 0 \<and>
    v_addr base b layers i + b + 1024 \<le> base + kv_total_data b layers \<and>
    (\<forall>j<i. k_addr base b j + b \<le> k_addr base b i \<and> v_addr base b layers j + b \<le> v_addr base b layers i)"
proof -
  have b: "b = n_head_kv * hdim * n * 4" "kv_total_data b layers = 2 * int layers * b + 1024"
    using kv_fits_sizes[OF assms(1)] by (simp_all add: b_def)
  have pos: "0 \<le> b" "0 \<le> int i * b" using assms(1) b by (simp_all add: kv_fits_def)
  note a = kv_fits_addr[OF assms(1), folded b(1)]
  have i: "k_addr base b i = base + int i * b" "v_addr base b layers i = base + int layers * b + int i * b"
    "base + int i * b + b \<le> base + int layers * b" "v_addr base b layers 0 = base + int layers * b"
    using a[OF assms(2)] a(2)[of 0] assms(2) by simp_all
  have "int (Suc i) * b \<le> int layers * b" using assms(2) pos(1) by (intro mult_right_mono) auto
  then have fits: "int i * b + b + int layers * b \<le> 2 * int layers * b" by (simp add: algebra_simps)
  have less: "k_addr base b j + b \<le> k_addr base b i \<and> v_addr base b layers j + b \<le> v_addr base b layers i" if "j < i" for j
  proof -
    have "int (Suc j) * b \<le> int i * b" using that pos(1) by (intro mult_right_mono) auto
    then show ?thesis using a(1,2)[of j] that assms(2) i by (simp add: algebra_simps)
  qed
  have "base \<le> k_addr base b i" "k_addr base b i + b \<le> v_addr base b layers 0"
    "v_addr base b layers i + b + 1024 \<le> base + kv_total_data b layers"
    using i fits pos b(2) by linarith+
  then show ?thesis using less by blast
qed

theorem kv_layout_witness:
  "kv_fits 4096 2 1 2 512 \<and> kv_bytes_per 1 2 512 = 4096 \<and>
    v_addr 4096 4096 2 0 + 4096 \<le> v_addr 4096 4096 2 1 \<and> v_addr 4096 4096 2 1 + 4096 + 1024 \<le> 4096 + kv_total_data 4096 2"
proof -
  have f: "kv_fits 4096 2 1 2 512" by (simp add: kv_fits_def)
  have b: "kv_bytes_per 1 2 512 = 4096" using kv_fits_sizes(1)[OF f] by simp
  show ?thesis using kv_layout[OF f, of 1] f unfolding b by simp
qed

end
