(* ===== verification/Generate.thy ===== *)
theory Generate imports Graph Logits begin

text \<open>
  \<^verbatim>\<open>src/src/generate.rs\<close>: the autoregressive loop, single-shot generation, one chat turn, the
  Llama 3.1 chat template and the session. The loop is written over the operations of the
  forward pass it is given, \<open>engine_ops\<close>; \<open>graph_ops\<close> are those of the inference graph.
  The clock, the standard output, the exponential and the sorting routines belong to the
  host. What goes to standard error is not modelled.
\<close>

section \<open>Errors and configuration\<close>

datatype generate_error =
    GForward forward_error | GLogit logit_error | GIo | GEmptyPrompt
  | GContextLengthExceeded nat | GContextFull int int

record generate_config =
  gc_max_new_tokens :: nat
  gc_sampling :: sampling_config
  gc_context_len :: nat
  gc_print_timing :: bool
  gc_add_bos :: bool
  gc_chat_template :: bool

definition default_generate :: generate_config where
  "default_generate =
     \<lparr>gc_max_new_tokens = 512, gc_sampling = default_sampling, gc_context_len = 4096,
      gc_print_timing = True, gc_add_bos = True, gc_chat_template = True\<rparr>"

record generate_stats =
  gs_prompt_tokens :: nat
  gs_generated_tokens :: nat
  gs_prompt_ms :: f64
  gs_generate_ms :: f64

definition tokens_per_second :: "generate_stats \<Rightarrow> f64" where
  "tokens_per_second st =
     (if less64 (gs_generate_ms st) (of_nat64 1) then of_nat64 0
      else div64 (of_nat64 (gs_generated_tokens st)) (div64 (gs_generate_ms st) (of_nat64 1000)))"

text \<open>\<^verbatim>\<open>{:.p}\<close>: the exact value in decimal, ties to even.\<close>

definition format64 :: "nat \<Rightarrow> f64 \<Rightarrow> string" where
  "format64 p x =
     (let m = snd (num64 x); n = rne (unit_val 52 m * 10 ^ p) (2 ^ unit_exp 52 11);
          ds = dec_digits (n mod 10 ^ p)
      in if is_nan64 x then ''NaN''
         else (if fst (num64 x) then ''-'' else []) @
           (if m = inf_mag 52 11 then ''inf''
            else dec_digits (n div 10 ^ p) @
              (if p = 0 then [] else ''.'' @ replicate (p - length ds) (CHR ''0'') @ ds)))"

definition newlines :: string where
  "newlines = [CHR 0x0A, CHR 0x0A]"

text \<open>\<^verbatim>\<open>Display\<close> for the statistics.\<close>

definition show_stats :: "generate_stats \<Rightarrow> string" where
  "show_stats st =
     newlines @ ''[Z.1] prompt: '' @ dec_digits (gs_prompt_tokens st) @ '' tokens ('' @
     format64 0 (gs_prompt_ms st) @ ''ms) | generated: '' @ dec_digits (gs_generated_tokens st) @
     '' tokens ('' @ format64 0 (gs_generate_ms st) @ ''ms, '' @
     format64 2 (tokens_per_second st) @ '' tok/s)''"

section \<open>The host\<close>

text \<open>
  The readings of the system clock and the lengths of the timed intervals in seconds, by
  number of the reading; for each write to standard output, \<open>None\<close> or the number of bytes
  after which it failed; for each flush, whether it worked.
\<close>

record host =
  ho_expf :: "f32 \<Rightarrow> f32"
  ho_sort :: std_sort
  ho_now :: "nat \<Rightarrow> (u64 \<times> u32) option"
  ho_secs :: "nat \<Rightarrow> f64"
  ho_write :: "nat \<Rightarrow> nat option"
  ho_flush :: "nat \<Rightarrow> bool"

record 'e app =
  ap_engine :: 'e
  ap_tick :: nat
  ap_out :: string

definition get_app :: "('e app, 'e app, 'x) sm" where
  "get_app a = (Ret a, a)"

definition tick :: "'e app \<Rightarrow> 'e app" where
  "tick a = a\<lparr>ap_tick := Suc (ap_tick a)\<rparr>"

definition elapsed_ms :: "host \<Rightarrow> ('e app, f64, 'x) sm" where
  "elapsed_ms ho a = (Ret (mul64 (ho_secs ho (ap_tick a)) (of_nat64 1000)), tick a)"

definition time_seed :: "host \<Rightarrow> ('e app, u64, 'x) sm" where
  "time_seed ho a = (Ret (rng_seed_from_time (ho_now ho (ap_tick a))), tick a)"

text \<open>\<^verbatim>\<open>write_all\<close>, and \<^verbatim>\<open>print!\<close>, which panics when the write fails.\<close>

definition write_all :: "host \<Rightarrow> string \<Rightarrow> ('e app, unit, generate_error) sm" where
  "write_all ho s a =
     (case ho_write ho (ap_tick a) of
        None \<Rightarrow> (Ret (), tick a\<lparr>ap_out := ap_out a @ s\<rparr>)
      | Some k \<Rightarrow> (Fail GIo, tick a\<lparr>ap_out := ap_out a @ take k s\<rparr>))"

definition flush_out :: "host \<Rightarrow> ('e app, unit, generate_error) sm" where
  "flush_out ho a = (if ho_flush ho (ap_tick a) then Ret () else Fail GIo, tick a)"

definition print_out :: "host \<Rightarrow> string \<Rightarrow> ('e app, unit, 'x) sm" where
  "print_out ho s a =
     (case write_all ho s a of (Ret _, a') \<Rightarrow> (Ret (), a') | (_, a') \<Rightarrow> (Panic, a'))"

section \<open>The forward pass\<close>

record 'e engine_ops =
  eo_prefill :: "u32 list \<Rightarrow> ('e, f32 list, forward_error) sm"
  eo_decode_one :: "u32 \<Rightarrow> ('e, f32 list, forward_error) sm"
  eo_reset_kv :: "('e, unit, forward_error) sm"
  eo_head :: "'e \<Rightarrow> int"
  eo_n_ctx :: "'e \<Rightarrow> int"

definition graph_ops :: "ggml_env \<Rightarrow> model \<Rightarrow> engine engine_ops" where
  "graph_ops env md =
     \<lparr>eo_prefill = prefill env md, eo_decode_one = graph_decode_one env md, eo_reset_kv = reset_kv,
      eo_head = (\<lambda>e. kv_head (lg_kv (eg_graph e))), eo_n_ctx = (\<lambda>e. kv_n_ctx (lg_kv (eg_graph e)))\<rparr>"

definition on_engine :: "('e, 'a, forward_error) sm \<Rightarrow> ('e app, 'a, generate_error) sm" where
  "on_engine m a =
     (case m (ap_engine a) of (r, e) \<Rightarrow> (res_map_err GForward r, a\<lparr>ap_engine := e\<rparr>))"

section \<open>The generation loop\<close>

definition sample_next ::
    "host \<Rightarrow> generate_config \<Rightarrow> f32 list \<Rightarrow> u32 list \<Rightarrow> u64 \<Rightarrow> ('e app, u32 \<times> u64, generate_error) sm" where
  "sample_next ho cfg logits recent rng =
     lift_outcome (res_map_err GLogit (sample_token (ho_expf ho) (ho_sort ho) logits (gc_sampling cfg) recent rng))"

definition push_recent :: "u32 \<Rightarrow> u32 list \<Rightarrow> u32 list" where
  "push_recent t recent = (let r = recent @ [t] in if 64 < length r then tl r else r)"

text \<open>A decoded piece is collected or printed and flushed; control tokens have none.\<close>

definition emit_piece :: "host \<Rightarrow> bool \<Rightarrow> string option \<Rightarrow> string \<Rightarrow> ('e app, string, generate_error) sm" where
  "emit_piece ho quiet piece txt =
     (case piece of
        None \<Rightarrow> ret txt
      | Some p \<Rightarrow>
          if quiet then ret (txt @ p)
          else bnd (write_all ho p) (\<lambda>_. bnd (flush_out ho) (\<lambda>_. ret txt)))"

lemma bnd_cong [fundef_cong]:
  assumes "m = m'" "a = a'" "\<And>x s. m' a' = (Ret x, s) \<Longrightarrow> f x s = g x s"
  shows "bnd m f a = bnd m' g a'"
  using assms by (auto simp: bnd_def split: prod.splits outcome.splits)

function gen_loop ::
    "'e engine_ops \<Rightarrow> host \<Rightarrow> tokenizer \<Rightarrow> generate_config \<Rightarrow> bool \<Rightarrow> int \<Rightarrow>
     u32 \<Rightarrow> u64 \<Rightarrow> u32 list \<Rightarrow> nat \<Rightarrow> string \<Rightarrow> ('e app, nat \<times> string, generate_error) sm" where
  "gen_loop ops ho tok cfg quiet n_ctx next_token rng recent generated txt a =
     (if is_eos next_token then ret (generated, txt) a
      else if gc_max_new_tokens cfg \<le> generated then ret (generated, txt) a
      else if n_ctx \<le> eo_head ops (ap_engine a) then ret (generated, txt) a
      else
      bnd (emit_piece ho quiet (decode_one tok next_token) txt) (\<lambda>txt.
      let recent = push_recent next_token recent in
      bnd (on_engine (eo_decode_one ops next_token)) (\<lambda>logits.
      bnd (sample_next ho cfg logits recent rng) (\<lambda>(next_token, rng).
      gen_loop ops ho tok cfg quiet n_ctx next_token rng recent (Suc generated) txt))) a)"
  by pat_completeness auto
termination
  by (relation "measure (\<lambda>(ops, ho, tok, cfg, quiet, n_ctx, next_token, rng, recent, generated, txt, a).
      gc_max_new_tokens cfg - generated)") auto

declare gen_loop.simps [simp del]

definition run_generation_inner ::
    "'e engine_ops \<Rightarrow> host \<Rightarrow> tokenizer \<Rightarrow> generate_config \<Rightarrow> bool \<Rightarrow> u32 list \<Rightarrow>
     ('e app, generate_stats \<times> string, generate_error) sm" where
  "run_generation_inner ops ho tok cfg quiet turn_ids =
     (if turn_ids = [] then fail GEmptyPrompt
      else
      bnd get_app (\<lambda>a.
      let n_ctx = eo_n_ctx ops (ap_engine a); used = eo_head ops (ap_engine a); needed = int (length turn_ids) in
      if n_ctx < used + needed then fail (GContextFull (used + needed) n_ctx)
      else
      bnd (on_engine (eo_prefill ops turn_ids)) (\<lambda>logits.
      bnd (elapsed_ms ho) (\<lambda>prompt_ms.
      bnd (time_seed ho) (\<lambda>rng.
      bnd (sample_next ho cfg logits [] rng) (\<lambda>(next_token, rng).
      bnd (if quiet then ret () else print_out ho [CHR 0x0A]) (\<lambda>_.
      bnd (gen_loop ops ho tok cfg quiet n_ctx next_token rng [] 0 []) (\<lambda>(generated, txt).
      bnd (elapsed_ms ho) (\<lambda>generate_ms.
      ret (\<lparr>gs_prompt_tokens = length turn_ids, gs_generated_tokens = generated,
            gs_prompt_ms = prompt_ms, gs_generate_ms = generate_ms\<rparr>, txt))))))))))"

definition run_generation ::
    "'e engine_ops \<Rightarrow> host \<Rightarrow> tokenizer \<Rightarrow> generate_config \<Rightarrow> u32 list \<Rightarrow> ('e app, generate_stats, generate_error) sm" where
  "run_generation ops ho tok cfg turn_ids =
     bnd (run_generation_inner ops ho tok cfg False turn_ids) (\<lambda>(stats, _). ret stats)"

definition run_generation_captured ::
    "'e engine_ops \<Rightarrow> host \<Rightarrow> tokenizer \<Rightarrow> generate_config \<Rightarrow> u32 list \<Rightarrow>
     ('e app, generate_stats \<times> string, generate_error) sm" where
  "run_generation_captured ops ho tok cfg turn_ids = run_generation_inner ops ho tok cfg True turn_ids"

section \<open>The chat template\<close>

definition T_BOS :: u32 where "T_BOS = 128000"
definition T_START_HEADER :: u32 where "T_START_HEADER = 128006"
definition T_END_HEADER :: u32 where "T_END_HEADER = 128007"
definition T_EOT :: u32 where "T_EOT = 128009"
definition T_NEWLINES :: u32 where "T_NEWLINES = 271"

text \<open>\<^verbatim>\<open>ids.extend_from_slice(&tok.encode_no_bos(..))\<close>; the encoder has no error.\<close>

definition extend_encoded :: "tokenizer \<Rightarrow> string \<Rightarrow> u32 list \<Rightarrow> (u32 list, generate_error) outcome" where
  "extend_encoded tok s ids =
     (case encode_no_bos tok s of Ret ts \<Rightarrow> Ret (ids @ ts) | _ \<Rightarrow> Panic)"

text \<open>The user's message between headers, and the header of the reply.\<close>

definition user_turn :: "tokenizer \<Rightarrow> string \<Rightarrow> u32 list \<Rightarrow> (u32 list, generate_error) outcome" where
  "user_turn tok user_message ids =
     res_bind (extend_encoded tok ''user'' (ids @ [T_START_HEADER])) (\<lambda>ids.
     res_bind (extend_encoded tok (newlines @ user_message) (ids @ [T_END_HEADER])) (\<lambda>ids.
     Ret (ids @ [T_EOT])))"

definition assistant_header :: "tokenizer \<Rightarrow> u32 list \<Rightarrow> (u32 list, generate_error) outcome" where
  "assistant_header tok ids =
     res_bind (extend_encoded tok ''assistant'' (ids @ [T_START_HEADER])) (\<lambda>ids.
     Ret (ids @ [T_END_HEADER, T_NEWLINES]))"

definition build_chat_tokens :: "tokenizer \<Rightarrow> string \<Rightarrow> (u32 list, generate_error) outcome" where
  "build_chat_tokens tok user_message =
     res_bind (extend_encoded tok ''system'' [T_BOS, T_START_HEADER]) (\<lambda>ids.
     res_bind (extend_encoded tok (newlines @ ''You are a helpful AI assistant.'') (ids @ [T_END_HEADER])) (\<lambda>ids.
     res_bind (user_turn tok user_message (ids @ [T_EOT])) (\<lambda>ids.
     assistant_header tok ids)))"

definition build_followup_chat_tokens :: "tokenizer \<Rightarrow> string \<Rightarrow> (u32 list, generate_error) outcome" where
  "build_followup_chat_tokens tok user_message =
     res_bind (user_turn tok user_message []) (\<lambda>ids. assistant_header tok ids)"

definition llama3_chat_template :: "string \<Rightarrow> string" where
  "llama3_chat_template user_message = user_message"

section \<open>Trimming\<close>

text \<open>The encodings of the characters with the Unicode property \<^verbatim>\<open>White_Space\<close>.\<close>

definition white_spaces :: "u8 list list" where
  "white_spaces =
     [[0x09], [0x0A], [0x0B], [0x0C], [0x0D], [0x20], [0xC2, 0x85], [0xC2, 0xA0], [0xE1, 0x9A, 0x80],
      [0xE2, 0x80, 0x80], [0xE2, 0x80, 0x81], [0xE2, 0x80, 0x82], [0xE2, 0x80, 0x83], [0xE2, 0x80, 0x84],
      [0xE2, 0x80, 0x85], [0xE2, 0x80, 0x86], [0xE2, 0x80, 0x87], [0xE2, 0x80, 0x88], [0xE2, 0x80, 0x89],
      [0xE2, 0x80, 0x8A], [0xE2, 0x80, 0xA8], [0xE2, 0x80, 0xA9], [0xE2, 0x80, 0xAF], [0xE2, 0x81, 0x9F],
      [0xE3, 0x80, 0x80]]"

text \<open>Drops prefixes from the given list while there is one.\<close>

function strip_all :: "u8 list list \<Rightarrow> u8 list \<Rightarrow> u8 list" where
  "strip_all ws bs =
     (case find (\<lambda>w. w \<noteq> [] \<and> take (length w) bs = w) ws of
        None \<Rightarrow> bs
      | Some w \<Rightarrow> strip_all ws (drop (length w) bs))"
  by pat_completeness auto
termination
proof (relation "measure (\<lambda>(ws, bs). length bs)")
  fix ws bs w assume "find (\<lambda>w. w \<noteq> [] \<and> take (length w) bs = w) ws = Some (w :: u8 list)"
  then have "w \<noteq> []" "take (length w) bs = w" by (auto simp: find_Some_iff)
  then have "bs \<noteq> []" "length w \<noteq> 0" by auto
  then show "((ws, drop (length w) bs), ws, bs) \<in> measure (\<lambda>(ws, bs). length bs)" by simp
qed simp

declare strip_all.simps [simp del]

definition trim :: "string \<Rightarrow> string" where
  "trim s =
     of_bytes (rev (strip_all (map rev white_spaces) (rev (strip_all white_spaces (as_bytes s)))))"

section \<open>Entry points\<close>

definition generate ::
    "'e engine_ops \<Rightarrow> host \<Rightarrow> tokenizer \<Rightarrow> generate_config \<Rightarrow> string \<Rightarrow> ('e app, generate_stats, generate_error) sm" where
  "generate ops ho tok cfg prompt =
     (if trim prompt = [] then fail GEmptyPrompt
      else
      bnd (on_engine (eo_reset_kv ops)) (\<lambda>_.
      bnd (lift_outcome
            (if gc_chat_template cfg then build_chat_tokens tok prompt
             else case encode tok prompt (gc_add_bos cfg) of Ret ts \<Rightarrow> Ret ts | _ \<Rightarrow> Panic)) (\<lambda>prompt_ids.
      if prompt_ids = [] then fail GEmptyPrompt
      else if gc_context_len cfg \<le> length prompt_ids then fail (GContextLengthExceeded (gc_context_len cfg))
      else
      bnd (run_generation ops ho tok cfg prompt_ids) (\<lambda>stats.
      bnd (on_engine (eo_reset_kv ops)) (\<lambda>_.
      ret stats)))))"

definition generate_turn ::
    "'e engine_ops \<Rightarrow> host \<Rightarrow> tokenizer \<Rightarrow> generate_config \<Rightarrow> string \<Rightarrow> nat \<Rightarrow>
     ('e app, generate_stats, generate_error) sm" where
  "generate_turn ops ho tok cfg user_message turn_number =
     (if trim user_message = [] then fail GEmptyPrompt
      else
      bnd (lift_outcome
            (if turn_number = 0 then build_chat_tokens tok user_message
             else build_followup_chat_tokens tok user_message)) (\<lambda>turn_ids.
      run_generation ops ho tok cfg turn_ids))"

section \<open>Sessions\<close>

record session =
  ss_turn_count :: nat
  ss_context_len :: nat

definition session_new :: "nat \<Rightarrow> session" where
  "session_new context_len = \<lparr>ss_turn_count = 0, ss_context_len = context_len\<rparr>"

definition session_is_empty :: "session \<Rightarrow> bool" where
  "session_is_empty se \<longleftrightarrow> ss_turn_count se = 0"

definition record_turn :: "session \<Rightarrow> session" where
  "record_turn se = se\<lparr>ss_turn_count := ss_turn_count se + 1\<rparr>"

end
