(* ===== verification/Program.thy ===== *)
theory Program imports Generate begin

text \<open>
  \<^verbatim>\<open>src/src/main.rs\<close>: the command line, the extraction of the vocabulary from the header,
  loading, the chat REPL, the benchmark and the dispatch with its exit codes. Standard input
  is the list of lines it yields, which ends at the end of input or at a read error. What
  goes to standard error is not modelled.
\<close>

section \<open>Numbers on the command line\<close>

definition is_dec :: "char \<Rightarrow> bool" where
  "is_dec c \<longleftrightarrow> 48 \<le> (of_char c :: nat) \<and> (of_char c :: nat) \<le> 57"

definition dec_val :: "string \<Rightarrow> nat" where
  "dec_val s = foldl (\<lambda>n c. n * 10 + (of_char c - 48)) 0 s"

text \<open>\<^verbatim>\<open>str::parse::<usize>\<close>.\<close>

definition parse_usize :: "string \<Rightarrow> nat option" where
  "parse_usize s =
     (let ds = (if s \<noteq> [] \<and> hd s = CHR ''+'' then tl s else s) in
      if ds = [] \<or> \<not> list_all is_dec ds then None
      else if 2 ^ 64 \<le> dec_val ds then None else Some (dec_val ds))"

definition to_lower :: "char \<Rightarrow> char" where
  "to_lower c = (let n = of_char c :: nat in if 65 \<le> n \<and> n \<le> 90 then char_of (n + 32) else c)"

text \<open>\<^verbatim>\<open>str::parse::<f32>\<close>: the nearest value of the decimal, ties to even.\<close>

definition split_sign :: "string \<Rightarrow> bool \<times> string" where
  "split_sign s =
     (case s of [] \<Rightarrow> (False, s)
      | c # r \<Rightarrow> if c = CHR ''-'' then (True, r) else if c = CHR ''+'' then (False, r) else (False, s))"

definition parse_exponent :: "string \<Rightarrow> int option" where
  "parse_exponent s =
     (case s of
        [] \<Rightarrow> Some 0
      | c # r \<Rightarrow>
          if to_lower c \<noteq> CHR ''e'' then None
          else let (neg, ds) = split_sign r in
            if ds = [] \<or> \<not> list_all is_dec ds then None
            else Some (if neg then - int (dec_val ds) else int (dec_val ds)))"

definition decimal32 :: "nat \<Rightarrow> int \<Rightarrow> f32" where
  "decimal32 n e = (if 0 \<le> e then lit32 (n * 10 ^ nat e) 1 else lit32 n (10 ^ nat (- e)))"

definition parse_decimal32 :: "string \<Rightarrow> f32 option" where
  "parse_decimal32 s =
     (let ip = takeWhile is_dec s; r = dropWhile is_dec s;
          fp = (if r \<noteq> [] \<and> hd r = CHR ''.'' then takeWhile is_dec (tl r) else []);
          r = (if r \<noteq> [] \<and> hd r = CHR ''.'' then dropWhile is_dec (tl r) else r)
      in if ip @ fp = [] then None
         else map_option (\<lambda>e. decimal32 (dec_val (ip @ fp)) (e - int (length fp))) (parse_exponent r))"

definition parse_f32 :: "string \<Rightarrow> f32 option" where
  "parse_f32 s =
     (let (neg, r) = split_sign s; l = map to_lower r;
          m = (if l = ''inf'' \<or> l = ''infinity'' then Some (mk32 (False, inf_mag 23 8))
               else if l = ''nan'' then Some (mk32 (fnum_nan 23 8))
               else parse_decimal32 r)
      in map_option (\<lambda>x. if neg then mk32 (fnum_neg (num32 x)) else x) m)"

section \<open>Arguments\<close>

record args =
  ar_model_path :: "string option"
  ar_prompt :: "string option"
  ar_chat :: bool
  ar_bench :: bool
  ar_max_tokens :: "nat option"
  ar_temperature :: "f32 option"
  ar_top_p :: "f32 option"
  ar_no_chat_template :: bool
  ar_help :: bool

definition default_args :: args where
  "default_args =
     \<lparr>ar_model_path = None, ar_prompt = None, ar_chat = False, ar_bench = False, ar_max_tokens = None,
      ar_temperature = None, ar_top_p = None, ar_no_chat_template = False, ar_help = False\<rparr>"

text \<open>\<^verbatim>\<open>raw.get(i)\<close> after the increment.\<close>

definition next_arg :: "string list \<Rightarrow> string option" where
  "next_arg rest = (case rest of [] \<Rightarrow> None | v # _ \<Rightarrow> Some v)"

fun arg_loop :: "args \<Rightarrow> string list \<Rightarrow> args" where
  "arg_loop a [] = a"
| "arg_loop a (o1 # rest) =
     (if o1 = ''--model'' \<or> o1 = ''-m'' then arg_loop (a\<lparr>ar_model_path := next_arg rest\<rparr>) (tl rest)
      else if o1 = ''--prompt'' \<or> o1 = ''-p'' then arg_loop (a\<lparr>ar_prompt := next_arg rest\<rparr>) (tl rest)
      else if o1 = ''--chat'' \<or> o1 = ''-c'' then arg_loop (a\<lparr>ar_chat := True\<rparr>) rest
      else if o1 = ''--bench'' \<or> o1 = ''-b'' then arg_loop (a\<lparr>ar_bench := True\<rparr>) rest
      else if o1 = ''--no-template'' then arg_loop (a\<lparr>ar_no_chat_template := True\<rparr>) rest
      else if o1 = ''--help'' \<or> o1 = ''-h'' then arg_loop (a\<lparr>ar_help := True\<rparr>) rest
      else if o1 = ''--max-tokens'' \<or> o1 = ''-n'' then
        arg_loop (a\<lparr>ar_max_tokens := Option.bind (next_arg rest) parse_usize\<rparr>) (tl rest)
      else if o1 = ''--temperature'' \<or> o1 = ''-t'' then
        arg_loop (a\<lparr>ar_temperature := Option.bind (next_arg rest) parse_f32\<rparr>) (tl rest)
      else if o1 = ''--top-p'' then
        arg_loop (a\<lparr>ar_top_p := Option.bind (next_arg rest) parse_f32\<rparr>) (tl rest)
      else arg_loop a rest)"

definition parse_args :: "string list \<Rightarrow> args" where
  "parse_args raw = arg_loop default_args raw"

section \<open>The help text\<close>

definition DEFAULT_MODEL :: string where
  "DEFAULT_MODEL = ''models/Meta-Llama-3.1-8B-Instruct-Q4_K_M.gguf''"

definition help_text :: string where
  "help_text = [CHR 0x0A] @ concat (map (\<lambda>l. l @ [CHR 0x0A])
      [''Z.1 '' @ of_bytes [0xE2, 0x80, 0x94] @ '' Local LLM inference engine (Llama 3.1 8B, zero-copy inference engine)'',
       [],
       ''USAGE:'',
       ''    z1 [OPTIONS]'',
       [],
       ''OPTIONS:'',
       ''    -m, --model <path>       Path to GGUF model file'',
       ''                             [default: '' @ DEFAULT_MODEL @ '']'',
       ''    -p, --prompt <text>      Single-shot prompt (non-interactive)'',
       ''    -c, --chat               Interactive multi-turn chat REPL'',
       ''    -b, --bench              Run benchmark harness and print tok/s'',
       ''    -n, --max-tokens <N>     Maximum tokens to generate  [default: 512]'',
       ''    -t, --temperature <f>    Sampling temperature        [default: 0.7]'',
       ''        --top-p <f>          Nucleus sampling threshold  [default: 0.9]'',
       ''        --no-template        Skip Llama 3.1 chat template wrapping'',
       ''    -h, --help               Print this help'',
       [],
       ''EXAMPLES:'',
       ''    z1 --prompt \"Explain quantum entanglement in simple terms\"'',
       ''    z1 --chat'',
       ''    z1 --bench'',
       ''    z1 --model /data/models/llama-3.1-8b.gguf --chat'']) @ [CHR 0x0A]"

section \<open>Loading\<close>

datatype boot_error =
    BootHeader gguf_error | BootLoad load_error | BootMissing string | BootNotArray string
  | BootTokenizer tokenizer_error

text \<open>Elements of another type are dropped from an array without a word.\<close>

definition extract_string_array :: "gguf_meta \<Rightarrow> string \<Rightarrow> (string list, boot_error) outcome" where
  "extract_string_array meta key =
     (case meta key of
        Some (VArray arr) \<Rightarrow> Ret (List.map_filter (\<lambda>v. case v of VString s \<Rightarrow> Some s | _ \<Rightarrow> None) arr)
      | None \<Rightarrow> Fail (BootMissing key)
      | _ \<Rightarrow> Fail (BootNotArray key))"

definition extract_f32_array :: "gguf_meta \<Rightarrow> string \<Rightarrow> (f32 list, boot_error) outcome" where
  "extract_f32_array meta key =
     (case meta key of
        Some (VArray arr) \<Rightarrow> Ret (List.map_filter (\<lambda>v. case v of VF32 f \<Rightarrow> Some f | _ \<Rightarrow> None) arr)
      | None \<Rightarrow> Ret []
      | _ \<Rightarrow> Fail (BootNotArray key))"

definition extract_u32_array :: "gguf_meta \<Rightarrow> string \<Rightarrow> (u32 list, boot_error) outcome" where
  "extract_u32_array meta key =
     (case meta key of
        Some (VArray arr) \<Rightarrow> Ret (List.map_filter (\<lambda>v. case v of VU32 u \<Rightarrow> Some u | _ \<Rightarrow> None) arr)
      | None \<Rightarrow> Ret []
      | _ \<Rightarrow> Fail (BootNotArray key))"

text \<open>\<^verbatim>\<open>unwrap_or_default\<close> on a list.\<close>

definition or_empty :: "('a list, 'x) outcome \<Rightarrow> 'a list" where
  "or_empty r = (case r of Ret xs \<Rightarrow> xs | _ \<Rightarrow> [])"

definition build_tokenizer :: "gguf_header \<Rightarrow> (tokenizer, boot_error) outcome" where
  "build_tokenizer header =
     (let meta = gh_metadata header in
      res_bind (extract_string_array meta ''tokenizer.ggml.tokens'') (\<lambda>tokens.
      let scores = or_empty (extract_f32_array meta ''tokenizer.ggml.scores'');
          types = or_empty (extract_u32_array meta ''tokenizer.ggml.token_type'');
          merges = or_empty (extract_string_array meta ''tokenizer.ggml.merges'')
      in res_map_err BootTokenizer (from_gguf_parts tokens scores types merges)))"

definition config_of :: "args \<Rightarrow> generate_config" where
  "config_of a =
     (let sampling = default_sampling;
          sampling = (case ar_temperature a of None \<Rightarrow> sampling | Some t \<Rightarrow> sampling\<lparr>sc_temperature := t\<rparr>);
          sampling = (case ar_top_p a of None \<Rightarrow> sampling | Some p \<Rightarrow> sampling\<lparr>sc_top_p := p\<rparr>)
      in \<lparr>gc_max_new_tokens = unwrap_or (ar_max_tokens a) 512, gc_sampling = sampling, gc_context_len = 4096,
          gc_print_timing = True, gc_add_bos = True, gc_chat_template = \<not> ar_no_chat_template a\<rparr>)"

definition load_model ::
    "allocator \<Rightarrow> (string \<Rightarrow> u8 list option) \<Rightarrow> os_env \<Rightarrow> ggml_env \<Rightarrow> string \<Rightarrow> args \<Rightarrow>
     (sys, gguf_header \<times> model \<times> generate_config, boot_error) sm" where
  "load_model al fs oenv env path a =
     bnd (lift_outcome (res_map_err BootHeader (gguf_from_file al fs path))) (\<lambda>header.
     bnd (map_err BootLoad (mapped_model_load al fs oenv env path)) (\<lambda>md.
     ret (header, md, config_of a)))"


section \<open>Single-shot generation\<close>

text \<open>\<^verbatim>\<open>match\<close> on a result instead of \<^verbatim>\<open>?\<close>.\<close>

definition attempt :: "('s, 'a, 'e) sm \<Rightarrow> ('s, 'e + 'a, 'x) sm" where
  "attempt m s =
     (case m s of
        (Ret x, s') \<Rightarrow> (Ret (Inr x), s')
      | (Fail e, s') \<Rightarrow> (Ret (Inl e), s')
      | (Panic, s') \<Rightarrow> (Panic, s'))"

text \<open>False when the process exits with status 1.\<close>

definition run_prompt ::
    "'e engine_ops \<Rightarrow> host \<Rightarrow> tokenizer \<Rightarrow> generate_config \<Rightarrow> string \<Rightarrow> ('e app, bool, generate_error) sm" where
  "run_prompt ops ho tok cfg prompt =
     bnd (attempt (generate ops ho tok cfg prompt)) (\<lambda>r.
     case r of
       Inr _ \<Rightarrow> bnd (print_out ho [CHR 0x0A]) (\<lambda>_. ret True)
     | Inl _ \<Rightarrow> ret False)"

section \<open>The chat REPL\<close>

definition goodbye :: string where
  "goodbye = ''[Z.1] Goodbye.'' @ [CHR 0x0A]"

text \<open>One round: \<open>None\<close> leaves the loop.\<close>

definition chat_line ::
    "'e engine_ops \<Rightarrow> host \<Rightarrow> tokenizer \<Rightarrow> generate_config \<Rightarrow> session \<Rightarrow> string \<Rightarrow>
     ('e app, session option, generate_error) sm" where
  "chat_line ops ho tok cfg se line =
     bnd (print_out ho ''You: '') (\<lambda>_.
     let trimmed = trim line in
     if trimmed = [] then ret (Some se)
     else if trimmed = ''/reset'' then
       bnd (on_engine (eo_reset_kv ops)) (\<lambda>_. ret (Some (session_new (gc_context_len cfg))))
     else if trimmed = ''/quit'' \<or> trimmed = ''/exit'' then
       bnd (print_out ho goodbye) (\<lambda>_. ret None)
     else
       bnd (print_out ho ''Z.1:  '') (\<lambda>_.
       bnd (attempt (generate_turn ops ho tok cfg trimmed (ss_turn_count se))) (\<lambda>r.
       case r of
         Inr _ \<Rightarrow> bnd (print_out ho [CHR 0x0A]) (\<lambda>_. ret (Some (record_turn se)))
       | Inl _ \<Rightarrow> ret (Some se))))"

fun chat_loop ::
    "'e engine_ops \<Rightarrow> host \<Rightarrow> tokenizer \<Rightarrow> generate_config \<Rightarrow> session \<Rightarrow> string list \<Rightarrow>
     ('e app, unit, generate_error) sm" where
  "chat_loop ops ho tok cfg se [] =
     bnd (print_out ho ''You: '') (\<lambda>_. print_out ho ([CHR 0x0A] @ goodbye))"
| "chat_loop ops ho tok cfg se (line # rest) =
     bnd (chat_line ops ho tok cfg se line) (\<lambda>r.
     case r of None \<Rightarrow> ret () | Some se \<Rightarrow> chat_loop ops ho tok cfg se rest)"

definition run_chat ::
    "'e engine_ops \<Rightarrow> host \<Rightarrow> tokenizer \<Rightarrow> generate_config \<Rightarrow> string list \<Rightarrow> ('e app, unit, generate_error) sm" where
  "run_chat ops ho tok cfg lines =
     bnd (print_out ho (''[Z.1] Interactive chat '' @ of_bytes [0xE2, 0x80, 0x94] @
            '' type your message, Enter to send, Ctrl-C to exit.'' @ [CHR 0x0A])) (\<lambda>_.
     bnd get_app (\<lambda>a.
     bnd (print_out ho (''[Z.1] Conversation context: '' @ dec_digits (nat (eo_n_ctx ops (ap_engine a))) @
            '' tokens. Use /reset to start a new conversation.'' @ newlines)) (\<lambda>_.
     chat_loop ops ho tok cfg (session_new (gc_context_len cfg)) lines)))"

section \<open>The benchmark\<close>

definition contains :: "string \<Rightarrow> string \<Rightarrow> bool" where
  "contains s p \<longleftrightarrow> list_ex (\<lambda>i. take (length p) (drop i s) = p) [0..<Suc (length s)]"

definition min64 :: "f64 \<Rightarrow> f64 \<Rightarrow> f64" where
  "min64 x y = (if is_nan64 x then y else if is_nan64 y then x else if less64 y x then y else x)"

definition max64 :: "f64 \<Rightarrow> f64 \<Rightarrow> f64" where
  "max64 x y = (if is_nan64 x then y else if is_nan64 y then x else if less64 x y then y else x)"

definition mean64 :: "f64 list \<Rightarrow> f64" where
  "mean64 xs = div64 (foldl add64 (of_nat64 0) xs) (of_nat64 (length xs))"

definition F64_MAX :: f64 where "F64_MAX = Bits64 0x7FEFFFFFFFFFFFFF"
definition F64_MIN :: f64 where "F64_MIN = Bits64 0xFFEFFFFFFFFFFFFF"

definition speed_run ::
    "'e engine_ops \<Rightarrow> host \<Rightarrow> tokenizer \<Rightarrow> generate_config \<Rightarrow> f64 list \<times> f64 list \<Rightarrow> nat \<Rightarrow>
     ('e app, f64 list \<times> f64 list, generate_error) sm" where
  "speed_run ops ho tok cfg acc run =
     bnd (on_engine (eo_reset_kv ops)) (\<lambda>_.
     let speed_cfg = cfg\<lparr>gc_max_new_tokens := 32, gc_print_timing := False, gc_chat_template := False\<rparr> in
     bnd (lift_outcome (case encode tok ''Explain transformer attention in one paragraph.'' (gc_add_bos speed_cfg)
            of Ret ts \<Rightarrow> Ret ts | _ \<Rightarrow> Panic)) (\<lambda>speed_ids.
     bnd (attempt (run_generation_captured ops ho tok speed_cfg speed_ids)) (\<lambda>r.
     case r of
       Inr (stats, _) \<Rightarrow> ret (fst acc @ [tokens_per_second stats], snd acc @ [gs_prompt_ms stats])
     | Inl _ \<Rightarrow> ret acc)))"

text \<open>The figures printed: mean, least and greatest speed, and mean prefill time, if any run succeeded.\<close>

definition bench_summary :: "f64 list \<times> f64 list \<Rightarrow> (f64 \<times> f64 \<times> f64 \<times> f64) option" where
  "bench_summary acc =
     (if fst acc = [] then None
      else Some (mean64 (fst acc), foldl min64 F64_MAX (fst acc), foldl max64 F64_MIN (fst acc), mean64 (snd acc)))"

definition run_bench ::
    "'e engine_ops \<Rightarrow> host \<Rightarrow> tokenizer \<Rightarrow> generate_config \<Rightarrow> ('e app, unit, generate_error) sm" where
  "run_bench ops ho tok cfg =
     bnd (on_engine (eo_reset_kv ops)) (\<lambda>_.
     let regression_cfg = cfg\<lparr>gc_max_new_tokens := 5, gc_print_timing := False, gc_chat_template := True,
           gc_sampling := (gc_sampling cfg)\<lparr>sc_temperature := lit32 1 100\<rparr>\<rparr> in
     bnd (lift_outcome (build_chat_tokens tok ''The capital of France is'')) (\<lambda>regression_ids.
     bnd (attempt (run_generation_captured ops ho tok regression_cfg regression_ids)) (\<lambda>r.
     case r of
       Inl _ \<Rightarrow> ret ()
     | Inr (stats, txt) \<Rightarrow>
       if \<not> contains (map to_lower txt) ''paris'' then ret ()
       else
       bnd (on_engine (eo_reset_kv ops)) (\<lambda>_.
       bnd (loop (speed_run ops ho tok cfg) ([], []) [1..<4]) (\<lambda>acc.
       bnd (on_engine (eo_reset_kv ops)) (\<lambda>_.
       case bench_summary acc of
         None \<Rightarrow> ret ()
       | Some (mean_tps, min_tps, max_tps, mean_prefill) \<Rightarrow>
           bnd (print_out ho [CHR 0x0A]) (\<lambda>_.
           bnd (print_out ho (''[Z.1] Regression: PASS'' @ [CHR 0x0A])) (\<lambda>_.
           bnd (print_out ho (''[Z.1] Decode     '' @ of_bytes [0xE2, 0x80, 0x94] @ '' mean: '' @ format64 2 mean_tps @
                  '' tok/s  min: '' @ format64 2 min_tps @ ''  max: '' @ format64 2 max_tps @ [CHR 0x0A])) (\<lambda>_.
           print_out ho (''[Z.1] Prefill    '' @ of_bytes [0xE2, 0x80, 0x94] @ '' mean: '' @ format64 0 mean_prefill @
                  ''ms'' @ [CHR 0x0A]))))))))))"

section \<open>The entry point\<close>

text \<open>The process: system calls and ggml, and the host's counters and output.\<close>

record process =
  pr_sys :: sys
  pr_tick :: nat
  pr_out :: string

definition in_sys :: "(sys, 'a, 'e) sm \<Rightarrow> (process, 'a, 'e) sm" where
  "in_sys m p = (case m (pr_sys p) of (r, s) \<Rightarrow> (r, p\<lparr>pr_sys := s\<rparr>))"

definition in_ggml :: "('a, 'e) act \<Rightarrow> (process, 'a, 'e) sm" where
  "in_ggml m p =
     (case m (sy_world (pr_sys p)) of (r, w) \<Rightarrow> (r, p\<lparr>pr_sys := (pr_sys p)\<lparr>sy_world := w\<rparr>\<rparr>))"

text \<open>Code that runs on the forward pass, whose graph it hands back.\<close>

definition with_graph :: "llama_graph \<Rightarrow> (engine app, 'a, 'e) sm \<Rightarrow> (process, 'a \<times> llama_graph, 'e) sm" where
  "with_graph lg m p =
     (case m \<lparr>ap_engine = \<lparr>eg_graph = lg, eg_world = sy_world (pr_sys p)\<rparr>, ap_tick = pr_tick p, ap_out = pr_out p\<rparr> of
        (r, a) \<Rightarrow>
          ((case r of Ret x \<Rightarrow> Ret (x, eg_graph (ap_engine a)) | Fail e \<Rightarrow> Fail e | Panic \<Rightarrow> Panic),
           p\<lparr>pr_sys := (pr_sys p)\<lparr>sy_world := eg_world (ap_engine a)\<rparr>, pr_tick := ap_tick a, pr_out := ap_out a\<rparr>))"

definition print_help :: "host \<Rightarrow> (process, unit, generate_error) sm" where
  "print_help ho p =
     (case print_out ho help_text \<lparr>ap_engine = (), ap_tick = pr_tick p, ap_out = pr_out p\<rparr> of
        (r, a) \<Rightarrow> (r, p\<lparr>pr_tick := ap_tick a, pr_out := ap_out a\<rparr>))"

definition dispatch ::
    "'e engine_ops \<Rightarrow> host \<Rightarrow> tokenizer \<Rightarrow> generate_config \<Rightarrow> args \<Rightarrow> string list \<Rightarrow>
     ('e app, bool, generate_error) sm" where
  "dispatch ops ho tok cfg a lines =
     (if ar_bench a then bnd (run_bench ops ho tok cfg) (\<lambda>_. ret True)
      else if ar_chat a then bnd (run_chat ops ho tok cfg lines) (\<lambda>_. ret True)
      else case ar_prompt a of
        Some prompt \<Rightarrow> run_prompt ops ho tok cfg prompt
      | None \<Rightarrow> ret True)"

text \<open>
  The exit status. \<^verbatim>\<open>process::exit\<close> skips the destructors; falling off the end drops the
  forward pass, then the model.
\<close>

definition main_program ::
    "allocator \<Rightarrow> (string \<Rightarrow> u8 list option) \<Rightarrow> os_env \<Rightarrow> ggml_env \<Rightarrow> host \<Rightarrow> string list \<Rightarrow> string list \<Rightarrow> (process, nat, generate_error) sm" where
  "main_program al fs oenv env ho raw lines =
     (let a = parse_args raw in
      if ar_help a \<or> (\<not> ar_chat a \<and> \<not> ar_bench a \<and> ar_prompt a = None)
      then bnd (print_help ho) (\<lambda>_. ret 0)
      else
      bnd (attempt (in_sys (load_model al fs oenv env (unwrap_or (ar_model_path a) DEFAULT_MODEL) a))) (\<lambda>r.
      case r of Inl _ \<Rightarrow> ret 1 | Inr (header, md, cfg) \<Rightarrow>
      case build_tokenizer header of Panic \<Rightarrow> abort | Fail _ \<Rightarrow> ret 1 | Ret tok \<Rightarrow>
      bnd (attempt (in_ggml (llama_graph_new env md))) (\<lambda>r.
      case r of Inl _ \<Rightarrow> ret 1 | Inr lg \<Rightarrow>
      bnd (with_graph lg (dispatch (graph_ops env md) ho tok cfg a lines)) (\<lambda>(ok, lg).
      if \<not> ok then ret 1
      else
      bnd (in_ggml (llama_graph_drop lg)) (\<lambda>_.
      bnd (attempt (in_sys (mapped_model_drop md))) (\<lambda>_.
      ret 0))))))"

end
