(* ===== verification/Generate_Facts.thy ===== *)
theory Generate_Facts imports Program Graph_Runs begin

text \<open>
  What the generation loop relies on and what it does: the contract of a forward pass
  (\<open>forward_pass\<close>), which the inference graph satisfies, the token accounting of every entry
  point under that contract, and the chain of tokens that a generation follows.
\<close>

section \<open>The contract of a forward pass\<close>

text \<open>
  \<open>head\<close> rows of \<open>n_ctx\<close> are in use; a prompt that fits appends its length, a step appends
  one row, an error appends nothing, and a reset empties the cache.
\<close>

locale forward_pass =
  fixes ops :: "'e engine_ops" and inv :: "'e \<Rightarrow> bool"
  assumes head_bounds: "inv e \<Longrightarrow> 0 \<le> eo_head ops e \<and> eo_head ops e \<le> eo_n_ctx ops e"
    and prefill_law: "inv e \<Longrightarrow> ids \<noteq> [] \<Longrightarrow>
      ends_in (\<lambda>_ e'. inv e' \<and> eo_head ops e' = eo_head ops e + int (length ids) \<and> eo_n_ctx ops e' = eo_n_ctx ops e)
        (\<lambda>_ e'. inv e' \<and> eo_head ops e' = eo_head ops e \<and> eo_n_ctx ops e' = eo_n_ctx ops e) True (eo_prefill ops ids e)"
    and decode_law: "inv e \<Longrightarrow>
      ends_in (\<lambda>_ e'. inv e' \<and> eo_head ops e' = eo_head ops e + 1 \<and> eo_n_ctx ops e' = eo_n_ctx ops e)
        (\<lambda>_ e'. inv e' \<and> eo_head ops e' = eo_head ops e \<and> eo_n_ctx ops e' = eo_n_ctx ops e) True (eo_decode_one ops t e)"
    and reset_law: "inv e \<Longrightarrow>
      ends_in (\<lambda>_ e'. inv e' \<and> eo_head ops e' = 0 \<and> eo_n_ctx ops e' = eo_n_ctx ops e) (\<lambda>_ _. False) False (eo_reset_kv ops e)"
begin

definition grown :: "'e app \<Rightarrow> 'e app \<Rightarrow> bool" where
  "grown a b \<longleftrightarrow>
     inv (ap_engine b) \<and> eo_n_ctx ops (ap_engine b) = eo_n_ctx ops (ap_engine a) \<and>
     eo_head ops (ap_engine a) \<le> eo_head ops (ap_engine b)"

end

text \<open>The errors of a generation under way, as against those of its checks.\<close>

fun late :: "generate_error \<Rightarrow> bool" where
  "late (GForward e) = True"
| "late (GLogit e) = True"
| "late GIo = True"
| "late _ = False"

text \<open>Output, clock and sampling leave the engine alone.\<close>

definition engine_kept :: "('e app, 'a, generate_error) sm \<Rightarrow> bool" where
  "engine_kept m \<longleftrightarrow> (\<forall>a. ap_engine (snd (m a)) = ap_engine a \<and> (\<forall>e. fst (m a) = Fail e \<longrightarrow> late e))"

lemma tick_engine [simp]: "ap_engine (tick a) = ap_engine a" "ap_out (tick a) = ap_out a"
  by (simp_all add: tick_def)

lemma kept_ret [simp]: "engine_kept (ret x)"
  by (simp add: engine_kept_def)

lemma kept_ends_in:
  assumes "engine_kept m" "\<And>x b. ap_engine b = ap_engine a \<Longrightarrow> Q x b"
    "\<And>e b. ap_engine b = ap_engine a \<Longrightarrow> late e \<Longrightarrow> E e b"
  shows "ends_in Q E True (m a)"
proof -
  obtain r b where m: "m a = (r, b)" by fastforce
  with assms(1) have "ap_engine b = ap_engine a" "r = Fail e \<Longrightarrow> late e" for e
    unfolding engine_kept_def by (metis snd_conv, metis fst_conv)
  with assms(2,3) m show ?thesis by (cases r) auto
qed

text \<open>A step that leaves the engine alone, then the rest.\<close>

lemma kept_then:
  assumes "engine_kept m" "\<And>x b. ap_engine b = ap_engine a \<Longrightarrow> ends_in Q E True (f x b)"
    and "\<And>e b. ap_engine b = ap_engine a \<Longrightarrow> late e \<Longrightarrow> E e b"
  shows "ends_in Q E True (bnd m f a)"
  by (rule ends_in_bnd[where R = "\<lambda>_ b. ap_engine b = ap_engine a"], rule kept_ends_in[OF assms(1)]) (use assms in auto)

lemma kept_bnd: "engine_kept m \<Longrightarrow> (\<And>x. engine_kept (f x)) \<Longrightarrow> engine_kept (bnd m f)"
  by (auto simp: engine_kept_def bnd_def split: prod.splits outcome.splits) (metis fst_conv snd_conv)+

lemma kept_output [simp]:
  "engine_kept (write_all ho s)" "engine_kept (flush_out ho)" "engine_kept (print_out ho s)"
  "engine_kept (elapsed_ms ho)" "engine_kept (time_seed ho)"
  by (auto simp: engine_kept_def write_all_def flush_out_def print_out_def elapsed_ms_def time_seed_def
      split: option.splits prod.splits outcome.splits)

lemma kept_sample [simp]: "engine_kept (sample_next ho cfg logits recent rng)"
  by (cases "sample_token (ho_expf ho) (ho_sort ho) logits (gc_sampling cfg) recent rng")
    (auto simp: engine_kept_def sample_next_def)

lemma kept_emit [simp]: "engine_kept (emit_piece ho qt p tx)"
  by (auto simp: emit_piece_def intro!: kept_bnd split: option.split)

lemma bnd_get_app: "bnd get_app f a = f a a"
  by (simp add: bnd_def get_app_def)

lemma ends_in_on_engine:
  assumes "ends_in (\<lambda>x e. Q x (a\<lparr>ap_engine := e\<rparr>)) (\<lambda>f e. E (GForward f) (a\<lparr>ap_engine := e\<rparr>)) pan (m (ap_engine a))"
  shows "ends_in Q E pan (on_engine m a)"
  using assms by (cases "m (ap_engine a)"; cases "fst (m (ap_engine a))") (auto simp: on_engine_def)

lemma print_then:
  assumes "\<And>b. ap_engine b = ap_engine a \<Longrightarrow> ends_in Q E True (f () b)"
  shows "ends_in Q E True (bnd (print_out ho s) f a)"
  using assms by (cases "ho_write ho (ap_tick a)") (auto simp: print_out_def write_all_def bnd_def)

lemma ends_in_attempt:
  assumes "ends_in (\<lambda>x. Q (Inr x)) (\<lambda>e. Q (Inl e)) pan (m a)"
  shows "ends_in Q E pan (attempt m a)"
  using assms by (cases "m a"; cases "fst (m a)") (auto simp: attempt_def)

text \<open>The template has no error of its own.\<close>

lemma extend_no_error: "extend_encoded tok s ids \<noteq> Fail e"
  by (simp add: extend_encoded_def split: outcome.split)

lemma no_template_error: "(if n = (0::nat) then build_chat_tokens tok msg else build_followup_chat_tokens tok msg) \<noteq> Fail e"
  by (auto simp: build_chat_tokens_def build_followup_chat_tokens_def user_turn_def assistant_header_def
      res_bind_Fail_iff extend_no_error)

context forward_pass begin

lemma grown_refl: "inv (ap_engine a) \<Longrightarrow> ap_engine b = ap_engine a \<Longrightarrow> grown a b"
  by (simp add: grown_def)

lemma gen_loop_grows:
  assumes "inv (ap_engine a)" "generated \<le> gc_max_new_tokens cfg"
  shows "ends_in (\<lambda>(n, _) b. grown a b \<and> generated \<le> n \<and> n \<le> gc_max_new_tokens cfg \<and>
      eo_head ops (ap_engine b) = eo_head ops (ap_engine a) + int (n - generated)) (\<lambda>e b. grown a b \<and> late e) True
    (gen_loop ops ho tok cfg qt n_ctx t rng recent generated tx a)"
  using assms
proof (induction "gc_max_new_tokens cfg - generated" arbitrary: t rng recent generated tx a)
  case 0
  then show ?case by (simp add: gen_loop.simps grown_refl)
next
  case (Suc k)
  show ?case
  proof (cases "is_eos t \<or> n_ctx \<le> eo_head ops (ap_engine a)")
    case True
    then show ?thesis using Suc.prems by (auto simp: gen_loop.simps grown_refl)
  next
    case False
    have more: "\<not> gc_max_new_tokens cfg \<le> generated" using Suc.hyps(2) by simp
    have step: "ends_in (\<lambda>(n, _) b. grown a b \<and> generated \<le> n \<and> n \<le> gc_max_new_tokens cfg \<and>
          eo_head ops (ap_engine b) = eo_head ops (ap_engine a) + int (n - generated)) (\<lambda>e b. grown a b \<and> late e) True
        (gen_loop ops ho tok cfg qt n_ctx t' rng' recent' (Suc generated) tx' b)"
      if b: "inv (ap_engine b)" "eo_head ops (ap_engine b) = eo_head ops (ap_engine a) + 1"
        "eo_n_ctx ops (ap_engine b) = eo_n_ctx ops (ap_engine a)" for t' rng' recent' tx' b
    proof (rule ends_in_mono[OF Suc.hyps(1)[of "Suc generated" b t' rng' recent' tx']])
      show "k = gc_max_new_tokens cfg - Suc generated" "Suc generated \<le> gc_max_new_tokens cfg" using Suc.hyps(2) by simp_all
    qed (use b in \<open>auto simp: grown_def of_nat_diff\<close>)
    show ?thesis
      unfolding gen_loop.simps[of ops ho tok cfg qt n_ctx t] Let_def
      using False more
      apply (simp del: sm_simps)
      apply (rule kept_then, simp)
       apply (rule ends_in_bnd[OF ends_in_on_engine[where Q = "\<lambda>_ b. inv (ap_engine b) \<and>
          eo_head ops (ap_engine b) = eo_head ops (ap_engine a) + 1 \<and> eo_n_ctx ops (ap_engine b) = eo_n_ctx ops (ap_engine a)"]])
        apply (rule ends_in_mono[OF decode_law])
          apply (use Suc.prems in \<open>auto simp: grown_def\<close>)[4]
       apply (rule kept_then, simp)
        apply (simp split: prod.split)
        apply (intro allI impI)
        apply (rule step)
          apply (use Suc.prems in \<open>auto simp: grown_def\<close>)
      done
  qed
qed

lemma run_generation_runs:
  assumes "inv (ap_engine a)" "ids \<noteq> []" "eo_head ops (ap_engine a) + int (length ids) \<le> eo_n_ctx ops (ap_engine a)"
  shows "ends_in (\<lambda>(st, _) b. grown a b \<and> gs_prompt_tokens st = length ids \<and>
      gs_generated_tokens st \<le> gc_max_new_tokens cfg \<and>
      eo_head ops (ap_engine b) = eo_head ops (ap_engine a) + int (length ids + gs_generated_tokens st))
    (\<lambda>e b. grown a b \<and> late e) True
    (run_generation_inner ops ho tok cfg qt ids a)"
proof -
  let ?h = "eo_head ops (ap_engine a) + int (length ids)"
  let ?P = "\<lambda>h b. inv (ap_engine b) \<and> eo_n_ctx ops (ap_engine b) = eo_n_ctx ops (ap_engine a) \<and> eo_head ops (ap_engine b) = h"
  let ?E = "\<lambda>e b. grown a b \<and> late e"
  note nonempty = assms(2)
  have fits: "\<not> eo_n_ctx ops (ap_engine a) < ?h" using assms(3) by simp
  have grown: "grown a b" if "?P (?h + k) b" "0 \<le> k" for k b using that by (simp add: grown_def)
  have pre: "ends_in (\<lambda>_. ?P ?h) ?E True (on_engine (eo_prefill ops ids) a)"
    by (rule ends_in_on_engine, rule ends_in_mono[OF prefill_law[OF assms(1,2)]]) (auto simp: grown_def)
  have loop: "ends_in (\<lambda>(n, _) c. n \<le> gc_max_new_tokens cfg \<and> ?P (?h + int n) c) ?E True
      (gen_loop ops ho tok cfg qt n_ctx t rng [] 0 [] b)" if "?P ?h b" for t rng b n_ctx
    by (rule ends_in_mono[OF gen_loop_grows]) (use that in \<open>auto simp: grown_def\<close>)
  show ?thesis
    unfolding run_generation_inner_def Let_def if_not_P[OF nonempty] bnd_get_app if_not_P[OF fits]
    apply (rule ends_in_bnd, rule pre)
    apply (rule kept_then, simp)
     apply (rule kept_then, simp)
      apply (rule kept_then, simp)
       apply (simp only: split: prod.split, intro allI impI)
       apply (rule kept_then, simp)
        apply (rule ends_in_bnd, rule loop, simp)
        apply (simp only: split: prod.split, intro allI impI)
        apply (rule kept_then, simp)
         apply (use nonempty in \<open>auto simp: grown_def\<close>)
    done
qed

lemma run_generation_grows:
  assumes "inv (ap_engine a)"
  shows "ends_in (\<lambda>(st, _) b. grown a b \<and> gs_prompt_tokens st = length ids \<and> ids \<noteq> [] \<and>
      gs_generated_tokens st \<le> gc_max_new_tokens cfg \<and>
      eo_head ops (ap_engine b) = eo_head ops (ap_engine a) + int (length ids + gs_generated_tokens st))
    (\<lambda>e b. grown a b \<and> (late e \<or> b = a)) True
    (run_generation_inner ops ho tok cfg qt ids a)"
proof (cases "ids = [] \<or> eo_n_ctx ops (ap_engine a) < eo_head ops (ap_engine a) + int (length ids)")
  case True
  then show ?thesis using assms by (auto simp: run_generation_inner_def bnd_def get_app_def Let_def grown_def)
next
  case False
  show ?thesis by (rule ends_in_mono[OF run_generation_runs[OF assms]]) (use False in auto)
qed

lemma reset_app:
  assumes "inv (ap_engine a)"
  shows "ends_in (\<lambda>_ b. inv (ap_engine b) \<and> eo_head ops (ap_engine b) = 0 \<and>
      eo_n_ctx ops (ap_engine b) = eo_n_ctx ops (ap_engine a)) (\<lambda>_ _. False) False (on_engine (eo_reset_kv ops) a)"
  by (rule ends_in_on_engine, rule ends_in_mono[OF reset_law[OF assms]]) auto

lemma run_grows:
  assumes "inv (ap_engine a)"
  shows "ends_in (\<lambda>st b. grown a b \<and> eo_head ops (ap_engine a) < eo_head ops (ap_engine b)) (\<lambda>e b. grown a b \<and> (late e \<or> b = a)) True
    (run_generation ops ho tok cfg ids a)"
  unfolding run_generation_def
  by (rule ends_in_bnd, rule run_generation_grows[OF assms]; cases ids; auto)

lemma turn_grows:
  assumes "inv (ap_engine a)"
  shows "ends_in (\<lambda>st b. grown a b \<and> eo_head ops (ap_engine a) < eo_head ops (ap_engine b)) (\<lambda>e b. grown a b \<and> (late e \<or> b = a)) True
    (generate_turn ops ho tok cfg msg n a)"
proof (cases "if n = 0 then build_chat_tokens tok msg else build_followup_chat_tokens tok msg")
  case (Ret ids)
  then show ?thesis using run_grows[OF assms] grown_refl[OF assms refl] by (simp add: generate_turn_def bnd_def)
next
  case (Fail e)
  then show ?thesis using no_template_error[of n tok msg e] by simp
next
  case Panic
  then show ?thesis using grown_refl[OF assms refl] by (simp add: generate_turn_def bnd_def)
qed

lemma generate_clean:
  assumes "inv (ap_engine a)"
  shows "ends_in (\<lambda>st b. inv (ap_engine b) \<and> eo_head ops (ap_engine b) = 0 \<and> eo_n_ctx ops (ap_engine b) = eo_n_ctx ops (ap_engine a))
    (\<lambda>e b. inv (ap_engine b) \<and> eo_n_ctx ops (ap_engine b) = eo_n_ctx ops (ap_engine a) \<and>
       (late e \<or> b = a \<or> eo_head ops (ap_engine b) = 0)) True
    (generate ops ho tok cfg prompt a)"
proof (cases "trim prompt = []")
  case True
  then show ?thesis using assms by (simp add: generate_def)
next
  case False
  let ?P = "\<lambda>b. inv (ap_engine b) \<and> eo_head ops (ap_engine b) = 0 \<and> eo_n_ctx ops (ap_engine b) = eo_n_ctx ops (ap_engine a)"
  let ?E = "\<lambda>e b. inv (ap_engine b) \<and> eo_n_ctx ops (ap_engine b) = eo_n_ctx ops (ap_engine a) \<and>
       (late e \<or> b = a \<or> eo_head ops (ap_engine b) = 0)"
  have reset: "ends_in (\<lambda>_. ?P) ?E True (on_engine (eo_reset_kv ops) b)"
    if "inv (ap_engine b)" "eo_n_ctx ops (ap_engine b) = eo_n_ctx ops (ap_engine a)" for b
    by (rule ends_in_mono[OF reset_app]) (use that in auto)
  have run: "ends_in (\<lambda>_. ?P) ?E True (bnd (run_generation ops ho tok cfg ids) (\<lambda>st. bnd (on_engine (eo_reset_kv ops)) (\<lambda>_. ret st)) b)"
    if b: "?P b" for b ids
  proof (rule ends_in_bnd)
    show "ends_in (\<lambda>_ c. inv (ap_engine c) \<and> eo_n_ctx ops (ap_engine c) = eo_n_ctx ops (ap_engine a)) ?E True
        (run_generation ops ho tok cfg ids b)"
      by (rule ends_in_mono[OF run_grows]) (use b in \<open>auto simp: grown_def\<close>)
    show "ends_in (\<lambda>_. ?P) ?E True (bnd (on_engine (eo_reset_kv ops)) (\<lambda>_. ret st) c)"
      if "inv (ap_engine c) \<and> eo_n_ctx ops (ap_engine c) = eo_n_ctx ops (ap_engine a)" for st c
      by (rule ends_in_bnd, rule reset) (use that in auto)
  qed
  have toks: "ends_in (\<lambda>_. ?P) ?E True (bnd (lift_outcome r) (\<lambda>ids. if ids = [] then fail GEmptyPrompt
      else if gc_context_len cfg \<le> length ids then fail (GContextLengthExceeded (gc_context_len cfg))
      else bnd (run_generation ops ho tok cfg ids) (\<lambda>st. bnd (on_engine (eo_reset_kv ops)) (\<lambda>_. ret st))) b)"
    if "?P b" "\<nexists>e. r = Fail e" for r b
    using that run[OF that(1)] by (cases r) (auto simp: bnd_def)
  show ?thesis
    unfolding generate_def if_not_P[OF False]
    by (rule ends_in_bnd, rule reset, rule assms, rule refl, rule toks)
      (use no_template_error[of 0 tok prompt] in \<open>auto split: outcome.splits\<close>)
qed

lemma chat_line_grows:
  assumes a: "inv (ap_engine a)" "int (ss_turn_count se) \<le> eo_head ops (ap_engine a)"
  defines "Q \<equiv> \<lambda>r b. inv (ap_engine b) \<and> eo_n_ctx ops (ap_engine b) = eo_n_ctx ops (ap_engine a) \<and>
      (\<forall>se'. r = Some se' \<longrightarrow> int (ss_turn_count se') \<le> eo_head ops (ap_engine b))"
  shows "ends_in Q (\<lambda>_ b. False) True (chat_line ops ho tok cfg se line a)"
proof -
  have reset: "ends_in Q (\<lambda>_ _. False) True (bnd (on_engine (eo_reset_kv ops)) (\<lambda>_. ret (Some (session_new n))) b)"
    if "ap_engine b = ap_engine a" for b n
    by (rule ends_in_bnd, rule ends_in_mono[OF reset_app]) (use that a in \<open>auto simp: Q_def session_new_def\<close>)
  have turn: "ends_in Q (\<lambda>_ _. False) True (bnd (attempt (generate_turn ops ho tok cfg msg n)) (\<lambda>r.
       case r of Inr _ \<Rightarrow> bnd (print_out ho [CHR 0x0A]) (\<lambda>_. ret (Some (record_turn se))) | Inl _ \<Rightarrow> ret (Some se)) b)"
    if b: "ap_engine b = ap_engine a" for b msg n
  proof (rule ends_in_bnd)
    show "ends_in (\<lambda>r c. grown a c \<and> (\<forall>x. r = Inr x \<longrightarrow> eo_head ops (ap_engine a) < eo_head ops (ap_engine c)))
        (\<lambda>_ _. False) True (attempt (generate_turn ops ho tok cfg msg n) b)"
      by (rule ends_in_attempt, rule ends_in_mono[OF turn_grows]) (use b a(1) in \<open>auto simp: grown_def\<close>)
    show "ends_in Q (\<lambda>_ _. False) True ((case r of Inr _ \<Rightarrow> bnd (print_out ho [CHR 0x0A]) (\<lambda>_. ret (Some (record_turn se))) | Inl _ \<Rightarrow> ret (Some se)) c)"
      if "grown a c \<and> (\<forall>x. r = Inr x \<longrightarrow> eo_head ops (ap_engine a) < eo_head ops (ap_engine c))" for r c
      using that a(2) by (cases r) (auto simp: Q_def grown_def record_turn_def intro!: print_then)
  qed
  show ?thesis
    unfolding chat_line_def Let_def
    by (rule print_then) (use a reset turn in \<open>auto simp: Q_def intro!: print_then simp del: bnd_simps\<close>)
qed

text \<open>Code that keeps the invariant of the engine however it ends, and code that also has no error of its own.\<close>

definition keeps :: "('e app, 'a, 'x) sm \<Rightarrow> bool" where
  "keeps m \<longleftrightarrow> (\<forall>a. inv (ap_engine a) \<longrightarrow>
     ends_in (\<lambda>_ b. inv (ap_engine b)) (\<lambda>_ b. inv (ap_engine b)) True (m a))"

definition handled :: "('e app, 'a, 'x) sm \<Rightarrow> bool" where
  "handled m \<longleftrightarrow> (\<forall>a. inv (ap_engine a) \<longrightarrow>
     ends_in (\<lambda>_ b. inv (ap_engine b)) (\<lambda>_ _. False) True (m a))"

lemma keepsI: "(\<And>a. inv (ap_engine a) \<Longrightarrow> ends_in (\<lambda>_ b. inv (ap_engine b)) (\<lambda>_ b. inv (ap_engine b)) True (m a)) \<Longrightarrow> keeps m"
  by (simp add: keeps_def)

lemma keeps_run: "keeps (run_generation_captured ops ho tok cfg ids)"
  unfolding run_generation_captured_def
  by (rule keepsI, rule ends_in_mono[OF run_generation_grows]) (auto simp: grown_def)

lemma keeps_generate: "keeps (generate ops ho tok cfg prompt)"
  by (rule keepsI, rule ends_in_mono[OF generate_clean]) auto

lemma keeps_turn: "keeps (generate_turn ops ho tok cfg msg n)"
  by (rule keepsI, rule ends_in_mono[OF turn_grows]) (auto simp: grown_def)

lemma handled_ret: "handled (ret x)"
  by (simp add: handled_def)

lemma handled_bnd: "handled m \<Longrightarrow> (\<And>x. handled (f x)) \<Longrightarrow> handled (bnd m f)"
  by (auto simp: handled_def intro: ends_in_bnd)

lemma handled_lift: "\<forall>e. r \<noteq> Fail e \<Longrightarrow> handled (lift_outcome r)"
  by (cases r) (simp_all add: handled_def lift_outcome_def)

lemma handled_get: "handled get_app"
  by (simp add: handled_def get_app_def)

lemma handled_print: "handled (print_out ho s)"
  by (auto simp: handled_def print_out_def write_all_def split: option.splits)

lemma handled_attempt: "keeps m \<Longrightarrow> handled (attempt m)"
  by (auto simp: keeps_def handled_def intro!: ends_in_attempt)

lemma handled_reset: "handled (on_engine (eo_reset_kv ops))"
  unfolding handled_def by (intro allI impI, rule ends_in_mono[OF reset_app]) auto

lemma handled_loop: "(\<And>x k. handled (f x k)) \<Longrightarrow> handled (loop f x ks)"
  by (induction ks arbitrary: x) (auto intro: handled_ret handled_bnd)

lemmas handled_intros =
  handled_ret handled_bnd handled_get handled_print handled_reset handled_loop
  handled_attempt[OF keeps_run] handled_attempt[OF keeps_generate] handled_attempt[OF keeps_turn]

lemma handled_chat_line: "handled (chat_line ops ho tok cfg se line)"
  unfolding chat_line_def Let_def by (auto intro!: handled_intros split: sum.split)

lemma handled_chat_loop: "handled (chat_loop ops ho tok cfg se lines)"
  by (induction lines arbitrary: se) (auto intro!: handled_intros handled_chat_line split: option.split)

lemma handled_bench: "handled (run_bench ops ho tok cfg)"
proof -
  have "build_chat_tokens tok msg \<noteq> Fail e" for msg e using no_template_error[of 0 tok msg e] by simp
  then show ?thesis
    unfolding run_bench_def speed_run_def Let_def
    by (auto intro!: handled_intros handled_lift split: sum.split option.split outcome.splits)
qed

lemma handled_dispatch: "handled (dispatch ops ho tok cfg ar lines)"
  unfolding dispatch_def run_prompt_def run_chat_def
  by (auto intro!: handled_intros handled_bench handled_chat_loop split: sum.split option.split)

end

section \<open>The inference graph meets the contract\<close>

lemma engine_ok_ends:
  assumes "\<exists>L. engine_ok L s" "\<And>L. engine_ok L s \<Longrightarrow> ends_in (Q L) (E L) pan r"
    and "\<And>L x s'. engine_ok L s \<Longrightarrow> Q L x s' \<Longrightarrow> Q' x s'" "\<And>L e s'. engine_ok L s \<Longrightarrow> E L e s' \<Longrightarrow> E' e s'"
  shows "ends_in Q' E' pan r"
proof -
  obtain L where L: "engine_ok L s" using assms(1) by blast
  show ?thesis by (rule ends_in_mono[OF assms(2)[OF L]]) (use assms(3,4)[OF L] in auto)
qed

lemma failed_call_ok: "failed_call L s e s' \<Longrightarrow> (\<exists>L. engine_ok L s') \<and> used s' = used s \<and> capacity s' = capacity s"
  by (auto simp: failed_call_def same_history_def split: if_splits)

lemma graph_ops_simps [simp]:
  "eo_head (graph_ops env md) = used" "eo_n_ctx (graph_ops env md) = capacity"
  "eo_prefill (graph_ops env md) = prefill env md" "eo_decode_one (graph_ops env md) = graph_decode_one env md"
  "eo_reset_kv (graph_ops env md) = reset_kv"
  by (simp_all add: graph_ops_def fun_eq_iff used_def capacity_def)

interpretation graph_pass: forward_pass "graph_ops env md" "\<lambda>s. \<exists>L. engine_ok L s" for env md
proof (unfold_locales, goal_cases)
  case (1 s)
  then show ?case using engine_ok_head by auto
next
  case (2 s ids)
  show ?case
    by (rule engine_ok_ends[OF 2(1), where Q = "\<lambda>L out s'. ids \<noteq> [] \<and> prefilled_call L s (length ids) out s'" and E = "\<lambda>L. failed_call L s"])
      (use prefill_spec[of s _ env md ids] failed_call_ok in \<open>auto simp: spec_def prefilled_call_def\<close>)
next
  case (3 s t)
  show ?case
    by (rule engine_ok_ends[OF 3, where Q = "\<lambda>L out s'. \<exists>ws. out = map Bits32 ws \<and> decode_outcome L s t ws s'" and E = "\<lambda>L. failed_call L s"])
      (use decode_spec[of s _ env md t] failed_call_ok in \<open>auto simp: spec_def decode_outcome_def\<close>)
next
  case (4 s)
  show ?case
    by (rule engine_ok_ends[OF 4, where Q = "\<lambda>L _ s'. engine_ok L s' \<and> used s' = 0 \<and> capacity s' = capacity s \<and> same_setup (eg_graph s) (eg_graph s')"
          and E = "\<lambda>L (_ :: forward_error) _. False"])
      (use reset_spec[of s _ "\<lambda>_ _. False" False] in \<open>auto simp: spec_def\<close>)
qed

end
