(* ===== verification/Generate_Properties.thy ===== *)
theory Generate_Properties imports Generate_Facts Logits_Properties begin

text \<open>
  The properties of generation: the chain of tokens it follows, the rows of the cache it
  uses, what a single-shot call leaves behind, and the invariant of the chat REPL.
\<close>

section \<open>The chain of tokens\<close>

definition last_n :: "nat \<Rightarrow> 'a list \<Rightarrow> 'a list" where
  "last_n k xs = drop (length xs - k) xs"

text \<open>
  From the token chosen so far, the tokens fed to the forward pass one after the other, each
  the sampler's choice from the logits that its predecessor gave and the last 64 tokens fed,
  up to the first token that is not fed any more.
\<close>

inductive gen_chain ::
    "'e engine_ops \<Rightarrow> host \<Rightarrow> generate_config \<Rightarrow> int \<Rightarrow> u32 list \<Rightarrow> u32 \<Rightarrow> u64 \<Rightarrow> 'e \<Rightarrow> u32 list \<Rightarrow> u32 \<Rightarrow> 'e \<Rightarrow> bool"
  for ops ho cfg n_ctx where
  stop: "gen_chain ops ho cfg n_ctx prev t rng e [] t e"
| step: "\<not> is_eos t \<Longrightarrow> eo_head ops e < n_ctx \<Longrightarrow> eo_decode_one ops t e = (Ret logits, e1) \<Longrightarrow>
    sample_token (ho_expf ho) (ho_sort ho) logits (gc_sampling cfg) (last_n 64 (prev @ [t])) rng = Ret (t', rng') \<Longrightarrow>
    gen_chain ops ho cfg n_ctx (prev @ [t]) t' rng' e1 ts u e' \<Longrightarrow>
    gen_chain ops ho cfg n_ctx prev t rng e (t # ts) u e'"

inductive_cases gen_chain_step: "gen_chain ops ho cfg n_ctx prev t rng e (t' # ts) u e'"

definition piece :: "tokenizer \<Rightarrow> u32 \<Rightarrow> string" where
  "piece tok t = unwrap_or (decode_one tok t) []"

definition pieces :: "tokenizer \<Rightarrow> u32 list \<Rightarrow> string" where
  "pieces tok ts = concat (map (piece tok) ts)"

lemma push_recent_last: "push_recent t (last_n 64 prev) = last_n 64 (prev @ [t])"
proof (cases "length prev < 64")
  case True
  then show ?thesis by (simp add: push_recent_def last_n_def Let_def)
next
  case False
  then have len: "length prev - 63 = Suc (length prev - 64)" by simp
  have "drop (length prev - 64) prev \<noteq> []" using False by auto
  then have "tl (drop (length prev - 64) prev @ [t]) = drop (Suc (length prev) - 64) prev @ [t]"
    using False len by (simp add: tl_append2 tl_drop drop_Suc)
  then show ?thesis using False by (simp add: push_recent_def last_n_def Let_def)
qed

lemma emit_piece_Ret:
  assumes "emit_piece ho qt (decode_one tok t) tx a = (Ret tx', b)"
  shows "ap_engine b = ap_engine a \<and> tx' = tx @ (if qt then piece tok t else []) \<and>
    ap_out b = ap_out a @ (if qt then [] else piece tok t)"
  using assms
  by (auto simp: emit_piece_def piece_def unwrap_or_def bnd_def write_all_def flush_out_def
      split: option.splits if_splits prod.splits outcome.splits)

lemma on_engine_Ret: "on_engine m a = (Ret x, b) \<longleftrightarrow> (\<exists>e. m (ap_engine a) = (Ret x, e) \<and> b = a\<lparr>ap_engine := e\<rparr>)"
  by (auto simp: on_engine_def split: prod.splits)

lemma sample_next_Ret:
  "sample_next ho cfg logits recent rng a = (Ret x, b) \<longleftrightarrow>
     sample_token (ho_expf ho) (ho_sort ho) logits (gc_sampling cfg) recent rng = Ret x \<and> b = a"
  by (auto simp: sample_next_def)

lemma gen_loop_chain:
  assumes "gen_loop ops ho tok cfg qt n_ctx t rng (last_n 64 prev) g tx a = (Ret (n, out), b)"
  shows "\<exists>ts u. gen_chain ops ho cfg n_ctx prev t rng (ap_engine a) ts u (ap_engine b) \<and> n = g + length ts \<and>
    (is_eos u \<or> gc_max_new_tokens cfg \<le> n \<or> n_ctx \<le> eo_head ops (ap_engine b)) \<and>
    out = tx @ (if qt then pieces tok ts else []) \<and> ap_out b = ap_out a @ (if qt then [] else pieces tok ts)"
  using assms
proof (induction "gc_max_new_tokens cfg - g" arbitrary: t rng prev g tx a)
  case 0
  then have "n = g" "out = tx" "b = a" by (simp_all add: gen_loop.simps split: if_splits)
  then show ?case
    using 0 by (intro exI[of _ "[]"] exI[of _ t]) (simp add: gen_chain.stop pieces_def)
next
  case (Suc k)
  show ?case
  proof (cases "is_eos t \<or> n_ctx \<le> eo_head ops (ap_engine a)")
    case True
    then have "n = g" "out = tx" "b = a" using Suc.prems by (auto simp: gen_loop.simps split: if_splits)
    then show ?thesis
      using True by (intro exI[of _ "[]"] exI[of _ t]) (auto simp: gen_chain.stop pieces_def)
  next
    case False
    have more: "\<not> gc_max_new_tokens cfg \<le> g" using Suc.hyps(2) by simp
    obtain tx1 a1 logits e1 t' rng' where
      emit: "emit_piece ho qt (decode_one tok t) tx a = (Ret tx1, a1)" and
      dec: "eo_decode_one ops t (ap_engine a1) = (Ret logits, e1)" and
      smp: "sample_token (ho_expf ho) (ho_sort ho) logits (gc_sampling cfg) (push_recent t (last_n 64 prev)) rng = Ret (t', rng')" and
      rest: "gen_loop ops ho tok cfg qt n_ctx t' rng' (push_recent t (last_n 64 prev)) (Suc g) tx1 (a1\<lparr>ap_engine := e1\<rparr>) = (Ret (n, out), b)"
      using Suc.prems False more unfolding gen_loop.simps[of ops ho tok cfg qt n_ctx t] Let_def
      by (auto simp: on_engine_Ret sample_next_Ret elim!: bnd_RetE)
    note e = emit_piece_Ret[OF emit]
    have "k = gc_max_new_tokens cfg - Suc g" using Suc.hyps(2) by simp
    from Suc.hyps(1)[OF this rest[unfolded push_recent_last]] obtain ts u where
      ts: "gen_chain ops ho cfg n_ctx (prev @ [t]) t' rng' e1 ts u (ap_engine b)" "n = Suc g + length ts"
      "is_eos u \<or> gc_max_new_tokens cfg \<le> n \<or> n_ctx \<le> eo_head ops (ap_engine b)"
      "out = tx1 @ (if qt then pieces tok ts else [])" "ap_out b = ap_out a1 @ (if qt then [] else pieces tok ts)"
      by auto
    have "gen_chain ops ho cfg n_ctx prev t rng (ap_engine a) (t # ts) u (ap_engine b)"
      by (rule gen_chain.step) (use False dec smp[unfolded push_recent_last] ts(1) e in auto)
    then show ?thesis
      using ts(2-) e by (intro exI[of _ "t # ts"] exI[of _ u]) (auto simp: pieces_def)
  qed
qed

lemma bnd_elapsed: "bnd (elapsed_ms ho) f a = f (mul64 (ho_secs ho (ap_tick a)) (of_nat64 1000)) (tick a)"
  by (simp add: bnd_def elapsed_ms_def)

lemma bnd_seed: "bnd (time_seed ho) f a = f (rng_seed_from_time (ho_now ho (ap_tick a))) (tick a)"
  by (simp add: bnd_def time_seed_def)

lemma run_generation_chain:
  assumes "run_generation_inner ops ho tok cfg qt ids a = (Ret (st, out), b)"
  shows "\<exists>logits e1 t rng ts u. eo_prefill ops ids (ap_engine a) = (Ret logits, e1) \<and>
    sample_token (ho_expf ho) (ho_sort ho) logits (gc_sampling cfg) [] (rng_seed_from_time (ho_now ho (Suc (ap_tick a)))) = Ret (t, rng) \<and>
    gen_chain ops ho cfg (eo_n_ctx ops (ap_engine a)) [] t rng e1 ts u (ap_engine b) \<and>
    gs_prompt_tokens st = length ids \<and> gs_generated_tokens st = length ts \<and>
    (is_eos u \<or> gc_max_new_tokens cfg \<le> length ts \<or> eo_n_ctx ops (ap_engine a) \<le> eo_head ops (ap_engine b)) \<and>
    (if qt then out = pieces tok ts \<and> ap_out b = ap_out a else out = [] \<and> ap_out b = ap_out a @ [CHR 0x0A] @ pieces tok ts)"
proof -
  define n_ctx where "n_ctx = eo_n_ctx ops (ap_engine a)"
  let ?fits = "n_ctx < eo_head ops (ap_engine a) + int (length ids)"
  have ne: "ids \<noteq> []" and fits: "\<not> ?fits"
    using assms by (auto simp: run_generation_inner_def bnd_get_app Let_def n_ctx_def split: if_splits)
  obtain logits e1 where pre: "eo_prefill ops ids (ap_engine a) = (Ret logits, e1)"
    and rest: "bnd (elapsed_ms ho) (\<lambda>prompt_ms. bnd (time_seed ho) (\<lambda>rng. bnd (sample_next ho cfg logits [] rng) (\<lambda>(t, rng).
      bnd (if qt then ret () else print_out ho [CHR 0x0A]) (\<lambda>_. bnd (gen_loop ops ho tok cfg qt n_ctx t rng [] 0 []) (\<lambda>(g, tx).
      bnd (elapsed_ms ho) (\<lambda>generate_ms. ret (\<lparr>gs_prompt_tokens = length ids, gs_generated_tokens = g,
            gs_prompt_ms = prompt_ms, gs_generate_ms = generate_ms\<rparr>, tx))))))) (a\<lparr>ap_engine := e1\<rparr>) = (Ret (st, out), b)"
    using assms ne fits unfolding run_generation_inner_def Let_def if_not_P[OF ne] bnd_get_app n_ctx_def[symmetric] if_not_P[OF fits]
    by (auto simp: on_engine_Ret elim!: bnd_RetE[of "on_engine _"])
  let ?a = "tick (tick (a\<lparr>ap_engine := e1\<rparr>))"
  obtain t rng a1 g b1 where
    smp: "sample_token (ho_expf ho) (ho_sort ho) logits (gc_sampling cfg) [] (rng_seed_from_time (ho_now ho (Suc (ap_tick a)))) = Ret (t, rng)"
    and out: "(if qt then ret () else print_out ho [CHR 0x0A]) ?a = (Ret () :: (unit, generate_error) outcome, a1)"
    and loop: "gen_loop ops ho tok cfg qt n_ctx t rng [] 0 [] a1 = (Ret (g, out), b1)" and b: "b = tick b1"
    and st: "gs_prompt_tokens st = length ids" "gs_generated_tokens st = g"
    using rest unfolding bnd_elapsed bnd_seed
    by (auto simp: sample_next_Ret bnd_elapsed tick_def elim!: bnd_RetE[of "sample_next _ _ _ _ _"] bnd_RetE[of "if _ then _ else _"]
        bnd_RetE[of "gen_loop _ _ _ _ _ _ _ _ _ _ _"])
  have a1: "ap_engine a1 = e1" "ap_out a1 = ap_out a @ (if qt then [] else [CHR 0x0A])"
    using out by (auto simp: print_out_def write_all_def tick_def split: if_splits option.splits)
  have "last_n 64 ([] :: u32 list) = []" by (simp add: last_n_def)
  from gen_loop_chain[of ops ho tok cfg qt n_ctx t rng "[]" 0 "[]" a1 g out b1] loop this obtain ts u where
    "gen_chain ops ho cfg n_ctx [] t rng e1 ts u (ap_engine b1)" "g = length ts"
    "is_eos u \<or> gc_max_new_tokens cfg \<le> g \<or> n_ctx \<le> eo_head ops (ap_engine b1)"
    "out = (if qt then pieces tok ts else [])" "ap_out b1 = ap_out a1 @ (if qt then [] else pieces tok ts)"
    by (auto simp: a1(1))
  then show ?thesis
    using pre smp st a1(2) unfolding b n_ctx_def[symmetric]
    by (intro exI[of _ logits] exI[of _ e1] exI[of _ t] exI[of _ rng] exI[of _ ts] exI[of _ u]) auto
qed


section \<open>The template\<close>

text \<open>What the first turn puts before the tokens of a follow-up turn.\<close>

definition system_turn :: "tokenizer \<Rightarrow> (u32 list, generate_error) outcome" where
  "system_turn tok =
     res_bind (extend_encoded tok ''system'' [T_BOS, T_START_HEADER]) (\<lambda>ids.
     res_bind (extend_encoded tok (newlines @ ''You are a helpful AI assistant.'') (ids @ [T_END_HEADER])) (\<lambda>ids.
     Ret (ids @ [T_EOT])))"

lemma extend_encoded_append:
  "extend_encoded tok s (pre @ ids) = res_bind (extend_encoded tok s ids) (\<lambda>ids. Ret (pre @ ids))"
  by (simp add: extend_encoded_def split: outcome.split)

lemma res_bind_extend:
  "res_bind (extend_encoded tok s (pre @ ids)) f = res_bind (extend_encoded tok s ids) (\<lambda>ids. f (pre @ ids))"
  by (simp add: extend_encoded_append res_bind_assoc)

lemma user_turn_append: "user_turn tok msg (pre @ ids) = res_bind (user_turn tok msg ids) (\<lambda>ids. Ret (pre @ ids))"
  by (simp add: user_turn_def res_bind_extend res_bind_assoc)

lemma assistant_header_append:
  "assistant_header tok (pre @ ids) = res_bind (assistant_header tok ids) (\<lambda>ids. Ret (pre @ ids))"
  by (simp add: assistant_header_def res_bind_extend res_bind_assoc)

lemma chat_tokens_split:
  "build_chat_tokens tok msg =
     res_bind (system_turn tok) (\<lambda>pre. res_bind (build_followup_chat_tokens tok msg) (\<lambda>ids. Ret (pre @ ids)))"
proof -
  have "res_bind (user_turn tok msg pre) (assistant_header tok) =
      res_bind (user_turn tok msg []) (\<lambda>ids. res_bind (assistant_header tok ids) (\<lambda>out. Ret (pre @ out)))" for pre
    using user_turn_append[of tok msg pre "[]"] by (simp add: res_bind_assoc assistant_header_append)
  then show ?thesis
    unfolding build_chat_tokens_def build_followup_chat_tokens_def system_turn_def res_bind_assoc res_bind.simps(1) by simp
qed

section \<open>A small generation\<close>

lemma sample_token_total:
  assumes "logits \<noteq> []"
  shows "\<exists>t s. sample_token f insertion_std logits sample_cfg recent rng = Ret (t, s)"
proof -
  let ?l = "scaled_logits logits sample_cfg recent"
  have ne: "logits \<noteq> []" by (rule assms)
  have "\<exists>is. top_indices insertion_std ?l (Some 1) = Ret is"
    using ne
    by (simp add: top_indices_def insertion_std_def option_outcome_def unwrap_or_def Let_def del: upt_Suc)
  then show ?thesis
    using ne by (auto simp: sample_token_def sample_cfg_valid sample_shape(3) Let_def)
qed


definition sample_host :: host where
  "sample_host = \<lparr>ho_expf = (\<lambda>_. 1), ho_sort = insertion_std, ho_now = (\<lambda>_. None), ho_secs = (\<lambda>_. of_nat64 0),
     ho_write = (\<lambda>_. None), ho_flush = (\<lambda>_. True)\<rparr>"

definition sample_app :: "engine app" where
  "sample_app = \<lparr>ap_engine = sample_engine [RBackend 0], ap_tick = 0, ap_out = []\<rparr>"

definition sample_tokenizer :: tokenizer where
  "sample_tokenizer = \<lparr>tk_vocab = [], tk_ids = Map.empty, tk_merges = Map.empty, tk_bytes = replicate 256 0\<rparr>"

definition sample_generate :: generate_config where
  "sample_generate = default_generate\<lparr>gc_max_new_tokens := 0, gc_sampling := sample_cfg\<rparr>"

abbreviation "sample_run qt ids \<equiv>
  run_generation_inner (graph_ops sample_env sample_model) sample_host sample_tokenizer sample_generate qt ids sample_app"

lemma sample_app_ok: "engine_ok {#RBackend 0#} (ap_engine sample_app)"
  using sample_engine_ok[of "[RBackend 0]"] by (simp add: sample_app_def)

lemma sample_app_size: "used (ap_engine sample_app) = 0" "capacity (ap_engine sample_app) = 2"
  by (simp_all add: sample_app_def sample_size)

lemma sample_generation: "\<exists>st out b. sample_run True [0, 1] = (Ret (st, out), b)"
proof -
  let ?e = "sample_engine [RBackend 0]"
  obtain logits e1 where p: "prefill sample_env sample_model [0, 1] ?e = (Ret logits, e1)" using sample_prefill by blast
  have "prefilled_call {#RBackend 0#} ?e (length [0 :: u32, 1]) logits e1"
    using prefill_spec[of ?e "{#RBackend 0#}" sample_env sample_model "[0, 1]"] sample_engine_ok[of "[RBackend 0]"] p
    by (simp add: spec_def del: list.size)
  then have "logits \<noteq> []"
    by (auto simp: prefilled_call_def sample_engine_def sample_hp_def)
  from sample_token_total[OF this, of "\<lambda>_. 1" "[]" "rng_seed_from_time None"]
  obtain t r where "sample_token (\<lambda>_. 1) insertion_std logits sample_cfg [] (rng_seed_from_time None) = Ret (t, r)" by blast
  then show ?thesis
    using p by (simp add: run_generation_inner_def bnd_get_app sample_app_size bnd_elapsed bnd_seed Let_def)
      (simp add: bnd_def on_engine_def sample_app_def tick_def sample_next_def sample_host_def sample_generate_def
        default_generate_def gen_loop.simps elapsed_ms_def time_seed_def)
qed

section \<open>Properties\<close>

text \<open>
  C1: a generation that succeeds is the autoregressive chain. The prompt is prefilled, the
  first token is the sampler's choice from its logits with the seed read from the clock, and
  then each token is fed in turn to one decode step, the next one being the sampler's choice
  from the resulting logits, the chained random state and the last 64 tokens fed. No
  end-of-turn token is ever fed. The loop stops at such a token, at the token limit, or when
  the cache is full; the text collected (or written, after a line break) is the
  concatenation of the pieces of the tokens fed, and the statistics count them.
\<close>

theorem generation_chain:
  assumes "run_generation_inner (graph_ops env md) ho tok cfg qt ids a = (Ret (st, out), b)"
  shows "\<exists>logits e1 t rng ts u. prefill env md ids (ap_engine a) = (Ret logits, e1) \<and>
    sample_token (ho_expf ho) (ho_sort ho) logits (gc_sampling cfg) [] (rng_seed_from_time (ho_now ho (Suc (ap_tick a)))) = Ret (t, rng) \<and>
    gen_chain (graph_ops env md) ho cfg (capacity (ap_engine a)) [] t rng e1 ts u (ap_engine b) \<and>
    gs_prompt_tokens st = length ids \<and> gs_generated_tokens st = length ts \<and>
    (is_eos u \<or> gc_max_new_tokens cfg \<le> length ts \<or> capacity (ap_engine a) \<le> used (ap_engine b)) \<and>
    (if qt then out = pieces tok ts \<and> ap_out b = ap_out a else out = [] \<and> ap_out b = ap_out a @ [CHR 0x0A] @ pieces tok ts)"
  using run_generation_chain[OF assms] by simp

theorem generation_chain_witness:
  "\<exists>st out b ts. sample_run True [0, 1] = (Ret (st, out), b) \<and> gs_prompt_tokens st = 2 \<and>
     gs_generated_tokens st = length ts \<and> out = pieces sample_tokenizer ts \<and> ap_out b = []"
proof -
  obtain st out b where r: "sample_run True [0, 1] = (Ret (st, out), b)" using sample_generation by blast
  from generation_chain[OF r] r show ?thesis by (auto simp: sample_app_def)
qed

text \<open>
  C14: the budget of a generation. An empty turn is refused, and so is a turn that does not
  fit the cache, with the rows it would need and the rows there are; nothing has happened
  then, not even a forward pass. Otherwise a generation that returns used one row per prompt
  token and one per generated token, at most \<^verbatim>\<open>max_new_tokens\<close> of those, and never more rows
  than there are; its only errors are those of the forward pass, the sampler and the output,
  and after them the rows already in use are still there. The engine stays well formed
  throughout.
\<close>

theorem generation_budget:
  assumes "engine_ok L (ap_engine a)" "run_generation_inner (graph_ops env md) ho tok cfg qt ids a = (r, b)"
  shows "if ids = [] then r = Fail GEmptyPrompt \<and> b = a
    else if capacity (ap_engine a) < used (ap_engine a) + int (length ids)
      then r = Fail (GContextFull (used (ap_engine a) + int (length ids)) (capacity (ap_engine a))) \<and> b = a
    else case r of
      Ret (st, _) \<Rightarrow> (\<exists>L. engine_ok L (ap_engine b)) \<and> gs_prompt_tokens st = length ids \<and>
        gs_generated_tokens st \<le> gc_max_new_tokens cfg \<and>
        used (ap_engine b) = used (ap_engine a) + int (length ids + gs_generated_tokens st) \<and>
        used (ap_engine b) \<le> capacity (ap_engine a)
    | Fail e \<Rightarrow> late e \<and> (\<exists>L. engine_ok L (ap_engine b)) \<and> used (ap_engine a) \<le> used (ap_engine b) \<and>
        used (ap_engine b) \<le> capacity (ap_engine a)
    | Panic \<Rightarrow> True"
proof -
  let ?s = "ap_engine a"
  show ?thesis
  proof (cases "ids = [] \<or> capacity ?s < used ?s + int (length ids)")
    case True
    then show ?thesis
      using assms(2) by (auto simp: run_generation_inner_def bnd_get_app Let_def split: if_splits)
  next
    case False
    have "ends_in (\<lambda>(st, _) b. graph_pass.grown env md a b \<and> gs_prompt_tokens st = length ids \<and>
        gs_generated_tokens st \<le> gc_max_new_tokens cfg \<and> used (ap_engine b) = used ?s + int (length ids + gs_generated_tokens st))
      (\<lambda>e b. graph_pass.grown env md a b \<and> late e) True (r, b)"
      using graph_pass.run_generation_runs[where a = a and ids = ids and env = env and md = md and ho = ho and tok = tok and cfg = cfg and qt = qt] assms False by auto
    moreover have "used (ap_engine b) \<le> capacity ?s" if "graph_pass.grown env md a b"
      using that by (auto simp: graph_pass.grown_def dest!: engine_ok_head)
    ultimately show ?thesis using False by (cases r) (auto simp: graph_pass.grown_def)
  qed
qed

theorem generation_budget_witness:
  "sample_run False [1, 2, 3] = (Fail (GContextFull 3 2), sample_app) \<and>
   (\<exists>st out b. sample_run True [0, 1] = (Ret (st, out), b) \<and> used (ap_engine b) = 2 + int (gs_generated_tokens st) \<and>
      used (ap_engine b) \<le> 2)"
proof -
  obtain r b where r: "sample_run False [1, 2, 3] = (r, b)" by fastforce
  obtain st out b' where g: "sample_run True [0, 1] = (Ret (st, out), b')" using sample_generation by blast
  from generation_budget[OF sample_app_ok r] generation_budget[OF sample_app_ok g] g r show ?thesis
    by (auto simp: sample_app_size)
qed

text \<open>The tokens of a single-shot prompt, and the application with its cache emptied.\<close>

definition prompt_tokens :: "tokenizer \<Rightarrow> generate_config \<Rightarrow> string \<Rightarrow> (u32 list, generate_error) outcome" where
  "prompt_tokens tok cfg prompt =
     (if gc_chat_template cfg then build_chat_tokens tok prompt
      else case encode tok prompt (gc_add_bos cfg) of Ret ts \<Rightarrow> Ret ts | _ \<Rightarrow> Panic)"

definition cleared :: "engine app \<Rightarrow> engine app" where
  "cleared a = a\<lparr>ap_engine := (ap_engine a)\<lparr>eg_graph := set_head 0 (eg_graph (ap_engine a))\<rparr>\<rparr>"

lemma reset_app_eq: "on_engine reset_kv a = (Ret (), cleared a)"
  by (simp add: on_engine_def reset_kv_def bnd_def get_graph_def set_graph_def cleared_def set_head_def kv_clear_def)

lemma cleared_size: "used (ap_engine (cleared a)) = 0" "capacity (ap_engine (cleared a)) = capacity (ap_engine a)"
  by (simp_all add: cleared_def set_head_def used_def capacity_def)

lemma cleared_ok: "engine_ok L (ap_engine a) \<Longrightarrow> engine_ok L (ap_engine (cleared a))"
  using reset_spec[of "ap_engine a" L "\<lambda>(_ :: forward_error) _. True" True]
  by (auto simp: spec_def cleared_def reset_kv_def bnd_def get_graph_def set_graph_def set_head_def kv_clear_def)

lemma generate_runs:
  assumes "generate (graph_ops env md) ho tok cfg prompt a = (r, b)" "trim prompt \<noteq> []"
  shows "case prompt_tokens tok cfg prompt of
      Ret ids \<Rightarrow>
        if ids = [] then r = Fail GEmptyPrompt \<and> b = cleared a
        else if gc_context_len cfg \<le> length ids then r = Fail (GContextLengthExceeded (gc_context_len cfg)) \<and> b = cleared a
        else \<exists>c. run_generation (graph_ops env md) ho tok cfg ids (cleared a) = (r, c) \<and>
          b = (case r of Ret _ \<Rightarrow> cleared c | _ \<Rightarrow> c)
    | Fail e \<Rightarrow> False
    | Panic \<Rightarrow> r = Panic"
proof -
  have no: "prompt_tokens tok cfg prompt \<noteq> Fail e" for e
    using no_template_error[of 0 tok prompt e] by (auto simp: prompt_tokens_def split: outcome.splits)
  have g: "bnd (lift_outcome (prompt_tokens tok cfg prompt)) (\<lambda>ids.
      if ids = [] then fail GEmptyPrompt
      else if gc_context_len cfg \<le> length ids then fail (GContextLengthExceeded (gc_context_len cfg))
      else bnd (run_generation (graph_ops env md) ho tok cfg ids) (\<lambda>st. bnd (on_engine (eo_reset_kv (graph_ops env md))) (\<lambda>_. ret st))) (cleared a) = (r, b)"
    using assms unfolding generate_def prompt_tokens_def[symmetric] by (simp add: reset_app_eq bnd_def[of "on_engine reset_kv"])
  show ?thesis
  proof (cases "prompt_tokens tok cfg prompt")
    case (Ret ids)
    obtain q c where c: "run_generation (graph_ops env md) ho tok cfg ids (cleared a) = (q, c)" by fastforce
    show ?thesis using g c unfolding Ret by (cases q) (auto simp: bnd_def reset_app_eq)
  qed (use g no in \<open>auto simp: bnd_def\<close>)
qed

text \<open>
  C24: a single-shot call starts from an empty cache and, when it returns, leaves an empty
  cache. A blank prompt is refused and nothing has happened. Otherwise the cache is emptied
  first, whatever an earlier call left in it: a prompt without tokens, or with as many as the
  configured context, is refused there; any other is the generation run from the emptied
  cache on the prompt's tokens. When that run returns, the call empties the cache once more;
  when it fails, the call fails with its error and leaves the rows the run has used, because
  that exit skips the second reset.
\<close>

theorem generate_clean_slate:
  assumes "engine_ok L (ap_engine a)" "generate (graph_ops env md) ho tok cfg prompt a = (r, b)"
  shows "if trim prompt = [] then r = Fail GEmptyPrompt \<and> b = a
    else engine_ok L (ap_engine (cleared a)) \<and> used (ap_engine (cleared a)) = 0 \<and>
      capacity (ap_engine (cleared a)) = capacity (ap_engine a) \<and>
    (case r of
      Ret st \<Rightarrow> \<exists>ids c. prompt_tokens tok cfg prompt = Ret ids \<and> ids \<noteq> [] \<and> length ids < gc_context_len cfg \<and>
        run_generation (graph_ops env md) ho tok cfg ids (cleared a) = (Ret st, c) \<and> b = cleared c \<and>
        used (ap_engine b) = 0 \<and> capacity (ap_engine b) = capacity (ap_engine a) \<and> (\<exists>L. engine_ok L (ap_engine b))
    | Fail e \<Rightarrow> \<exists>ids. prompt_tokens tok cfg prompt = Ret ids \<and> (\<exists>L. engine_ok L (ap_engine b)) \<and>
        (if ids = [] then e = GEmptyPrompt \<and> b = cleared a
         else if gc_context_len cfg \<le> length ids then e = GContextLengthExceeded (gc_context_len cfg) \<and> b = cleared a
         else run_generation (graph_ops env md) ho tok cfg ids (cleared a) = (Fail e, b) \<and> (late e \<or> b = cleared a))
    | Panic \<Rightarrow> prompt_tokens tok cfg prompt = Panic \<or>
        (\<exists>ids. prompt_tokens tok cfg prompt = Ret ids \<and> ids \<noteq> [] \<and> length ids < gc_context_len cfg \<and>
           run_generation (graph_ops env md) ho tok cfg ids (cleared a) = (Panic, b)))"
proof (cases "trim prompt = []")
  case True
  then show ?thesis using assms(2) by (simp add: generate_def)
next
  case False
  note ok = cleared_ok[OF assms(1)]
  have grows: "ends_in (\<lambda>st c. graph_pass.grown env md (cleared a) c) (\<lambda>e c. graph_pass.grown env md (cleared a) c \<and> (late e \<or> c = cleared a)) True
      (run_generation (graph_ops env md) ho tok cfg ids (cleared a))" for ids
    by (rule ends_in_mono[OF graph_pass.run_grows]) (use ok in auto)
  have size: "(\<exists>L. engine_ok L (ap_engine c)) \<and> capacity (ap_engine c) = capacity (ap_engine a)"
    if "graph_pass.grown env md (cleared a) c" for c
    using that by (simp add: graph_pass.grown_def cleared_size)
  show ?thesis
  proof (cases "prompt_tokens tok cfg prompt")
    case (Ret ids)
    show ?thesis
    proof (cases "ids = [] \<or> gc_context_len cfg \<le> length ids")
      case True
      then show ?thesis
        using generate_runs[OF assms(2) False] Ret ok False by (auto simp: cleared_size split: if_splits)
    next
      case run: False
      then obtain c where c: "run_generation (graph_ops env md) ho tok cfg ids (cleared a) = (r, c)"
        "b = (case r of Ret _ \<Rightarrow> cleared c | _ \<Rightarrow> c)"
        using generate_runs[OF assms(2) False] Ret by auto
      have ends: "ends_in (\<lambda>st c. graph_pass.grown env md (cleared a) c)
          (\<lambda>e c. graph_pass.grown env md (cleared a) c \<and> (late e \<or> c = cleared a)) True (r, c)"
        using grows[of ids] c(1) by simp
      show ?thesis
      proof (cases r)
        case (Ret st)
        then show ?thesis
          using ends c run \<open>prompt_tokens tok cfg prompt = Ret ids\<close> size[of c] ok False cleared_ok by (auto simp: cleared_size)
      next
        case (Fail e)
        then show ?thesis
          using ends c run \<open>prompt_tokens tok cfg prompt = Ret ids\<close> size[of c] ok False by (auto simp: cleared_size)
      next
        case Panic
        then show ?thesis
          using c run \<open>prompt_tokens tok cfg prompt = Ret ids\<close> ok False by (auto simp: cleared_size)
      qed
    qed
  qed (use generate_runs[OF assms(2) False] ok False in \<open>auto simp: cleared_size\<close>)
qed

lemma trim_samples: "trim '' '' = []" "trim (''/reset'' @ [CHR 0x0A]) = ''/reset''"
  by code_simp+

theorem generate_clean_slate_witness:
  "\<exists>a b. used (ap_engine a) = 2 \<and>
     generate (graph_ops sample_env sample_model) sample_host sample_tokenizer
       (sample_generate\<lparr>gc_chat_template := False, gc_add_bos := False, gc_context_len := 1\<rparr>) ''a'' a =
       (Fail (GContextLengthExceeded 1), b) \<and> used (ap_engine b) = 0"
proof -
  let ?e = "sample_engine [RBackend 0]" and ?cfg = "sample_generate\<lparr>gc_chat_template := False, gc_add_bos := False, gc_context_len := 1\<rparr>"
  obtain logits e1 where p: "prefill sample_env sample_model [0, 1] ?e = (Ret logits, e1)" using sample_prefill by blast
  have "prefilled_call {#RBackend 0#} ?e (length [0 :: u32, 1]) logits e1"
    using prefill_spec[of ?e "{#RBackend 0#}" sample_env sample_model "[0, 1]"] sample_engine_ok[of "[RBackend 0]"] p
    by (simp add: spec_def del: list.size)
  then have e1: "used e1 = 2" "\<exists>L. engine_ok L e1"
    by (auto simp: prefilled_call_def sample_size)
  let ?a = "sample_app\<lparr>ap_engine := e1\<rparr>"
  obtain r b where g: "generate (graph_ops sample_env sample_model) sample_host sample_tokenizer ?cfg ''a'' ?a = (r, b)" by fastforce
  have "encode sample_tokenizer ''a'' False = Ret [0]" "trim ''a'' \<noteq> []"
    by code_simp+
  then have "prompt_tokens sample_tokenizer ?cfg ''a'' = Ret [0]" "trim ''a'' \<noteq> []"
    by (simp_all add: prompt_tokens_def)
  moreover obtain L where "engine_ok L (ap_engine ?a)" using e1 by auto
  from generate_clean_slate[OF this g] calculation have "r = Fail (GContextLengthExceeded 1) \<and> used (ap_engine b) = 0"
    by (cases r) (auto simp: cleared_size)
  with g e1(1) show ?thesis by (intro exI[of _ ?a] exI[of _ b]) simp
qed

section \<open>Chat\<close>

text \<open>The sessions and states the REPL reaches, one line after the other.\<close>

inductive chat_reach ::
    "engine engine_ops \<Rightarrow> host \<Rightarrow> tokenizer \<Rightarrow> generate_config \<Rightarrow> engine app \<Rightarrow> session \<Rightarrow> engine app \<Rightarrow> bool"
  for ops ho tok cfg a where
  opened: "chat_reach ops ho tok cfg a (session_new (gc_context_len cfg)) a"
| line: "chat_reach ops ho tok cfg a se b \<Longrightarrow> chat_line ops ho tok cfg se line b = (Ret (Some se'), c) \<Longrightarrow>
    chat_reach ops ho tok cfg a se' c"

text \<open>
  C10: the invariant of the chat REPL. Whatever lines are typed, with \<^verbatim>\<open>/reset\<close> anywhere among
  them and whatever turns fail, the engine stays well formed, the rows in use stay within the
  cache, and there are at least as many of them as the session counts turns: a turn is
  recorded only when its tokens are in the cache, and a reset clears both. In particular a
  conversation has at most as many turns as the cache has rows.
\<close>

theorem chat_invariant:
  assumes "engine_ok L (ap_engine a)" "chat_reach (graph_ops env md) ho tok cfg a se b"
  shows "(\<exists>L. engine_ok L (ap_engine b)) \<and> int (ss_turn_count se) \<le> used (ap_engine b) \<and>
    used (ap_engine b) \<le> capacity (ap_engine b) \<and> capacity (ap_engine b) = capacity (ap_engine a)"
proof -
  from assms(2) have "(\<exists>L. engine_ok L (ap_engine b)) \<and> int (ss_turn_count se) \<le> used (ap_engine b) \<and>
    capacity (ap_engine b) = capacity (ap_engine a)"
  proof induction
    case opened
    then show ?case using assms(1) engine_ok_head[OF assms(1)] by (auto simp: session_new_def)
  next
    case (line se b l se' c)
    then show ?case using graph_pass.chat_line_grows[of b se env md ho tok cfg l] by auto
  qed
  then show ?thesis by (auto dest: engine_ok_head)
qed

theorem chat_invariant_witness:
  "\<exists>se b. chat_reach (graph_ops sample_env sample_model) sample_host sample_tokenizer sample_generate sample_app se b \<and>
     ap_out b = ''You: '' \<and> int (ss_turn_count se) \<le> used (ap_engine b) \<and> capacity (ap_engine b) = 2"
proof -
  obtain e where e: "reset_kv (ap_engine sample_app) = (Ret () :: (unit, forward_error) outcome, e)"
    by (simp add: reset_kv_def bnd_def get_graph_def set_graph_def)
  have "chat_line (graph_ops sample_env sample_model) sample_host sample_tokenizer sample_generate (session_new 4096)
      (''/reset'' @ [CHR 0x0A]) sample_app =
      (Ret (Some (session_new 4096)), \<lparr>ap_engine = e, ap_tick = 1, ap_out = ''You: ''\<rparr>)"
    unfolding chat_line_def trim_samples(2) using e
    by (simp add: bnd_def print_out_def write_all_def sample_host_def sample_app_def tick_def on_engine_def
        sample_generate_def default_generate_def)
  then have c: "chat_reach (graph_ops sample_env sample_model) sample_host sample_tokenizer sample_generate sample_app
      (session_new 4096) \<lparr>ap_engine = e, ap_tick = 1, ap_out = ''You: ''\<rparr>"
    using chat_reach.line[OF chat_reach.opened] by (simp add: sample_generate_def default_generate_def)
  from chat_invariant[OF sample_app_ok c] c show ?thesis by (fastforce simp: sample_app_size)
qed

end
