(* ===== verification/Generate_Live.thy ===== *)
theory Generate_Live imports Generate_Properties begin

text \<open>
  Liveness of generation: over a forward pass that answers whenever there is room, with a
  valid sampling configuration and an output that accepts every write, a generation returns.
  The inference graph is such a forward pass when the library's allocations and computations
  succeed and the weights have the right shapes.
\<close>

section \<open>The sampler answers\<close>

text \<open>The sorting routines return, whatever the comparison.\<close>

definition sorts :: "std_sort \<Rightarrow> bool" where
  "sorts std \<longleftrightarrow>
     (\<forall>cmp i xs. i < length xs \<longrightarrow> select_nth_unstable_by std cmp i xs \<noteq> None) \<and>
     (\<forall>cmp xs. sort_unstable_by std cmp xs \<noteq> None)"

definition sampling_ok :: "std_sort \<Rightarrow> sampling_config \<Rightarrow> bool" where
  "sampling_ok std cfg \<longleftrightarrow> sorts std \<and> validate cfg = Ret () \<and> sc_top_k cfg \<noteq> Some 0"

text \<open>The output accepts every write and every flush.\<close>

definition steady :: "host \<Rightarrow> bool" where
  "steady ho \<longleftrightarrow> (\<forall>i. ho_write ho i = None \<and> ho_flush ho i)"

lemma sample_token_answers:
  assumes "sampling_ok std cfg" "logits \<noteq> []"
  shows "\<exists>t s. sample_token expf std logits cfg recent rng = Ret (t, s)"
proof -
  let ?l = "scaled_logits logits cfg recent"
  let ?k = "min (unwrap_or (sc_top_k cfg) (length ?l)) (length ?l)"
  have n: "0 < length ?l" using assms(2) by simp
  moreover have "unwrap_or (sc_top_k cfg) (length ?l) \<noteq> 0"
    using assms(1) n by (cases "sc_top_k cfg") (simp_all add: sampling_ok_def unwrap_or_def)
  ultimately have k: "?k \<noteq> 0" by simp
  have k1: "?k - 1 < length [0..<length ?l]" using n by (simp del: length_scaled length_0_conv length_greater_0_conv)
  obtain ys where ys: "select_nth_unstable_by std (desc_cmp ?l) (?k - 1) [0..<length ?l] = Some ys"
    using assms(1) k1 unfolding sampling_ok_def sorts_def by blast
  obtain zs where "sort_unstable_by std (desc_cmp ?l) (take ?k ys) = Some zs"
    using assms(1) unfolding sampling_ok_def sorts_def by blast
  then have "top_indices std ?l (sc_top_k cfg) = Ret zs"
    using k ys by (simp add: top_indices_def option_outcome_def Let_def del: upt_Suc)
  then show ?thesis
    using assms by (simp add: sample_token_def sampling_ok_def Let_def)
qed

lemma sample_next_answers:
  assumes "sampling_ok (ho_sort ho) (gc_sampling cfg)" "logits \<noteq> []"
  obtains t s where "sample_next ho cfg logits recent rng a = (Ret (t, s), a)"
  using sample_token_answers[OF assms] by (metis sample_next_Ret)

lemma emit_answers:
  assumes "steady ho"
  obtains tx' b where "emit_piece ho qt p tx a = (Ret tx', b)" "ap_engine b = ap_engine a"
proof -
  have "\<exists>tx' b. emit_piece ho qt p tx a = (Ret tx', b)"
    using assms by (cases p) (auto simp: emit_piece_def bnd_def write_all_def flush_out_def steady_def)
  moreover have "engine_kept (emit_piece ho qt p tx)" by simp
  ultimately show ?thesis using that unfolding engine_kept_def by (metis snd_conv)
qed

lemma print_answers: "steady ho \<Longrightarrow> bnd (print_out ho s) f a = f () (tick a\<lparr>ap_out := ap_out a @ s\<rparr>)"
  by (simp add: bnd_def print_out_def write_all_def steady_def)

section \<open>A forward pass that answers\<close>

locale live_pass = forward_pass +
  fixes live :: "'a \<Rightarrow> bool"
  assumes prefill_live: "inv e \<Longrightarrow> live e \<Longrightarrow> ids \<noteq> [] \<Longrightarrow> eo_head ops e + int (length ids) \<le> eo_n_ctx ops e \<Longrightarrow>
      ends_in (\<lambda>out e'. out \<noteq> [] \<and> live e') (\<lambda>_ _. False) False (eo_prefill ops ids e)"
    and decode_live: "inv e \<Longrightarrow> live e \<Longrightarrow> eo_head ops e < eo_n_ctx ops e \<Longrightarrow>
      ends_in (\<lambda>out e'. out \<noteq> [] \<and> live e') (\<lambda>_ _. False) False (eo_decode_one ops t e)"
begin

lemma prefill_answers:
  assumes "inv (ap_engine a)" "live (ap_engine a)" "ids \<noteq> []" "eo_head ops (ap_engine a) + int (length ids) \<le> eo_n_ctx ops (ap_engine a)"
  obtains out e where "on_engine (eo_prefill ops ids) a = (Ret out, a\<lparr>ap_engine := e\<rparr>)" "out \<noteq> []" "inv e" "live e"
    "eo_n_ctx ops e = eo_n_ctx ops (ap_engine a)"
proof -
  have "ends_in (\<lambda>out e'. out \<noteq> [] \<and> inv e' \<and> live e' \<and> eo_n_ctx ops e' = eo_n_ctx ops (ap_engine a)) (\<lambda>_ _. False) False
      (eo_prefill ops ids (ap_engine a))"
    by (rule ends_in_mono[OF ends_in_conj[OF prefill_live[OF assms] prefill_law[OF assms(1,3)]]]) auto
  then show ?thesis by (rule ends_in_ret) (use that in \<open>auto simp: on_engine_def\<close>)
qed

lemma decode_answers:
  assumes "inv (ap_engine a)" "live (ap_engine a)" "eo_head ops (ap_engine a) < eo_n_ctx ops (ap_engine a)"
  obtains out e where "on_engine (eo_decode_one ops t) a = (Ret out, a\<lparr>ap_engine := e\<rparr>)" "out \<noteq> []" "inv e" "live e"
    "eo_n_ctx ops e = eo_n_ctx ops (ap_engine a)"
proof -
  have "ends_in (\<lambda>out e'. out \<noteq> [] \<and> inv e' \<and> live e' \<and> eo_n_ctx ops e' = eo_n_ctx ops (ap_engine a)) (\<lambda>_ _. False) False
      (eo_decode_one ops t (ap_engine a))"
    by (rule ends_in_mono[OF ends_in_conj[OF decode_live[OF assms] decode_law[OF assms(1)]]]) auto
  then show ?thesis by (rule ends_in_ret) (use that in \<open>auto simp: on_engine_def\<close>)
qed

lemma gen_loop_answers:
  assumes host: "steady ho" and smp: "sampling_ok (ho_sort ho) (gc_sampling cfg)"
    and "inv (ap_engine a)" "live (ap_engine a)" "n_ctx = eo_n_ctx ops (ap_engine a)"
  shows "\<exists>n out b. gen_loop ops ho tok cfg qt n_ctx t rng recent g tx a = (Ret (n, out), b)"
  using assms(3-5)
proof (induction "gc_max_new_tokens cfg - g" arbitrary: t rng recent g tx a)
  case 0
  then show ?case by (simp add: gen_loop.simps)
next
  case (Suc k)
  show ?case
  proof (cases "is_eos t \<or> n_ctx \<le> eo_head ops (ap_engine a)")
    case True
    then show ?thesis by (auto simp: gen_loop.simps)
  next
    case False
    have more: "\<not> gc_max_new_tokens cfg \<le> g" "k = gc_max_new_tokens cfg - Suc g" using Suc.hyps(2) by simp_all
    obtain tx1 a1 where emit: "emit_piece ho qt (decode_one tok t) tx a = (Ret tx1, a1)" "ap_engine a1 = ap_engine a"
      by (rule emit_answers[OF host])
    from Suc.prems emit(2) False obtain out e where
      dec: "on_engine (eo_decode_one ops t) a1 = (Ret out, a1\<lparr>ap_engine := e\<rparr>)" "out \<noteq> []" "inv e" "live e" "eo_n_ctx ops e = n_ctx"
      by (metis decode_answers not_le)
    obtain t' r' where smp': "sample_next ho cfg out (push_recent t recent) rng (a1\<lparr>ap_engine := e\<rparr>) = (Ret (t', r'), a1\<lparr>ap_engine := e\<rparr>)"
      by (rule sample_next_answers[OF smp dec(2)])
    show ?thesis
      unfolding gen_loop.simps[of ops ho tok cfg qt n_ctx t] Let_def
      using False more(1) Suc.hyps(1)[OF more(2), of "a1\<lparr>ap_engine := e\<rparr>"] dec(3-5)
      by (simp add: bnd_def emit(1) dec(1) smp')
  qed
qed

lemma run_generation_answers:
  assumes host: "steady ho" and smp: "sampling_ok (ho_sort ho) (gc_sampling cfg)"
    and a: "inv (ap_engine a)" "live (ap_engine a)" and ids: "ids \<noteq> []" "eo_head ops (ap_engine a) + int (length ids) \<le> eo_n_ctx ops (ap_engine a)"
  shows "\<exists>st out b. run_generation_inner ops ho tok cfg qt ids a = (Ret (st, out), b)"
proof -
  obtain out e where pre: "on_engine (eo_prefill ops ids) a = (Ret out, a\<lparr>ap_engine := e\<rparr>)" "out \<noteq> []" "inv e" "live e"
      "eo_n_ctx ops e = eo_n_ctx ops (ap_engine a)"
    by (rule prefill_answers[OF a ids])
  obtain t r where smp': "sample_next ho cfg out [] (rng_seed_from_time (ho_now ho (ap_tick (tick (a\<lparr>ap_engine := e\<rparr>))))) (tick (tick (a\<lparr>ap_engine := e\<rparr>))) =
      (Ret (t, r), tick (tick (a\<lparr>ap_engine := e\<rparr>)))"
    by (rule sample_next_answers[OF smp pre(2)])
  have loop: "\<exists>n out' b'. gen_loop ops ho tok cfg qt (eo_n_ctx ops (ap_engine a)) t r [] 0 [] b = (Ret (n, out'), b')"
    if "ap_engine b = e" for b
    by (rule gen_loop_answers[OF host smp]) (use that pre in auto)
  have tail: "\<exists>st out' b'. bnd (gen_loop ops ho tok cfg qt (eo_n_ctx ops (ap_engine a)) t r [] 0 [])
      (\<lambda>(generated, txt). bnd (elapsed_ms ho) (\<lambda>ms. ret (F generated ms, txt))) b = (Ret (st, out'), b')"
    if "ap_engine b = e" for b and F :: "nat \<Rightarrow> f64 \<Rightarrow> generate_stats"
    using loop[OF that] by (auto simp: bnd_def[of "gen_loop ops ho tok cfg qt c t r [] 0 []" for c] bnd_elapsed)
  have step: "\<exists>st out' b'. bnd (if qt then ret () else print_out ho s) (\<lambda>_. bnd (gen_loop ops ho tok cfg qt (eo_n_ctx ops (ap_engine a)) t r [] 0 [])
      (\<lambda>(generated, txt). bnd (elapsed_ms ho) (\<lambda>ms. ret (F generated ms, txt)))) c = (Ret (st, out'), b')"
    if "ap_engine c = e" for c s and F :: "nat \<Rightarrow> f64 \<Rightarrow> generate_stats"
    using tail[of c F] tail[of "tick c\<lparr>ap_out := ap_out c @ s\<rparr>" F] that
    by (auto simp: print_answers[OF host] split: if_split)
  have fits: "\<not> eo_n_ctx ops (ap_engine a) < eo_head ops (ap_engine a) + int (length ids)" using ids(2) by simp
  show ?thesis
    unfolding run_generation_inner_def Let_def if_not_P[OF ids(1)] bnd_get_app if_not_P[OF fits]
    by (simp add: bnd_def[of "on_engine m" for m] pre(1) bnd_elapsed bnd_seed bnd_def[of "sample_next ho cfg out [] x" for x]
      smp' split del: if_split) (rule step, simp)
qed

end

section \<open>The inference graph answers\<close>

text \<open>
  Allocations and computations succeed, the weights and any built decode graph have the right
  shapes, there is a vocabulary, and the cache has fewer than \<open>2 ^ 31\<close> rows.
\<close>

definition answering :: "ggml_env \<Rightarrow> model \<Rightarrow> int \<Rightarrow> engine \<Rightarrow> bool" where
  "answering env md n_out s \<longleftrightarrow>
     never_fails env \<and> well_typed md n_out s \<and> 0 < hp_vocab (lg_hp (eg_graph s)) \<and> capacity s < 2 ^ 31"

lemma ends_in_sure:
  assumes "ends_in Q (\<lambda>e s. \<not> C \<and> E e s) False r" "C"
  shows "ends_in Q (\<lambda>_ _. False) False r"
  by (rule ends_in_mono[OF assms(1)]) (use assms(2) in auto)

lemma answering_change:
  assumes "answering env md n_out s" "well_typed md n_out s'" "same_setup (eg_graph s) (eg_graph s')" "capacity s' = capacity s"
  shows "answering env md n_out s'"
  using assms by (simp add: answering_def same_setup_def)

lemma nonempty_vocab: "answering env md n_out s \<Longrightarrow> length out = nat (hp_vocab (lg_hp (eg_graph s))) \<Longrightarrow> out \<noteq> []"
  by (auto simp: answering_def)

interpretation graph_live: live_pass "graph_ops env md" "\<lambda>s. \<exists>L. engine_ok L s" "answering env md n_out" for env md n_out
proof (unfold_locales, goal_cases)
  case (1 s ids)
  obtain L where L: "engine_ok L s" using 1(1) by blast
  have a: "never_fails env" "well_typed md n_out s" "length ids < 2 ^ 31"
    using 1(2,4) engine_ok_head[OF L] by (auto simp: answering_def)
  have "all_well env (int (length ids)) s" using a(1) 1(4) by (simp add: all_well_def)
  with 1(3) have t: "ends_in (\<lambda>_ s'. well_typed md n_out s') (\<lambda>_ _. False) False (prefill env md ids s)"
    by (intro ends_in_sure[where C = "ids \<noteq> [] \<and> all_well env (int (length ids)) s"], intro ends_in_mono[OF prefill_typed[OF L a(2,3)]]) auto
  have p: "ends_in (\<lambda>out s'. ids \<noteq> [] \<and> prefilled_call L s (length ids) out s') (failed_call L s) True (prefill env md ids s)"
    using prefill_spec[of s L env md ids] L by (simp add: spec_def)
  show ?case
    by (simp, rule ends_in_mono[OF ends_in_conj[OF t p]])
      (use 1(2) in \<open>auto simp: prefilled_call_def intro: answering_change dest: nonempty_vocab\<close>)
next
  case (2 s t)
  obtain L where L: "engine_ok L s" using 2(1) by blast
  have a: "never_fails env" "well_typed md n_out s" using 2(2) by (auto simp: answering_def)
  have w: "all_well env 1 s" using a(1) 2(3) by (simp add: all_well_def)
  have t: "ends_in (\<lambda>_ s'. well_typed md n_out s') (\<lambda>_ _. False) False (graph_decode_one env md t s)"
    by (rule ends_in_sure[OF decode_typed[OF L a(2)] w])
  have p: "ends_in (\<lambda>out s'. \<exists>ws. out = map Bits32 ws \<and> decode_outcome L s t ws s') (failed_call L s) True (graph_decode_one env md t s)"
    using decode_spec[of s L env md t] L by (simp add: spec_def)
  have len: "map Bits32 ws \<noteq> []" if "decode_outcome L s t ws s'" for ws s'
    by (rule nonempty_vocab[OF 2(2)]) (use that in \<open>auto simp: decode_outcome_def length_fit\<close>)
  show ?case
    by (simp, rule ends_in_mono[OF ends_in_conj[OF t p]])
      (use 2(2) len in \<open>auto simp: decode_outcome_def intro: answering_change\<close>)
qed

section \<open>Property\<close>


lemma sample_sorts: "sampling_ok insertion_std sample_cfg"
  using sample_shape(3) by (simp add: sampling_ok_def sorts_def insertion_std_def sample_cfg_valid)

lemma sample_answering: "answering sample_env sample_model 2 (ap_engine sample_app)"
  using sample_well_typed[of "[RBackend 0]"] sample_never_fails sample_app_size(2)
  by (simp add: answering_def sample_app_def sample_engine_def sample_hp_def)


end
