(* ===== verification/Loader_Properties.thy ===== *)
theory Loader_Properties imports Loader Gguf_Wire Sm_Spec "HOL-Library.Multiset" begin

text \<open>
  What loading a model acquires and guarantees: the ledger of descriptors, mappings, buffers
  and contexts on every path, and the place of every weight in the file.
\<close>

section \<open>Loading\<close>

lemma ends_in_on_os:
  assumes "ends_in (\<lambda>x o'. Q x (s\<lparr>sy_os := o'\<rparr>)) (\<lambda>e o'. E (MapError e) (s\<lparr>sy_os := o'\<rparr>)) pan (m (sy_os s))"
  shows "ends_in Q E pan (on_os m s)"
  using assms by (cases "m (sy_os s)"; cases "fst (m (sy_os s))") (auto simp: on_os_def)

lemma ends_in_on_world:
  assumes "ends_in (\<lambda>x w. Q x (s\<lparr>sy_world := w\<rparr>)) (\<lambda>e w. E e (s\<lparr>sy_world := w\<rparr>)) pan (m (sy_world s))"
  shows "ends_in Q E pan (on_world m s)"
  using assms by (cases "m (sy_world s)"; cases "fst (m (sy_world s))") (auto simp: on_world_def)

text \<open>A mapper that was opened over \<open>o'\<close> gives \<open>o'\<close> back when it is dropped.\<close>

lemma mapper_opens:
  "ends_in (\<lambda>fm o1. file_mapper_drop fm o1 = (Ret () :: (unit, map_error) outcome, o')) (\<lambda>_ o1. o1 = o') False (file_mapper_open env path o')"
  by (auto simp: file_mapper_open_def safe_open_def file_size_def safe_mmap_def map_pages_def
      close_on_err_def close_fd_def bnd_def file_mapper_drop_def munmap_def Let_def
      split: option.split)

text \<open>Which resources the library holds, and the state of the process.\<close>

definition holding :: "os \<Rightarrow> resource multiset \<Rightarrow> sys \<Rightarrow> bool" where
  "holding os L s \<longleftrightarrow> sy_os s = os \<and> mset (w_live (sy_world s)) = L"

lemma load_tensor_holding:
  "spec (holding os L) (load_tensor fm buf base ts ti) (\<lambda>_. holding os L) (\<lambda>_ _. False) True"
  by (auto simp: spec_def load_tensor_def Let_def holding_def bnd_def on_world_def place_tensor_def gassert_def
      ggml_new_tensor_def new_node_def abort_def)

text \<open>The mapper is open, over the process state \<open>os\<close>.\<close>

definition mapped :: "file_mapper \<Rightarrow> os \<Rightarrow> resource multiset \<Rightarrow> sys \<Rightarrow> bool" where
  "mapped fm os L s \<longleftrightarrow>
     file_mapper_drop fm (sy_os s) = (Ret () :: (unit, map_error) outcome, os) \<and> mset (w_live (sy_world s)) = L"

definition loaded :: "model \<Rightarrow> os \<Rightarrow> resource multiset \<Rightarrow> sys \<Rightarrow> bool" where
  "loaded md os L s \<longleftrightarrow>
     mapped (md_mapper md) os (add_mset (RContext (md_ctx md)) (add_mset (RBuffer (bf_id (md_buf md))) L)) s"

definition load_failed :: "os \<Rightarrow> resource multiset \<Rightarrow> load_error \<Rightarrow> sys \<Rightarrow> bool" where
  "load_failed os L e s \<longleftrightarrow>
     sy_os s = os \<and> (if e = ContextNull then \<exists>b. mset (w_live (sy_world s)) = add_mset (RBuffer b) L
                     else mset (w_live (sy_world s)) = L)"

lemma bail_mapped_ends:
  assumes "mapped fm os L s" "\<And>s'. sy_os s' = os \<Longrightarrow> mset (w_live (sy_world s')) = L \<Longrightarrow> E e s'"
  shows "ends_in Q E pan (bail_mapped fm e s)"
  using assms by (simp add: bail_mapped_def bnd_def on_os_def mapped_def)

lemma acquire_ends:
  assumes "\<And>w'. mset (w_live w') = mset (w_live w) \<Longrightarrow> Q None w'"
    and "\<And>i w'. mset (w_live w') = add_mset (k i) (mset (w_live w)) \<Longrightarrow> Q (Some i) w'"
  shows "ends_in Q E pan (acquire env k w)"
  using assms by (simp add: acquire_def Let_def)

lemma buffer_from_ptr_ends:
  assumes "\<And>w'. mset (w_live w') = mset (w_live w) \<Longrightarrow> Q None w'"
    and "\<And>b w'. mset (w_live w') = add_mset (RBuffer (bf_id b)) (mset (w_live w)) \<Longrightarrow> Q (Some b) w'"
  shows "ends_in Q E True (ggml_backend_cpu_buffer_from_ptr env ptr sz w)"
  unfolding ggml_backend_cpu_buffer_from_ptr_def gassert_def
  by (auto intro!: ends_in_bnd[OF acquire_ends[where Q = "\<lambda>r w'. case r of None \<Rightarrow> mset (w_live w') = mset (w_live w)
        | Some i \<Rightarrow> mset (w_live w') = add_mset (RBuffer i) (mset (w_live w))"]] assms split: option.splits)

lemma load_loop:
  assumes "mapped fm os L s"
  shows "ends_in (\<lambda>_. mapped fm os L) (\<lambda>_ _. False) True (loop (load_tensor fm buf base) ts tis s)"
proof -
  have "spec (holding (sy_os s) L) (loop (load_tensor fm buf base) ts tis) (\<lambda>_. holding (sy_os s) L) (\<lambda>_ _. False) True"
    by (rule spec_loop) (rule load_tensor_holding)
  moreover have "holding (sy_os s) L s" using assms by (simp add: holding_def mapped_def)
  ultimately have "ends_in (\<lambda>_. holding (sy_os s) L) (\<lambda>_ _. False) True (loop (load_tensor fm buf base) ts tis s)"
    by (simp add: spec_def)
  then show ?thesis
    by (rule ends_in_mono) (use assms in \<open>auto simp: holding_def mapped_def\<close>)
qed

lemma load_ends:
  "ends_in (\<lambda>md. loaded md (sy_os s) (mset (w_live (sy_world s)))) (load_failed (sy_os s) (mset (w_live (sy_world s)))) True
     (mapped_model_load al fs oenv env path s)"
proof -
  let ?os = "sy_os s" and ?L = "mset (w_live (sy_world s))"
  let ?Q = "\<lambda>md. loaded md ?os ?L" and ?E = "load_failed ?os ?L"
  have header: "ends_in (\<lambda>h s'. s' = s) ?E True (lift_outcome (res_map_err HeaderError (gguf_from_file al fs path)) s)"
    by (cases "gguf_from_file al fs path") (simp_all add: lift_outcome_def load_failed_def)
  have open1: "ends_in (\<lambda>fm. mapped fm ?os ?L) ?E True (on_os (file_mapper_open oenv path) s)"
    by (rule ends_in_on_os, rule ends_in_mono[OF mapper_opens]) (auto simp: mapped_def load_failed_def)
  have wrap: "ends_in (\<lambda>wb s'. mapped fm ?os (case wb of None \<Rightarrow> ?L | Some b \<Rightarrow> add_mset (RBuffer (bf_id b)) ?L) s') ?E True
      (on_world (ggml_backend_cpu_buffer_from_ptr env ptr sz) s')" if "mapped fm ?os ?L s'" for fm s' ptr sz
    by (rule ends_in_on_world, rule buffer_from_ptr_ends) (use that in \<open>auto simp: mapped_def\<close>)
  have init: "ends_in (\<lambda>cx s'. mapped fm ?os (case cx of None \<Rightarrow> L | Some c \<Rightarrow> add_mset (RContext c) L) s') ?E True
      (on_world (ggml_init env) s')" if "mapped fm ?os L s'" for fm s' L
    unfolding ggml_init_def by (rule ends_in_on_world, rule acquire_ends) (use that in \<open>auto simp: mapped_def\<close>)
  have fill: "ends_in ?Q ?E True (bnd (loop (load_tensor fm buf base) ts tis) (\<lambda>tensors.
      ret \<lparr>md_mapper = fm, md_ctx = ctx, md_buf = buf, md_tensors = tensors, md_header = h\<rparr>) s')"
    if "mapped fm ?os (add_mset (RContext ctx) (add_mset (RBuffer (bf_id buf)) ?L)) s'" for fm buf base ts tis ctx h s'
    by (rule ends_in_bnd, rule ends_in_mono[OF load_loop[OF that]]) (auto simp: loaded_def)
  show ?thesis
    unfolding mapped_model_load_def
    apply (rule ends_in_bnd, rule header, simp only:)
    apply (rule ends_in_bnd, rule open1)
    apply (rule ends_in_bnd, rule wrap, assumption)
    subgoal for h s1 fm s2 wb s3
      apply (cases wb)
       apply (simp only: option.case)
       apply (rule bail_mapped_ends, assumption, simp add: load_failed_def)
      apply (simp only: option.case)
      apply (rule ends_in_bnd, rule init, assumption)
      subgoal for buf cx s4
        apply (cases cx)
         apply (simp only: option.case)
         apply (rule bail_mapped_ends, assumption, auto simp: load_failed_def)[1]
        apply (simp only: option.case)
        apply (rule fill, assumption)
        done
      done
    done
qed

lemma drop_ends:
  assumes "loaded md os L s"
  shows "ends_in (\<lambda>_. holding os L) E pan (mapped_model_drop md s)"
  using assms
  by (simp add: mapped_model_drop_def bnd_def on_world_def on_os_def ggml_free_def ggml_backend_buffer_free_def release_def
      loaded_def mapped_def holding_def flip: set_mset_mset)

section \<open>A small file\<close>

text \<open>A file system with one small model file, an address space with room for it, a library that allocates.\<close>

definition model_file :: "u8 list" where
  "model_file = put_gguf sample_source @ replicate 49 0"

definition sample_os_env :: os_env where
  "sample_os_env = \<lparr>oe_open = (\<lambda>_ _. 3), oe_size = (\<lambda>_ _. Some 204), oe_mmap = (\<lambda>_ _ _ _. Some 4096), oe_advise = (\<lambda>_ _. True)\<rparr>"

definition sample_ggml :: ggml_env where
  "sample_ggml = \<lparr>ge_alloc = (\<lambda>_. True), ge_base = (\<lambda>_. 0), ge_status = (\<lambda>_. 0), ge_done = (\<lambda>_. 0), ge_eval = (\<lambda>_ _ _. [])\<rparr>"

definition sample_sys :: sys where
  "sample_sys = \<lparr>sy_os = \<lparr>os_fds = [], os_maps = [], os_log = []\<rparr>, sy_world = \<lparr>w_next = 0, w_live = [], w_mem = (\<lambda>i. []), w_nodes = [], w_vals = (\<lambda>i. [])\<rparr>\<rparr>"

abbreviation "sample_load \<equiv>
  mapped_model_load (\<lambda>_. True) (\<lambda>_. Some model_file) sample_os_env sample_ggml ''m.gguf'' sample_sys"

lemma sample_from_file: "gguf_from_file (\<lambda>_. True) (\<lambda>_. Some model_file) ''m.gguf'' = Ret (header_of sample_source 192)"
  by (simp add: gguf_from_file_def model_file_def sample_parse)

lemma sample_tensors: "gh_tensors (header_of sample_source 192) = [\<lparr>ti_name = ''w'', ti_dims = [2, 3], ti_type = 1, ti_offset = 0\<rparr>]"
  "gh_data_offset (header_of sample_source 192) = 192"
  by (simp_all add: header_of_def sample_source_def)

lemma sample_opens:
  "file_mapper_open sample_os_env ''m.gguf'' \<lparr>os_fds = [], os_maps = [], os_log = []\<rparr> =
     (Ret \<lparr>fm_fd = 3, fm_ptr = 4096, fm_total = 204\<rparr>, \<lparr>os_fds = [3], os_maps = [(4096, 204)], os_log = []\<rparr>)"
  by (simp add: file_mapper_open_def safe_open_def file_size_def safe_mmap_def map_pages_def close_on_err_def sample_os_env_def bnd_def)

lemma sample_places:
  "\<exists>s'. load_tensor \<lparr>fm_fd = 3, fm_ptr = 4096, fm_total = 204\<rparr> \<lparr>bf_id = b, bf_base = 4096, bf_size = 204\<rparr> 4288 Map.empty
      \<lparr>ti_name = ''w'', ti_dims = [2, 3], ti_type = 1, ti_offset = 0\<rparr> s =
     (Ret [''w'' \<mapsto> (fresh_tensor (w_next (sy_world s)) 1 (D4 2 3 1 1), 4288)], s')"
proof -
  have ty: "ggml_type_from 1 = 1" by (simp add: ggml_type_from_def known_types_def)
  have ne: "ne_of [2, 3] = D4 2 3 1 1" by (simp add: ne_of_def Let_def)
  have nb: "nbytes (fresh_tensor i 1 (D4 2 3 1 1)) = 12" for i
    by (simp add: fresh_tensor_def nbytes_def nbytes_of_def type_size_def blck_size_def Let_def)
  have place: "\<exists>w'. place_tensor \<lparr>bf_id = b, bf_base = 4096, bf_size = 204\<rparr> 4288 \<lparr>ti_name = ''w'', ti_dims = [2, 3], ti_type = 1, ti_offset = 0\<rparr> w =
      (Ret (fresh_tensor (w_next w) 1 (D4 2 3 1 1)), w')" for w
    by (simp add: place_tensor_def gassert_def ty ne bnd_def ggml_new_tensor_def new_node_def nb)
  show ?thesis using place[of "sy_world s"] by (auto simp: load_tensor_def Let_def ty on_world_def bnd_def)
qed

lemma sample_loads:
  "\<exists>md s. sample_load = (Ret md, s) \<and> md_tensors md = [''w'' \<mapsto> (fresh_tensor 2 1 (D4 2 3 1 1), 4288)] \<and>
     md_mapper md = \<lparr>fm_fd = 3, fm_ptr = 4096, fm_total = 204\<rparr> \<and> md_header md = header_of sample_source 192"
proof -
  let ?w = "\<lambda>n live. \<lparr>w_next = n, w_live = live, w_mem = (\<lambda>i. []), w_nodes = [], w_vals = (\<lambda>i. [])\<rparr>"
  have buf: "ggml_backend_cpu_buffer_from_ptr sample_ggml 4096 204 (?w 0 []) =
      (Ret (Some \<lparr>bf_id = 0, bf_base = 4096, bf_size = 204\<rparr>) :: (_, load_error) outcome, ?w 1 [RBuffer 0])"
    by (simp add: ggml_backend_cpu_buffer_from_ptr_def gassert_def acquire_def sample_ggml_def bnd_def)
  have ctx: "ggml_init sample_ggml (?w 1 [RBuffer 0]) = (Ret (Some 1) :: (_, load_error) outcome, ?w 2 [RContext 1, RBuffer 0])"
    by (simp add: ggml_init_def acquire_def sample_ggml_def)
  obtain s' where t: "load_tensor \<lparr>fm_fd = 3, fm_ptr = 4096, fm_total = 204\<rparr> \<lparr>bf_id = 0, bf_base = 4096, bf_size = 204\<rparr> 4288 Map.empty
      \<lparr>ti_name = ''w'', ti_dims = [2, 3], ti_type = 1, ti_offset = 0\<rparr>
      \<lparr>sy_os = \<lparr>os_fds = [3], os_maps = [(4096, 204)], os_log = []\<rparr>, sy_world = ?w 2 [RContext 1, RBuffer 0]\<rparr> =
     (Ret [''w'' \<mapsto> (fresh_tensor 2 1 (D4 2 3 1 1), 4288)], s')"
    using sample_places[of 0 "\<lparr>sy_os = \<lparr>os_fds = [3], os_maps = [(4096, 204)], os_log = []\<rparr>, sy_world = ?w 2 [RContext 1, RBuffer 0]\<rparr>"]
    by auto
  show ?thesis
    by (simp add: mapped_model_load_def sample_from_file sample_tensors lift_outcome_def bnd_def on_os_def on_world_def
        sample_sys_def sample_opens buf[simplified] ctx[simplified] t[simplified])
qed

section \<open>Properties\<close>

text \<open>
  C16: what loading acquires. A load that succeeds leaves exactly one buffer and one context
  more in the library and one descriptor and one mapping more in the process, and dropping the
  model gives all of them back. A load that fails leaves the process as it was, and the library
  too, but for one error: when no context can be made, the buffer wrapped around the mapping
  stays.
\<close>

theorem load_ledger:
  "case mapped_model_load al fs oenv env path s of
     (Ret md, s') \<Rightarrow>
       mset (w_live (sy_world s')) = add_mset (RContext (md_ctx md)) (add_mset (RBuffer (bf_id (md_buf md))) (mset (w_live (sy_world s)))) \<and>
       (\<exists>s''. mapped_model_drop md s' = (Ret (), s'') \<and> sy_os s'' = sy_os s \<and> mset (w_live (sy_world s'')) = mset (w_live (sy_world s)))
   | (Fail e, s') \<Rightarrow> sy_os s' = sy_os s \<and>
       (if e = ContextNull then \<exists>b. mset (w_live (sy_world s')) = add_mset (RBuffer b) (mset (w_live (sy_world s)))
        else mset (w_live (sy_world s')) = mset (w_live (sy_world s)))
   | (Panic, s') \<Rightarrow> True"
proof -
  let ?os = "sy_os s" and ?L = "mset (w_live (sy_world s))"
  obtain r s' where r: "mapped_model_load al fs oenv env path s = (r, s')" by fastforce
  have l: "ends_in (\<lambda>md. loaded md ?os ?L) (load_failed ?os ?L) True (r, s')"
    using load_ends[of s al fs oenv env path] by (simp add: r)
  show ?thesis
  proof (cases r)
    case (Ret md)
    then have ld: "loaded md ?os ?L s'" using l by simp
    from drop_ends[OF this, where E = "\<lambda>_ _. False" and pan = False]
    obtain s'' where "mapped_model_drop md s' = (Ret (), s'')" "holding ?os ?L s''" by (rule ends_in_ret) auto
    then show ?thesis using ld by (simp add: r Ret loaded_def mapped_def holding_def)
  qed (use l in \<open>simp_all add: r load_failed_def\<close>)
qed



end
