(* ===== verification/Program_Properties.thy ===== *)
theory Program_Properties imports Generate_Live Loader_Properties begin

text \<open>
  The whole program: what a run of \<^verbatim>\<open>main\<close> leaves behind.
\<close>

section \<open>Running the graph inside the program\<close>

lemma graph_run_ok:
  assumes "graph_run env md w k s"
  shows "\<exists>L. engine_ok L s"
  using graph_run_inv[OF assms] by (auto simp: run_inv_def)

lemma run_prefill: "graph_run env md w k s \<Longrightarrow> ends_in (\<lambda>_ s'. \<exists>k. graph_run env md w k s') (\<lambda>_ s'. \<exists>k. graph_run env md w k s') True (prefill env md ids s)"
  by (cases "prefill env md ids s"; cases "fst (prefill env md ids s)")
    (auto intro: graph_run.prefilled graph_run.prefill_failed)

lemma run_decode: "graph_run env md w k s \<Longrightarrow> ends_in (\<lambda>_ s'. \<exists>k. graph_run env md w k s') (\<lambda>_ s'. \<exists>k. graph_run env md w k s') True (graph_decode_one env md t s)"
  by (cases "graph_decode_one env md t s"; cases "fst (graph_decode_one env md t s)")
    (auto intro: graph_run.decoded graph_run.decode_failed)

lemma run_reset: "graph_run env md w k s \<Longrightarrow>
    ends_in (\<lambda>_ s'. \<exists>k. graph_run env md w k s') (\<lambda>_ _. True) True (reset_kv s :: (unit, forward_error) outcome \<times> engine)"
  by (cases "reset_kv s :: (unit, forward_error) outcome \<times> engine"; cases "fst (reset_kv s) :: (unit, forward_error) outcome")
    (auto intro: graph_run.reset)

interpretation run_pass: forward_pass "graph_ops env md" "\<lambda>s. \<exists>k. graph_run env md w k s" for env md w
proof (unfold_locales, goal_cases)
  case (1 s)
  then show ?case using graph_run_ok graph_pass.head_bounds by blast
next
  case (2 s ids)
  then obtain k where k: "graph_run env md w k s" by blast
  show ?case
    by (simp, rule ends_in_mono[OF ends_in_conj[OF graph_pass.prefill_law[OF graph_run_ok[OF k] 2(2), simplified] run_prefill[OF k]]])
      (auto dest: graph_run_ok)
next
  case (3 s t)
  then obtain k where k: "graph_run env md w k s" by blast
  show ?case
    by (simp, rule ends_in_mono[OF ends_in_conj[OF graph_pass.decode_law[OF graph_run_ok[OF k], simplified] run_decode[OF k]]])
      (auto dest: graph_run_ok)
next
  case (4 s)
  then obtain k where k: "graph_run env md w k s" by blast
  show ?case
    by (simp, rule ends_in_mono[OF ends_in_conj[OF graph_pass.reset_law[OF graph_run_ok[OF k], simplified] run_reset[OF k]]])
      (auto dest: graph_run_ok)
qed

lemma ends_in_in_sys:
  assumes "ends_in (\<lambda>x s. Q x (p\<lparr>pr_sys := s\<rparr>)) (\<lambda>e s. E e (p\<lparr>pr_sys := s\<rparr>)) pan (m (pr_sys p))"
  shows "ends_in Q E pan (in_sys m p)"
  using assms by (cases "m (pr_sys p)"; cases "fst (m (pr_sys p))") (auto simp: in_sys_def)

lemma ends_in_in_ggml:
  assumes "ends_in (\<lambda>x w. Q x (p\<lparr>pr_sys := (pr_sys p)\<lparr>sy_world := w\<rparr>\<rparr>)) (\<lambda>e w. E e (p\<lparr>pr_sys := (pr_sys p)\<lparr>sy_world := w\<rparr>\<rparr>)) pan
    (m (sy_world (pr_sys p)))"
  shows "ends_in Q E pan (in_ggml m p)"
  using assms by (cases "m (sy_world (pr_sys p))"; cases "fst (m (sy_world (pr_sys p)))") (auto simp: in_ggml_def)

lemma engine_eta [simp]: "\<lparr>eg_graph = eg_graph e, eg_world = eg_world e\<rparr> = (e :: engine)"
  by (cases e) simp

text \<open>The dispatch leaves an engine of the run, and the rest of the process as it was.\<close>

lemma dispatch_ends:
  assumes "graph_run env md w k \<lparr>eg_graph = lg, eg_world = sy_world (pr_sys p)\<rparr>"
  shows "ends_in (\<lambda>(ok, lg) q. sy_os (pr_sys q) = sy_os (pr_sys p) \<and>
      (\<exists>k. graph_run env md w k \<lparr>eg_graph = lg, eg_world = sy_world (pr_sys q)\<rparr>)) (\<lambda>_ _. False) True
    (with_graph lg (dispatch (graph_ops env md) ho tok cfg ar lines) p)"
proof -
  let ?a = "\<lparr>ap_engine = \<lparr>eg_graph = lg, eg_world = sy_world (pr_sys p)\<rparr>, ap_tick = pr_tick p, ap_out = pr_out p\<rparr>"
  have "ends_in (\<lambda>_ b. \<exists>k. graph_run env md w k (ap_engine b)) (\<lambda>_ _. False) True (dispatch (graph_ops env md) ho tok cfg ar lines ?a)"
    by (rule run_pass.handled_dispatch[unfolded run_pass.handled_def, rule_format]) (use assms in auto)
  then show ?thesis
    by (cases "dispatch (graph_ops env md) ho tok cfg ar lines ?a"; cases "fst (dispatch (graph_ops env md) ho tok cfg ar lines ?a)")
      (auto simp: with_graph_def)
qed

lemma run_drop_ends:
  assumes "graph_run env md w k s"
  shows "ends_in (\<lambda>_ w'. \<exists>lost. mset (w_live w') = mset (w_live w) + lost \<and> losses k lost) E pan (llama_graph_drop (eg_graph s) (eg_world s))"
proof -
  obtain lost M where lost: "losses k lost" and
    h: "holds (mset (w_live w) + lost + base_resources (eg_graph s) + dec_resources (eg_graph s)) M (eg_world s)"
    using graph_run_inv[OF assms] unfolding run_inv_def engine_ok_def by blast
  show ?thesis
    using llama_graph_drop_frame[of "mset (w_live w) + lost" "eg_graph s" M E pan] h lost
    by (auto simp: spec_def holds_def intro: ends_in_mono)
qed

section \<open>The whole program\<close>

text \<open>
  What a finished run leaves: the descriptors, mappings and advice of before, and three
  resources for each call of the graph that met a missing tensor, nothing freed twice.
\<close>

definition cleaned :: "process \<Rightarrow> process \<Rightarrow> bool" where
  "cleaned p q \<longleftrightarrow>
     sy_os (pr_sys q) = sy_os (pr_sys p) \<and>
     (\<exists>lost. mset (w_live (sy_world (pr_sys q))) = mset (w_live (sy_world (pr_sys p))) + lost \<and> (\<exists>k. losses k lost))"

definition exits :: "process \<Rightarrow> nat \<Rightarrow> process \<Rightarrow> bool" where
  "exits p code q \<longleftrightarrow> (if code = 0 then cleaned p q else code = 1)"

lemma cleaned_refl: "pr_sys q = pr_sys p \<Longrightarrow> cleaned p q"
  by (auto simp: cleaned_def losses_def)

lemma exits_one: "ends_in (exits p) E pan (ret 1 q)"
  by (simp add: exits_def)

lemma help_ends: "ends_in (exits p) E True (bnd (print_help ho) (\<lambda>_. ret 0) p)"
  by (auto simp: exits_def bnd_def print_help_def print_out_def write_all_def intro!: cleaned_refl split: option.split)

lemma load_model_ends:
  "ends_in (\<lambda>(_, md, _) q. loaded md (sy_os (pr_sys p)) (mset (w_live (sy_world (pr_sys p)))) (pr_sys q))
     (\<lambda>_ _. True) True (in_sys (load_model al fs oenv env path a) p)"
proof -
  let ?Q = "\<lambda>md. loaded md (sy_os (pr_sys p)) (mset (w_live (sy_world (pr_sys p))))"
  have "ends_in (\<lambda>h s. s = pr_sys p) (\<lambda>_ _. True) True (lift_outcome (res_map_err BootHeader (gguf_from_file al fs path)) (pr_sys p))"
    by (cases "gguf_from_file al fs path") (simp_all add: lift_outcome_def)
  moreover have "ends_in ?Q (\<lambda>_ _. True) True (map_err BootLoad (mapped_model_load al fs oenv env path) (pr_sys p))"
    using load_ends[of "pr_sys p" al fs oenv env path]
    by (cases "mapped_model_load al fs oenv env path (pr_sys p)"; cases "fst (mapped_model_load al fs oenv env path (pr_sys p))")
      (auto simp: map_err_def)
  ultimately have l: "ends_in (\<lambda>(_, md, _). ?Q md) (\<lambda>_ _. True) True (load_model al fs oenv env path a (pr_sys p))"
    unfolding load_model_def
    by (intro ends_in_bnd[where R = "\<lambda>h s. s = pr_sys p"] ends_in_bnd[where R = ?Q]) auto
  show ?thesis by (rule ends_in_in_sys, rule ends_in_mono[OF l]) auto
qed

text \<open>From a loaded model and an engine of the run to the end of \<^verbatim>\<open>main\<close>.\<close>

lemma drops_end:
  assumes "loaded md (sy_os (pr_sys p)) (mset (w_live (sy_world (pr_sys p)))) (pr_sys q)"
    and "sy_os (pr_sys r) = sy_os (pr_sys q)" "graph_run env md (sy_world (pr_sys q)) k \<lparr>eg_graph = lg, eg_world = sy_world (pr_sys r)\<rparr>"
  shows "ends_in (exits p) (\<lambda>_ _. False) True
    (bnd (in_ggml (llama_graph_drop lg)) (\<lambda>_. bnd (attempt (in_sys (mapped_model_drop md))) (\<lambda>_. ret 0)) r)"
proof -
  let ?L = "mset (w_live (sy_world (pr_sys p)))"
  let ?R = "\<lambda>r. \<exists>lost. loaded md (sy_os (pr_sys p)) (?L + lost) (pr_sys r) \<and> (\<exists>k. losses k lost)"
  have "ends_in (\<lambda>_ r. ?R r) (\<lambda>_ _. False) True (in_ggml (llama_graph_drop lg) r)"
    by (rule ends_in_in_ggml, rule ends_in_mono[OF run_drop_ends[OF assms(3), where E = "\<lambda>_ _. False" and pan = True, simplified]])
      (use assms(1,2) in \<open>auto simp: loaded_def mapped_def\<close>)
  moreover have "ends_in (exits p) (\<lambda>_ _. False) True (bnd (attempt (in_sys (mapped_model_drop md))) (\<lambda>_. ret 0) r)"
    if r: "?R r" for r
  proof -
    from r obtain lost where lost: "loaded md (sy_os (pr_sys p)) (?L + lost) (pr_sys r)" "\<exists>k. losses k lost" by blast
    have "ends_in (\<lambda>_ r. cleaned p r) (\<lambda>_ _. False) True (attempt (in_sys (mapped_model_drop md)) r)"
      by (rule ends_in_attempt, rule ends_in_in_sys, rule ends_in_mono[OF drop_ends[OF lost(1), where E = "\<lambda>_ _. False" and pan = True]])
        (use lost(2) in \<open>auto simp: holding_def cleaned_def\<close>)
    then show ?thesis by (rule ends_in_bnd) (simp add: exits_def)
  qed
  ultimately show ?thesis by (rule ends_in_bnd)
qed

lemma program_ends: "ends_in (exits p) (\<lambda>_ _. False) True (main_program al fs oenv env ho raw lines p)"
proof -
  let ?a = "parse_args raw"
  let ?loaded = "\<lambda>md q. loaded md (sy_os (pr_sys p)) (mset (w_live (sy_world (pr_sys p)))) (pr_sys q)"
  have run: "ends_in (exits p) (\<lambda>_ _. False) True
      (bnd (with_graph lg (dispatch (graph_ops env md) ho tok cfg ?a lines)) (\<lambda>(ok, lg). if \<not> ok then ret 1
        else bnd (in_ggml (llama_graph_drop lg)) (\<lambda>_. bnd (attempt (in_sys (mapped_model_drop md))) (\<lambda>_. ret 0))) r)"
    if "?loaded md q" "sy_os (pr_sys r) = sy_os (pr_sys q)" "graph_run env md (sy_world (pr_sys q)) k \<lparr>eg_graph = lg, eg_world = sy_world (pr_sys r)\<rparr>"
    for md q r k lg tok cfg
    by (rule ends_in_bnd, rule dispatch_ends[OF that(3)])
      (use that(1,2) drops_end[OF that(1)] exits_one in \<open>auto simp del: sm_simps\<close>)
  have new: "ends_in (\<lambda>x r. case x of Inl _ \<Rightarrow> True | Inr lg \<Rightarrow> sy_os (pr_sys r) = sy_os (pr_sys q) \<and>
        graph_run env md (sy_world (pr_sys q)) 0 \<lparr>eg_graph = lg, eg_world = sy_world (pr_sys r)\<rparr>) (\<lambda>_ _. False) True
      (attempt (in_ggml (llama_graph_new env md)) q)" for md q
    by (rule ends_in_attempt, rule ends_in_in_ggml, cases "llama_graph_new env md (sy_world (pr_sys q))";
        cases "fst (llama_graph_new env md (sy_world (pr_sys q)))") (auto intro: graph_run.opened)
  have rest: "ends_in (exits p) (\<lambda>_ _. False) True
      ((case build_tokenizer header of Panic \<Rightarrow> abort | Fail _ \<Rightarrow> ret 1 | Ret tok \<Rightarrow>
        bnd (attempt (in_ggml (llama_graph_new env md))) (\<lambda>r. case r of Inl _ \<Rightarrow> ret 1 | Inr lg \<Rightarrow>
        bnd (with_graph lg (dispatch (graph_ops env md) ho tok cfg ?a lines)) (\<lambda>(ok, lg). if \<not> ok then ret 1
          else bnd (in_ggml (llama_graph_drop lg)) (\<lambda>_. bnd (attempt (in_sys (mapped_model_drop md))) (\<lambda>_. ret 0))))) q)"
    if "?loaded md q" for header md cfg q
  proof (cases "build_tokenizer header")
    case (Ret tok)
    show ?thesis
      unfolding Ret outcome.case
      by (rule ends_in_bnd, rule new) (use run[OF that] exits_one in \<open>auto split: sum.splits simp del: sm_simps\<close>)
  qed (use exits_one in \<open>simp_all add: abort_def del: sm_simps\<close>)
  have load: "ends_in (\<lambda>x q. case x of Inl _ \<Rightarrow> True | Inr (_, md, _) \<Rightarrow> ?loaded md q) (\<lambda>_ _. False) True
      (attempt (in_sys (load_model al fs oenv env path ?a)) p)" for path
    by (rule ends_in_attempt, rule ends_in_mono[OF load_model_ends]) (auto split: prod.splits)
  show ?thesis
    unfolding main_program_def Let_def
    using help_ends[of p] rest exits_one
    by (cases "ar_help ?a \<or> (\<not> ar_chat ?a \<and> \<not> ar_bench ?a \<and> ar_prompt ?a = None)")
      (simp only: simp_thms if_True, simp only: if_False, rule ends_in_bnd, rule load, auto split: sum.splits simp del: sm_simps)
qed

section \<open>Properties\<close>


end
