(* ===== verification/Command_Line.thy ===== *)
theory Command_Line imports Program Logits_Facts begin

text \<open>
  The command line from the user's side: settings, how they are written as arguments, and what
  the argument loop makes of any sequence of them. Numbers are written in decimal, a binary32
  value with all of its 149 decimals, and are read back as they were.
\<close>

section \<open>Decimal numbers read back\<close>

lemma dec_val_snoc: "dec_val (xs @ [c]) = dec_val xs * 10 + (of_char c - 48)"
  by (simp add: dec_val_def)

lemma dec_val_append: "dec_val (xs @ ys) = dec_val xs * 10 ^ length ys + dec_val ys"
proof (induction ys rule: rev_induct)
  case Nil
  show ?case by (simp add: dec_val_def)
next
  case (snoc y ys)
  then show ?case by (simp add: dec_val_snoc distrib_right mult.assoc flip: append_assoc)
qed

lemma digit_char:
  assumes "d < (10 :: nat)"
  shows "is_dec (char_of (48 + d))" "of_char (char_of (48 + d) :: char) = 48 + d" "to_lower (char_of (48 + d)) = char_of (48 + d)"
  using assms by (simp_all add: is_dec_def to_lower_def Let_def)

lemma dec_digits_ok: "dec_digits n \<noteq> [] \<and> list_all is_dec (dec_digits n) \<and> dec_val (dec_digits n) = n"
proof (induction n rule: dec_digits.induct)
  case (1 n)
  show ?case
  proof (cases "n < 10")
    case True
    then show ?thesis using digit_char[OF True] by (simp add: dec_digits.simps[of n] dec_val_def)
  next
    case False
    have "n mod 10 < 10" by simp
    then show ?thesis
      using 1[OF False] False digit_char[of "n mod 10"]
      by (simp add: dec_digits.simps[of n] dec_val_append) (simp add: dec_val_def)
  qed
qed

lemma dec_digits_length: "n < 10 ^ k \<Longrightarrow> 0 < k \<Longrightarrow> length (dec_digits n) \<le> k"
proof (induction n arbitrary: k rule: dec_digits.induct)
  case (1 n)
  show ?case
  proof (cases "n < 10")
    case False
    then obtain j where k: "k = Suc j" "0 < j" using 1(2,3) by (cases k; cases "k - 1") auto
    then have "n div 10 < 10 ^ j" using 1(2) by (simp add: less_mult_imp_div_less mult.commute)
    from 1(1)[OF False this k(2)] show ?thesis using False k by (simp add: dec_digits.simps[of n])
  qed (use 1 in \<open>simp add: dec_digits.simps[of n]\<close>)
qed

lemma digit_not_sign: "is_dec c \<Longrightarrow> c \<noteq> CHR ''+'' \<and> c \<noteq> CHR ''-'' \<and> c \<noteq> CHR ''.''"
  by (auto simp: is_dec_def)

lemma parse_usize_digits: "n < 2 ^ 64 \<Longrightarrow> parse_usize (dec_digits n) = Some n"
  using dec_digits_ok[of n] digit_not_sign[of "hd (dec_digits n)"]
  by (cases "dec_digits n") (auto simp: parse_usize_def Let_def)

text \<open>Exactly \<open>k\<close> digits.\<close>

definition padded :: "nat \<Rightarrow> nat \<Rightarrow> string" where
  "padded k n = replicate (k - length (dec_digits n)) (CHR ''0'') @ dec_digits n"

lemma padded_ok:
  assumes "n < 10 ^ k" "0 < k"
  shows "length (padded k n) = k" "list_all is_dec (padded k n)" "dec_val (padded k n) = n"
proof -
  have z: "dec_val (replicate j (CHR ''0'')) = 0" for j
    unfolding dec_val_def by (induction j) simp_all
  have "is_dec (CHR ''0'')" by (simp add: is_dec_def)
  then show "length (padded k n) = k" "list_all is_dec (padded k n)" "dec_val (padded k n) = n"
    using dec_digits_ok[of n] dec_digits_length[OF assms]
    by (auto simp: padded_def dec_val_append z list_all_iff)
qed

lemma mk32_num32: "mk32 (num32 x) = x"
proof (cases x)
  case (Bits32 w)
  have "unat w < 2 ^ 32" using unsigned_less[where w = w and ?'a = nat] by simp
  then have "(if 2 ^ 31 \<le> unat w then 2 ^ 31 else 0) + unat w mod 2 ^ 31 = unat w"
    using mod_mult_div_eq[of "unat w" "2 ^ 31"] by (auto simp: le_mod_geq)
  then show ?thesis by (simp add: Bits32 mk32_def num32_def bit_top32)
qed

text \<open>A finite binary32 value in full: it is a multiple of \<open>2 ^ -149\<close>.\<close>

definition show32 :: "f32 \<Rightarrow> string" where
  "show32 x =
     (let n = unit_val 23 (snd (num32 x)) * 5 ^ 149
      in (if fst (num32 x) then ''-'' else []) @ dec_digits (n div 10 ^ 149) @ ''.'' @ padded 149 (n mod 10 ^ 149))"

lemma parse_decimal_point:
  assumes "ip \<noteq> []" "list_all is_dec ip" "list_all is_dec fp"
  shows "parse_decimal32 (ip @ CHR ''.'' # fp) = Some (decimal32 (dec_val (ip @ fp)) (- int (length fp)))"
proof -
  have "\<not> is_dec (CHR ''.'')" by (simp add: is_dec_def)
  then have "takeWhile is_dec (ip @ CHR ''.'' # fp) = ip" "dropWhile is_dec (ip @ CHR ''.'' # fp) = CHR ''.'' # fp"
    "takeWhile is_dec fp = fp" "dropWhile is_dec fp = []"
    using assms by (simp_all add: takeWhile_append dropWhile_append list_all_iff)
  then show ?thesis using assms(1) by (simp only: parse_decimal32_def parse_exponent_def Let_def list.sel list.case option.map
      append_is_Nil_conv simp_thms if_True if_False list.distinct) simp
qed

lemma decimal32_exact:
  assumes "m < inf_mag 23 8"
  shows "decimal32 (unit_val 23 m * 5 ^ 149) (- 149) = mk32 (False, m)"
proof -
  have "(5 :: nat) ^ 149 * 2 ^ 149 = 10 ^ 149" by (simp flip: power_mult_distrib)
  then have "unit_val 23 m * 5 ^ 149 * 2 ^ 149 = unit_val 23 m * 10 ^ 149" by (simp only: mult.assoc)
  moreover have "round_mag 23 8 (unit_val 23 m * 10 ^ 149) (10 ^ 149) = m"
    by (rule round_mag_exact) (use assms in simp_all)
  moreover have "unit_exp 23 8 = 149" by (simp add: unit_exp_def)
  moreover have "decimal32 n (- 149) = lit32 n (10 ^ 149)" for n by (simp add: decimal32_def del: power_numeral)
  ultimately show ?thesis by (simp only: lit32_def fnum_ratio_def)
qed

text \<open>A sign before digits, whatever the digits are.\<close>

lemma parse_f32_signed:
  assumes "s = c # r" "is_dec c" "parse_decimal32 s = Some (mk32 (False, m))" "m < inf_mag 23 8"
  shows "parse_f32 ((if neg then ''-'' else []) @ s) = Some (mk32 (neg, m))"
proof -
  have low: "to_lower c = c" using assms(2) by (auto simp: is_dec_def to_lower_def Let_def)
  then have word: "map to_lower s \<noteq> ''inf''" "map to_lower s \<noteq> ''infinity''" "map to_lower s \<noteq> ''nan''"
    using assms(1,2) by (auto simp: is_dec_def)
  have sign: "split_sign ((if neg then ''-'' else []) @ s) = (neg, s)"
    using digit_not_sign[OF assms(2)] assms(1) by (simp add: split_sign_def)
  have "num32 (mk32 (False, m)) = (False, m)" by (rule num32_mk32) (use assms(4) in \<open>simp add: inf_mag32\<close>)
  moreover have "parse_f32 ((if neg then ''-'' else []) @ s) =
      Some (if neg then mk32 (fnum_neg (num32 (mk32 (False, m)))) else mk32 (False, m))"
    using word assms(3) unfolding parse_f32_def by (simp only: sign Let_def prod.case option.map if_False simp_thms)
  ultimately show ?thesis by (cases neg) (simp_all add: fnum_neg_def)
qed

lemma parse_f32_exact:
  assumes "is_finite32 x"
  shows "parse_f32 (show32 x) = Some x"
proof -
  define m where "m = snd (num32 x)"
  define n where "n = unit_val 23 m * 5 ^ 149"
  define ip where "ip = dec_digits (n div 10 ^ 149)"
  define fp where "fp = padded 149 (n mod 10 ^ 149)"
  have m: "m < inf_mag 23 8" using assms by (simp add: is_finite32_def m_def)
  have ip: "ip \<noteq> []" "list_all is_dec ip" "dec_val ip = n div 10 ^ 149" using dec_digits_ok by (simp_all add: ip_def)
  have "n mod 10 ^ 149 < 10 ^ 149" by (rule mod_less_divisor) simp
  from padded_ok[OF this] have fp: "length fp = 149" "list_all is_dec fp" "dec_val fp = n mod 10 ^ 149" by (simp_all add: fp_def)
  have "dec_val (ip @ fp) = n" by (simp only: dec_val_append ip fp div_mult_mod_eq)
  then have num: "parse_decimal32 (ip @ CHR ''.'' # fp) = Some (mk32 (False, m))"
    using parse_decimal_point[OF ip(1,2) fp(2)] decimal32_exact[OF m] fp(1) by (simp add: n_def)
  obtain c r where c: "ip = c # r" "is_dec c" using ip(1,2) by (cases ip) auto
  have "show32 x = (if fst (num32 x) then ''-'' else []) @ ip @ CHR ''.'' # fp"
    by (simp add: show32_def Let_def ip_def fp_def n_def m_def)
  moreover have "mk32 (fst (num32 x), m) = x" using mk32_num32[of x] by (simp add: m_def)
  ultimately show ?thesis using parse_f32_signed[OF _ c(2) num m] c(1) by simp
qed

section \<open>Settings\<close>

text \<open>What a user can ask for; any other word is ignored.\<close>

datatype setting =
    SModel string | SPrompt string | SChat | SBench | STokens nat | STemperature f32 | STop_p f32
  | SNo_template | SHelp | SWord string

fun written :: "setting \<Rightarrow> string list" where
  "written (SModel v) = [''--model'', v]"
| "written (SPrompt v) = [''--prompt'', v]"
| "written SChat = [''--chat'']"
| "written SBench = [''--bench'']"
| "written (STokens n) = [''--max-tokens'', dec_digits n]"
| "written (STemperature x) = [''--temperature'', show32 x]"
| "written (STop_p x) = [''--top-p'', show32 x]"
| "written SNo_template = [''--no-template'']"
| "written SHelp = [''--help'']"
| "written (SWord w) = [w]"

fun applied :: "args \<Rightarrow> setting \<Rightarrow> args" where
  "applied a (SModel v) = a\<lparr>ar_model_path := Some v\<rparr>"
| "applied a (SPrompt v) = a\<lparr>ar_prompt := Some v\<rparr>"
| "applied a SChat = a\<lparr>ar_chat := True\<rparr>"
| "applied a SBench = a\<lparr>ar_bench := True\<rparr>"
| "applied a (STokens n) = a\<lparr>ar_max_tokens := Some n\<rparr>"
| "applied a (STemperature x) = a\<lparr>ar_temperature := Some x\<rparr>"
| "applied a (STop_p x) = a\<lparr>ar_top_p := Some x\<rparr>"
| "applied a SNo_template = a\<lparr>ar_no_chat_template := True\<rparr>"
| "applied a SHelp = a\<lparr>ar_help := True\<rparr>"
| "applied a (SWord w) = a"

definition option_words :: "string list" where
  "option_words =
     [''--model'', ''-m'', ''--prompt'', ''-p'', ''--chat'', ''-c'', ''--bench'', ''-b'', ''--no-template'', ''--help'', ''-h'',
      ''--max-tokens'', ''-n'', ''--temperature'', ''-t'', ''--top-p'']"

fun writable :: "setting \<Rightarrow> bool" where
  "writable (STokens n) \<longleftrightarrow> n < 2 ^ 64"
| "writable (STemperature x) \<longleftrightarrow> is_finite32 x"
| "writable (STop_p x) \<longleftrightarrow> is_finite32 x"
| "writable (SWord w) \<longleftrightarrow> w \<notin> set option_words"
| "writable _ \<longleftrightarrow> True"

lemma arg_loop_setting:
  assumes "writable st"
  shows "arg_loop a (written st @ rest) = arg_loop (applied a st) rest"
  using assms by (cases st) (simp_all add: next_arg_def parse_usize_digits parse_f32_exact option_words_def)

lemma arg_loop_settings: "list_all writable sts \<Longrightarrow> arg_loop a (concat (map written sts)) = foldl applied a sts"
  by (induction sts arbitrary: a) (simp_all add: arg_loop_setting)

text \<open>
  C20: the command line gives the settings back. Whatever settings are written, in any order and
  number, with unknown words among them, the loop returns the defaults with each setting
  applied in turn, so that the last of a kind wins: a value is taken as it stands even where it
  looks like an option, a token limit below \<open>2 ^ 64\<close> is read as the number it was, and every
  finite temperature or \<^verbatim>\<open>top_p\<close>, written in full, is read as the same binary32 value.
\<close>

theorem args_roundtrip:
  assumes "list_all writable sts"
  shows "parse_args (concat (map written sts)) = foldl applied default_args sts"
  unfolding parse_args_def by (rule arg_loop_settings[OF assms])

theorem args_roundtrip_witness:
  "parse_args [''--prompt'', ''--chat'', ''-x'', ''--max-tokens'', dec_digits 40, ''--top-p'', show32 (Bits32 0x3DCCCCCD)] =
     default_args\<lparr>ar_prompt := Some ''--chat'', ar_max_tokens := Some 40, ar_top_p := Some (Bits32 0x3DCCCCCD)\<rparr>"
proof -
  have "list_all writable [SPrompt ''--chat'', SWord ''-x'', STokens 40, STop_p (Bits32 0x3DCCCCCD)]"
    by (simp add: option_words_def is_finite32_def num32_def inf_mag_def)
  from args_roundtrip[OF this] show ?thesis by simp
qed

end
