(* ===== verification/Graph_Limits.thy ===== *)
theory Graph_Limits imports Graph_Facts begin

text \<open>
  The limits the program sets when it creates a graph (\<^verbatim>\<open>src/src/graph.rs\<close>: 8192 nodes for a
  prefill, 16384 for the decode graph). The library aborts when a graph outgrows its limit;
  here the tensors that one build creates are counted, layer by layer, so that the model's
  graphs never reach it for the depths that are in use.
\<close>

definition PREFILL_GRAPH_SIZE :: nat where
  "PREFILL_GRAPH_SIZE = 8192"

definition DECODE_GRAPH_SIZE :: nat where
  "DECODE_GRAPH_SIZE = 16384"

section \<open>Counting tensors\<close>

definition creates :: "nat \<Rightarrow> ('a, 'e) act \<Rightarrow> bool" where
  "creates n m \<longleftrightarrow> (\<forall>w. length (w_nodes (snd (m w))) \<le> length (w_nodes w) + n)"

named_theorems creates_intros \<open>how many tensors an operation creates\<close>

lemma creates_none [creates_intros]:
  "creates 0 (ret x)" "creates 0 (fail e)" "creates 0 abort" "creates 0 (acquire env k)"
  "creates 0 (release r)" "creates 0 (ggml_gallocr_alloc_graph env)" "creates 0 (ggml_backend_graph_compute env cs)"
  by (simp_all add: creates_def acquire_def release_def ggml_gallocr_alloc_graph_def
      ggml_backend_graph_compute_def Let_def)

lemma add_within: "(x :: nat) \<le> y + b \<Longrightarrow> y \<le> z + a \<Longrightarrow> x \<le> z + (a + b)"
  by simp

lemma creates_bnd [creates_intros]:
  assumes "creates a m" "\<And>x. creates b (f x)" shows "creates (a + b) (bnd m f)"
  unfolding creates_def
proof (intro allI)
  fix w
  obtain r t where m: "m w = (r, t)" by fastforce
  show "length (w_nodes (snd (bnd m f w))) \<le> length (w_nodes w) + (a + b)"
    using assms(1)[unfolded creates_def, rule_format, of w] m
      assms(2)[unfolded creates_def, rule_format, of _ t]
    by (cases r) (auto intro: add_within)
qed

lemma creates_le: "creates a m \<Longrightarrow> a \<le> b \<Longrightarrow> creates b m"
  by (auto simp: creates_def intro: order_trans)

lemma creates_assert [creates_intros]: "creates n m \<Longrightarrow> creates n (gassert c m)"
  by (simp add: gassert_def creates_le[OF creates_none(3) le0] del: sm_simps)

lemma creates_ok_or [creates_intros]: "creates 0 (ok_or e m)"
  by (cases m) (simp_all add: creates_none del: sm_simps)

lemma creates_node [creates_intros]: "creates 1 (new_node op srcs mk)"
  by (simp add: creates_def new_node_def)

lemma creates_prod [creates_intros]: "(\<And>a b. creates n (f a b)) \<Longrightarrow> creates n (case p of (a, b) \<Rightarrow> f a b)"
  by (cases p) simp

lemma creates_write [creates_intros]: "creates 0 (ggml_backend_tensor_set t ws offs sz)" "creates 0 (ggml_backend_tensor_alloc b t addr)"
  by (simp_all add: creates_def ggml_backend_tensor_set_def ggml_backend_tensor_alloc_def gassert_def)

lemma creates_ops [creates_intros]:
  "creates 1 (ggml_new_tensor ty ne)" "creates 1 (ggml_get_rows a b)" "creates 1 (ggml_rms_norm a eps)"
  "creates 1 (ggml_mul a b)" "creates 1 (ggml_add a b)" "creates 1 (ggml_mul_mat a b)" "creates 1 (ggml_scale a x)"
  "creates 1 (ggml_silu a)" "creates 1 (ggml_cont a)" "creates 1 (ggml_reshape_2d a n m)"
  "creates 1 (ggml_reshape_3d a n m k)" "creates 1 (ggml_view_1d a n offs)" "creates 1 (ggml_view_2d a n m nb offs)"
  "creates 1 (ggml_permute_0213 a)" "creates 1 (ggml_permute_1203 a)" "creates 1 (ggml_soft_max_ext a msk x y)"
  "creates 1 (ggml_rope_ext a b n mode nc ps)" "creates 1 (ggml_cpy a b)"
  unfolding ggml_op_defs Let_def by (intro creates_intros)+

lemma creates_loop:
  assumes "\<And>x a. creates n (f x a)" shows "creates (n * length as) (loop f x as)"
proof (induction as arbitrary: x)
  case (Cons a as)
  have "creates (n + n * length as) (loop f x (a # as))"
    using creates_bnd[OF assms Cons.IH] by (simp del: sm_simps add: loop.simps)
  then show ?case by simp
qed (simp add: creates_none del: sm_simps add: loop.simps)

section \<open>The layers\<close>

lemma creates_weight [creates_intros]: "creates 0 (weight md l name)"
  and creates_top_weight [creates_intros]: "creates 0 (top_weight md name)"
  unfolding weight_def top_weight_def by (rule creates_ok_or)+

lemma creates_head_dim [creates_intros]: "creates 0 (head_dim hp)"
  unfolding head_dim_def by (simp add: creates_none del: sm_simps)

lemma creates_rope [creates_intros]: "creates 1 (rope hp a p)"
  unfolding rope_def by (rule creates_intros)

lemma creates_qkv [creates_intros]: "creates 14 (layer_qkv md hp hdim l n pos cur)"
  unfolding layer_qkv_def by (rule creates_le, (rule creates_intros)+, simp)

lemma creates_attend [creates_intros]: "creates 16 (attend hp hdim n kv_len msk q k v)"
  unfolding attend_def by (rule creates_le, (rule creates_intros)+, simp)

lemma creates_layer_out [creates_intros]: "creates 10 (layer_out md hp l cur av)"
  unfolding layer_out_def by (rule creates_le, (rule creates_intros)+, simp)

lemma creates_final_norm [creates_intros]: "creates 2 (final_norm md hp cur)"
  unfolding final_norm_def by (rule creates_le, (rule creates_intros)+, simp)

lemma creates_forward_layer [creates_intros]: "creates 46 (forward_layer md hp kv hdim n pos acc l)"
  unfolding forward_layer_def Let_def by (rule creates_le, (rule creates_intros)+, simp)

lemma creates_decode_layer [creates_intros]: "creates 42 (decode_layer md hp kv hdim pos msk acc l)"
  unfolding decode_layer_def Let_def by (rule creates_le, (rule creates_intros)+, simp)

lemma creates_forward_logits [creates_intros]: "creates 4 (forward_logits md hp n cur)"
  unfolding forward_logits_def by (rule creates_le, (rule creates_intros)+, simp)

lemma creates_layers [creates_intros]:
  "creates (46 * L) (loop (forward_layer md hp kv hdim n pos) acc [0..<L])"
  "creates (42 * L) (loop (decode_layer md hp kv hdim pos msk) acc' [0..<L])"
  using creates_loop[OF creates_forward_layer, of "[0..<L]"] creates_loop[OF creates_decode_layer, of "[0..<L]"]
  by simp_all

lemma creates_decode_nodes [creates_intros]: "creates (42 * nat (hp_layer hp) + 4) (decode_nodes md hp kv hdim a b c)"
  unfolding decode_nodes_def by (rule creates_le, (rule creates_intros)+, simp)


section \<open>Whole builds\<close>

lemma creates_seq: "creates a m \<Longrightarrow> (\<And>x. creates b (f x)) \<Longrightarrow> a + b \<le> c \<Longrightarrow> creates c (bnd m f)"
  by (rule creates_le[OF creates_bnd])

lemma creates_alloc [creates_intros]:
  "creates 0 (ggml_init env)" "creates 0 (ggml_gallocr_new env)" "creates 0 (ggml_free c)"
  "creates 0 (ggml_backend_buffer_free b)" "creates 0 (ggml_gallocr_free g)"
  unfolding ggml_init_def ggml_gallocr_new_def ggml_free_def ggml_backend_buffer_free_def ggml_gallocr_free_def
  by (rule creates_none)+

lemma creates_buffer [creates_intros]: "creates 0 (ggml_backend_alloc_buffer env n)"
  unfolding ggml_backend_alloc_buffer_def by (rule creates_seq[OF creates_none(4) creates_none(1)]) simp

lemma creates_release_all [creates_intros]: "creates 0 (release_all c d b)"
  unfolding release_all_def
  by (rule creates_seq[OF creates_alloc(3) creates_seq[OF creates_alloc(3) creates_alloc(4)]]) simp_all

lemma creates_failed:
  "creates a (fail e)" "creates a (bnd (ggml_backend_buffer_free b) (\<lambda>_. fail e))"
  "creates a (bnd (ggml_free c) (\<lambda>_. bnd (ggml_backend_buffer_free b) (\<lambda>_. fail e)))"
  "creates a (bnd (release_all c d b) (\<lambda>_. fail e))"
  using creates_seq[OF creates_alloc(4) creates_none(2), of a]
    creates_seq[OF creates_release_all creates_none(2), of a]
  by (auto intro!: creates_seq[OF creates_alloc(3), of 0] creates_seq[OF creates_alloc(4) creates_none(2)] creates_le[OF creates_none(2) le0] simp del: sm_simps)

lemma creates_case_option:
  "creates a f \<Longrightarrow> (\<And>x. creates a (g x)) \<Longrightarrow> creates a (case p of None \<Rightarrow> f | Some x \<Rightarrow> g x)"
  by (cases p) simp_all

lemma creates_if: "creates a f \<Longrightarrow> creates a g \<Longrightarrow> creates a (if c then f else g)"
  by simp

lemma creates_forward_inputs: "creates 2 (forward_inputs env tokens pos)"
proof -
  have "creates (0 + (0 + (1 + (0 + (0 + (1 + (0 + (0 + 0)))))))) (forward_inputs env tokens pos)"
    unfolding forward_inputs_def Let_def
    by (intro creates_failed creates_intros creates_case_option creates_if)
  then show ?thesis by (rule creates_le) simp
qed


lemma creates_forward_build: "creates (46 * nat (hp_layer hp) + 7) (forward_build env md hp kv tokens pos)"
proof -
  have "creates (2 + (0 + (0 + (1 + (0 + (46 * nat (hp_layer hp) + (4 + 0))))))) (forward_build env md hp kv tokens pos)"
    unfolding forward_build_def Let_def
    by (intro creates_failed creates_forward_inputs creates_intros creates_case_option creates_if)
  then show ?thesis by (rule creates_le) simp
qed

lemma creates_persist [creates_intros]: "creates 0 (persist_decode_graph env ic c b t p m lg ks vs)"
proof -
  have f: "creates 0 (bnd (ggml_gallocr_free g) (\<lambda>_. bnd (ggml_free i) (\<lambda>_. bnd (ggml_free c) (\<lambda>_.
      bnd (ggml_backend_buffer_free b) (\<lambda>_. fail e)))))" for g i c b e
    by (intro creates_seq[OF creates_alloc(5), of 0] creates_seq[OF creates_alloc(3), of 0] creates_failed) simp_all
  have g: "creates 0 (bnd (ggml_free i) (\<lambda>_. bnd (ggml_free c) (\<lambda>_. bnd (ggml_backend_buffer_free b) (\<lambda>_. fail e))))" for i c b e
    by (intro creates_seq[OF creates_alloc(3), of 0] creates_failed) simp_all
  have "creates (0 + (0 + 0)) (persist_decode_graph env ic c b t p m lg ks vs)"
    unfolding persist_decode_graph_def add_0_right
    by (intro creates_case_option creates_if f g creates_none(1) creates_alloc creates_none(6) creates_seq[of 0 _ 0 _ 0]) simp_all
  then show ?thesis by simp
qed

lemma creates_build_decode: "creates (42 * nat (hp_layer hp) + 7) (build_decode_graph env md hp kv)"
proof -
  have "creates (0 + (0 + (0 + (1 + (0 + (1 + (0 + (1 + (0 + (0 + (0 + ((42 * nat (hp_layer hp) + 4) + 0))))))))))))
      (build_decode_graph env md hp kv)"
    unfolding build_decode_graph_def Let_def
    by (intro creates_failed creates_intros creates_case_option creates_if)
  then show ?thesis by (rule creates_le) simp
qed

section \<open>Context pools\<close>

text \<open>
  Every tensor takes an object header and a tensor structure from the pool of its context, and a
  graph takes its arrays from it; the library does not survive a pool that is too small. The
  sizes below are those of the vendored release on a 64-bit machine.
\<close>

definition GGML_OBJECT_SIZE :: nat where
  "GGML_OBJECT_SIZE = 32"

definition GGML_TENSOR_SIZE :: nat where
  "GGML_TENSOR_SIZE = 336"

definition tensor_overhead :: nat where
  "tensor_overhead = GGML_OBJECT_SIZE + GGML_TENSOR_SIZE"

definition hash_primes :: "nat list" where
  "hash_primes =
     [2, 3, 5, 11, 17, 37, 67, 131, 257, 521, 1031, 2053, 4099, 8209, 16411, 32771, 65537, 131101, 262147,
      524309, 1048583, 2097169, 4194319, 8388617, 16777259, 33554467, 67108879, 134217757, 268435459,
      536870923, 1073741827, 2147483659]"

text \<open>The smallest listed prime that is large enough, or the number itself, made odd.\<close>

definition ggml_hash_size :: "nat \<Rightarrow> nat" where
  "ggml_hash_size min_sz =
     (case dropWhile (\<lambda>p. p < min_sz) hash_primes of p # _ \<Rightarrow> p | [] \<Rightarrow> min_sz + (if even min_sz then 1 else 0))"

definition graph_nbytes :: "nat \<Rightarrow> nat" where
  "graph_nbytes sz =
     (let hash_size = ggml_hash_size (sz * 2)
      in 72 + sz * 8 + sz * 8 + hash_size * 8 + (hash_size + 31) div 32 * 4)"

definition pad16 :: "nat \<Rightarrow> nat" where
  "pad16 n = (n + 15) div 16 * 16"

definition graph_overhead :: "nat \<Rightarrow> nat" where
  "graph_overhead sz = GGML_OBJECT_SIZE + pad16 (graph_nbytes sz)"

text \<open>The pools the program asks for.\<close>

definition INPUT_POOL :: nat where
  "INPUT_POOL = 4096"

definition PREFILL_POOL :: nat where
  "PREFILL_POOL = 64 * 1024 * 1024"

definition DECODE_INPUT_POOL :: nat where
  "DECODE_INPUT_POOL = 8192"

definition DECODE_POOL :: nat where
  "DECODE_POOL = 128 * 1024 * 1024"

definition kv_pool :: "nat \<Rightarrow> nat" where
  "kv_pool n_layers = (n_layers * 2 + 16) * 512"

definition desc_mem :: "usize \<Rightarrow> usize" where
  "desc_mem n_tensors = (n_tensors + 16) * 512"

definition created :: "('a, 'e) act \<Rightarrow> world \<Rightarrow> nat" where
  "created m w = length (w_nodes (snd (m w))) - length (w_nodes w)"

lemma createdI: "creates n m \<Longrightarrow> created m w \<le> n"
  by (auto simp: creates_def created_def dest!: spec[of _ w])

lemma graph_overheads: "graph_overhead PREFILL_GRAPH_SIZE = 264528" "graph_overhead DECODE_GRAPH_SIZE = 528528"
  by (simp_all add: graph_overhead_def graph_nbytes_def ggml_hash_size_def hash_primes_def pad16_def
      GGML_OBJECT_SIZE_def PREFILL_GRAPH_SIZE_def DECODE_GRAPH_SIZE_def)

lemma creates_kv_layer: "creates 2 (kv_layer buf bp n row nc kvs i)"
  unfolding kv_layer_def by (rule creates_le, (rule creates_intros)+, simp)

lemma creates_kv_zero: "creates 0 (kv_zero bp n u kv)"
  unfolding kv_zero_def by (rule creates_le, (rule creates_intros)+, simp)

lemma creates_kv_new: "creates (2 * n) (kv_new env n h d c)"
proof -
  have l: "creates (2 * n) (loop (kv_layer b bp n row nc) x [0..<n])" for b bp row nc x
    using creates_loop[OF creates_kv_layer, of "[0..<n]"] by simp
  have z: "creates 0 (loop (kv_zero bp m) () ps)" for bp m ps
    using creates_loop[where f = "kv_zero bp m", OF creates_kv_zero, of ps] by simp
  have a: "creates m abort" for m using creates_le[OF creates_none(3) le0] .
  have "creates (0 + (0 + (2 * n + (0 + 0)))) (kv_new env n h d c)"
    unfolding kv_new_def Let_def by (intro a creates_case_option creates_if l z creates_intros)
  then show ?thesis by simp
qed

text \<open>Loading creates at most one descriptor per tensor of the header.\<close>

lemma load_tensor_nodes:
  "length (w_nodes (sy_world (snd (load_tensor fm buf db ts ti s)))) \<le> length (w_nodes (sy_world s)) + 1"
proof -
  have "creates 1 (place_tensor buf (db + ti_offset ti) ti :: (tensor, load_error) act)"
    unfolding place_tensor_def
    by (intro creates_assert creates_seq[OF creates_ops(1)] creates_le[OF creates_none(1)]) simp_all
  then show ?thesis
    by (auto simp: load_tensor_def Let_def on_world_def bnd_def creates_def split: prod.split outcome.split
        dest!: spec[of _ "sy_world s"])
qed

lemma load_loop_nodes:
  "length (w_nodes (sy_world (snd (loop (load_tensor fm buf db) ts tis s)))) \<le> length (w_nodes (sy_world s)) + length tis"
proof (induction tis arbitrary: ts s)
  case (Cons ti tis)
  obtain r t where l: "load_tensor fm buf db ts ti s = (r, t)" by fastforce
  have one: "length (w_nodes (sy_world t)) \<le> length (w_nodes (sy_world s)) + 1"
    using load_tensor_nodes[of fm buf db ts ti s] l by simp
  show ?case
  proof (cases r)
    case (Ret x)
    then show ?thesis using one Cons.IH[of x t] l by (simp add: bnd_def)
  qed (use one l in \<open>simp_all add: bnd_def\<close>)
qed simp

text \<open>
  C21: the graphs stay within the limits they are created with: whatever the weights and the
  environment, one prefill creates at most 46 tensors per layer and 7 more, one decode graph at
  most 42 per layer and 7 more, counting inputs; so up to 177 layers (the models served have 32)
  neither graph can reach the node limit at which the library aborts.
\<close>

theorem graph_within_limits:
  "(let n = length (w_nodes (snd (forward_build env md hp kv tokens pos w))) - length (w_nodes w) in
      n \<le> 46 * nat (hp_layer hp) + 7 \<and> (hp_layer hp \<le> 177 \<longrightarrow> n < PREFILL_GRAPH_SIZE)) \<and>
   (let n = length (w_nodes (snd (build_decode_graph env md hp kv w))) - length (w_nodes w) in
      n \<le> 42 * nat (hp_layer hp) + 7 \<and> (hp_layer hp \<le> 389 \<longrightarrow> n < DECODE_GRAPH_SIZE))"
  using creates_forward_build[of hp env md kv tokens pos] creates_build_decode[of hp env md kv]
  by (auto simp: creates_def Let_def PREFILL_GRAPH_SIZE_def DECODE_GRAPH_SIZE_def dest!: spec[of _ w])

definition llama_8b :: hparams where
  "llama_8b = \<lparr>hp_vocab = 128256, hp_embd = 4096, hp_head = 32, hp_head_kv = 8, hp_layer = 32, hp_ff = 14336,
     hp_rot = 128, hp_freq_base = of_nat32 500000, hp_eps = 1 div of_nat32 100000\<rparr>"

lemma llama_depth: "hp_layer llama_8b \<le> 177" "hp_layer llama_8b \<le> 389"
  by (simp_all add: llama_8b_def)

theorem graph_within_limits_witness:
  "\<forall>env md kv tokens pos w. length (w_nodes (snd (forward_build env md llama_8b kv tokens pos w))) - length (w_nodes w) < 8192"
proof (intro allI)
  fix env md kv tokens pos w
  show "length (w_nodes (snd (forward_build env md llama_8b kv tokens pos w))) - length (w_nodes w) < 8192"
    using graph_within_limits[of env md llama_8b kv tokens pos w]
    by (simp add: PREFILL_GRAPH_SIZE_def Let_def llama_8b_def)
qed


text \<open>
  C22: no context the program makes runs out of its pool: the inputs of a prefill, a prefill's
  graph up to 177 layers, the decode graph up to 389, the cache for any number of layers and the
  weight descriptors for any header need no more bytes, with the headers and structures of the
  library, than the size the program asks for.
\<close>

theorem contexts_suffice:
  "created (forward_inputs env tokens pos) w * tensor_overhead \<le> INPUT_POOL \<and>
   (hp_layer hp \<le> 177 \<longrightarrow>
      graph_overhead PREFILL_GRAPH_SIZE + created (forward_build env md hp kv tokens pos) w * tensor_overhead \<le> PREFILL_POOL) \<and>
   3 * tensor_overhead \<le> DECODE_INPUT_POOL \<and>
   (hp_layer hp \<le> 389 \<longrightarrow>
      graph_overhead DECODE_GRAPH_SIZE + created (build_decode_graph env md hp kv) w * tensor_overhead \<le> DECODE_POOL) \<and>
   created (kv_new env n n_head_kv hdim n_ctx :: (kv_cache, graph_error) act) w * tensor_overhead \<le> kv_pool n \<and>
   (length tis < 2 ^ 54 \<longrightarrow>
      (length (w_nodes (sy_world (snd (loop (load_tensor fm buf base) ts tis s)))) - length (w_nodes (sy_world s))) * tensor_overhead
        \<le> unat (desc_mem (of_nat (length tis))))"
  (is "?in \<and> (_ \<longrightarrow> ?pre) \<and> ?din \<and> (_ \<longrightarrow> ?dec) \<and> ?kv \<and> (_ \<longrightarrow> ?ld)")
proof (intro conjI impI)
  note oh = tensor_overhead_def GGML_OBJECT_SIZE_def GGML_TENSOR_SIZE_def
  show ?in using createdI[OF creates_forward_inputs, of env tokens pos w] by (simp add: oh INPUT_POOL_def)
  show ?din by (simp add: oh DECODE_INPUT_POOL_def)
  have "created (kv_new env n n_head_kv hdim n_ctx :: (kv_cache, graph_error) act) w \<le> 2 * n"
    by (rule createdI[OF creates_kv_new])
  then show ?kv by (simp add: oh kv_pool_def)
  show ?pre if "hp_layer hp \<le> 177"
    using that createdI[OF creates_forward_build, of env md hp kv tokens pos w]
    by (simp add: graph_overheads oh PREFILL_POOL_def)
  show ?dec if "hp_layer hp \<le> 389"
    using that createdI[OF creates_build_decode, of env md hp kv w]
    by (simp add: graph_overheads oh DECODE_POOL_def)
  assume n: "length tis < 2 ^ 54"
  then have "unat (of_nat (length tis) :: usize) = length tis" by (simp add: unat_of_nat)
  then have "unat (desc_mem (of_nat (length tis))) = (length tis + 16) * 512"
    using n by (simp add: desc_mem_def unat_word_ariths)
  then show ?ld using load_loop_nodes[of fm buf base ts tis s] by (simp add: oh)
qed

theorem contexts_suffice_witness:
  "\<forall>env md kv w. graph_overhead DECODE_GRAPH_SIZE + created (build_decode_graph env md llama_8b kv) w * tensor_overhead \<le> DECODE_POOL"
proof (intro allI)
  fix env md kv w
  show "graph_overhead DECODE_GRAPH_SIZE + created (build_decode_graph env md llama_8b kv) w * tensor_overhead \<le> DECODE_POOL"
    using contexts_suffice[of env "[]" 0 w llama_8b md kv 0 0 0 0 "[]"] llama_depth by blast
qed

end
