(* ===== verification/Source_Tests.thy ===== *)
theory Source_Tests imports Generate Tokenizer_Properties Logits_Properties begin

text \<open>
  The unit tests of the repository (the \<^verbatim>\<open>tests\<close> modules of \<^verbatim>\<open>tokenizer.rs\<close>, \<^verbatim>\<open>logits.rs\<close> and
  \<^verbatim>\<open>generate.rs\<close>), run on the model: each test is a predicate with the test's inputs and
  assertions. The greedy sampling test takes the exponential and the sorting routines as
  arguments. The binary64 arithmetic of the throughput test is evaluated with the correctly
  rounded results given (\<open>round_mag_exact\<close>) or bounded (\<open>round_mag_mono\<close>).
\<close>

section \<open>tokenizer.rs\<close>

definition minimal_tokenizer :: "(tokenizer, tokenizer_error) outcome" where
  "minimal_tokenizer =
     (let tokens = [''<unk>'', ''h'', ''e'', ''l'', ''o'', ''he'', ''hel'', ''hell'', ''hello'', '' ''];
          scores = replicate (length tokens) 0;
          types = [2, 1, 1, 1, 1, 1, 1, 1, 1, 1];
          merges = [''h e'', ''he l'', ''hel l'', ''hell o'']
      in from_gguf_parts tokens scores types merges)"

definition encode_hello :: bool where
  "encode_hello \<longleftrightarrow> res_bind minimal_tokenizer (\<lambda>t. encode_no_bos t ''hello'') = Ret [8]"

definition decode_roundtrip :: bool where
  "decode_roundtrip \<longleftrightarrow>
     res_bind minimal_tokenizer (\<lambda>t. res_bind (encode_no_bos t ''hello'') (\<lambda>ids. Ret (decode t ids))) = Ret ''hello''"

definition bos_prepend :: bool where
  "bos_prepend \<longleftrightarrow>
     res_bind minimal_tokenizer (\<lambda>t. res_bind (encode t ''hello'' True) (\<lambda>ids. Ret (ids ! 0))) = Ret TOKEN_BOS"

definition byte_token_parse :: bool where
  "byte_token_parse \<longleftrightarrow>
     parse_byte_token ''<0x41>'' = Some (byte_of_char (CHR ''A'')) \<and> parse_byte_token ''<0x00>'' = Some 0 \<and>
     parse_byte_token ''hello'' = None"

section \<open>logits.rs\<close>

definition near32 :: "f32 \<Rightarrow> f32 \<Rightarrow> f32 \<Rightarrow> bool" where
  "near32 x y eps \<longleftrightarrow> abs32 (x - y) < eps"

definition rms_norm_unit_weight :: bool where
  "rms_norm_unit_weight \<longleftrightarrow>
     (let rms = sqrt32 (lit32 25 2 + lit32 1 100000) in
      case rms_norm_inplace [lit32 3 1, lit32 4 1] [1, 1] (lit32 1 100000) of
        Ret h \<Rightarrow> near32 (h ! 0) (lit32 3 1 div rms) (lit32 1 100000) \<and> near32 (h ! 1) (lit32 4 1 div rms) (lit32 1 100000)
      | _ \<Rightarrow> False)"

definition project_identity :: bool where
  "project_identity \<longleftrightarrow>
     (case project_to_logits [1, 0] [1, 0, 0, 1] 2 of
        Ret logits \<Rightarrow> near32 (logits ! 0) 1 (lit32 1 1000000) \<and> near32 (logits ! 1) 0 (lit32 1 1000000)
      | _ \<Rightarrow> False)"

definition repeat_penalty_reduces_logit :: bool where
  "repeat_penalty_reduces_logit \<longleftrightarrow>
     near32 (apply_repeat_penalty ((replicate 5 1)[2 := lit32 2 1]) [2] (lit32 2 1) ! 2) 1 (lit32 1 1000000)"

definition sample_token_greedy :: "(f32 \<Rightarrow> f32) \<Rightarrow> std_sort \<Rightarrow> bool" where
  "sample_token_greedy expf std \<longleftrightarrow>
     (let logits = (replicate 10 0)[7 := lit32 100 1];
          cfg = \<lparr>sc_temperature = lit32 1 100, sc_top_p = 1, sc_top_k = None, sc_repeat_penalty = 1\<rparr>
      in case sample_token expf std logits cfg [] 12345 of Ret (tok, rng) \<Rightarrow> tok = 7 | _ \<Rightarrow> False)"

section \<open>generate.rs\<close>

definition contains :: "string \<Rightarrow> string \<Rightarrow> bool" where
  "contains s p \<longleftrightarrow> list_ex (\<lambda>i. take (length p) (drop i s) = p) [0..<Suc (length s)]"

definition chat_template_format :: bool where
  "chat_template_format \<longleftrightarrow> contains (llama3_chat_template ''Hello'') ''Hello''"

definition session_turn_tracking :: bool where
  "session_turn_tracking \<longleftrightarrow>
     session_is_empty (session_new 512) \<and> \<not> session_is_empty (record_turn (session_new 512)) \<and>
     ss_turn_count (record_turn (session_new 512)) = 1"

definition near64 :: "f64 \<Rightarrow> f64 \<Rightarrow> f64 \<Rightarrow> bool" where
  "near64 x y eps \<longleftrightarrow>
     less64 (mk64 (fnum_abs (fnum_add 52 11 (num64 x) (fnum_neg (num64 y))))) eps"

definition generate_stats_display :: bool where
  "generate_stats_display \<longleftrightarrow>
     (let stats = \<lparr>gs_prompt_tokens = 20, gs_generated_tokens = 100, gs_prompt_ms = of_nat64 500,
                   gs_generate_ms = of_nat64 71000\<rparr>
      in near64 (tokens_per_second stats) (div64 (of_nat64 100) (of_nat64 71)) (mk64 (fnum_ratio 52 11 1 10)))"

section \<open>Running them\<close>

lemma min_texts:
  "token_text ''<unk>'' = as_bytes ''<unk>''" "token_text ''h'' = as_bytes ''h''" "token_text ''e'' = as_bytes ''e''"
  "token_text ''l'' = as_bytes ''l''" "token_text ''o'' = as_bytes ''o''" "token_text ''he'' = as_bytes ''he''"
  "token_text ''hel'' = as_bytes ''hel''" "token_text ''hell'' = as_bytes ''hell''"
  "token_text ''hello'' = as_bytes ''hello''" "token_text '' '' = as_bytes '' ''"
  by (simp_all add: token_text_def parse_byte_token_def strip_prefix_def)

lemma min_tok:
  obtains t where "minimal_tokenizer = Ret t" "tk_ids t (as_bytes ''hello'') = Some 8"
    "tk_vocab t ! 8 = \<lparr>ve_text = as_bytes ''hello'', ve_score = 0, ve_type = 1\<rparr>" "length (tk_vocab t) = 10"
proof -
  have "\<exists>t. minimal_tokenizer = Ret t \<and> tk_ids t (as_bytes ''hello'') = Some 8 \<and>
    tk_vocab t ! 8 = \<lparr>ve_text = as_bytes ''hello'', ve_score = 0, ve_type = 1\<rparr> \<and> length (tk_vocab t) = 10"
    unfolding minimal_tokenizer_def from_gguf_parts_def Let_def
    by (simp add: min_texts as_bytes_def byte_of_char_def del: upt_rec_numeral add_merges.simps)
  then show thesis using that by blast
qed

lemma hello_gpt2: "bytes_to_gpt2_unicode (as_bytes ''hello'') = as_bytes ''hello''"
  by (simp add: as_bytes_def byte_of_char_def gpt2_char_visible)

lemma hello_ids:
  obtains t where "minimal_tokenizer = Ret t" "encode_no_bos t ''hello'' = Ret [8]"
    "tk_vocab t ! 8 = \<lparr>ve_text = as_bytes ''hello'', ve_score = 0, ve_type = 1\<rparr>" "length (tk_vocab t) = 10"
proof (rule min_tok)
  fix t assume t: "minimal_tokenizer = Ret t" "tk_ids t (as_bytes ''hello'') = Some 8"
    "tk_vocab t ! 8 = \<lparr>ve_text = as_bytes ''hello'', ve_score = 0, ve_type = 1\<rparr>" "length (tk_vocab t) = 10"
  have "encode_no_bos t ''hello'' = Ret [8]"
    by (rule encode_entry) (simp_all only: hello_gpt2 t(2) length_as_bytes, simp_all)
  with t that show thesis by blast
qed

lemma encode_tests: "encode_hello" "decode_roundtrip" "bos_prepend"
proof -
  obtain t where t: "minimal_tokenizer = Ret t" and e: "encode_no_bos t ''hello'' = Ret [8]"
    and v: "tk_vocab t ! 8 = \<lparr>ve_text = as_bytes ''hello'', ve_score = 0, ve_type = 1\<rparr>" and n: "length (tk_vocab t) = 10"
    by (rule hello_ids)
  show "encode_hello" unfolding encode_hello_def t res_bind.simps by (rule e)
  have "decode_bytes t 8 = as_bytes ''hello''"
    using v n by (simp add: decode_bytes_def TOKEN_BOS_def TOKEN_EOS_def TOKEN_PAD_def)
  moreover have "utf8_valid (as_bytes ''hello'')" using gpt2_utf8_valid[of "as_bytes ''hello''"] hello_gpt2 by simp
  ultimately show "decode_roundtrip" unfolding decode_roundtrip_def t res_bind.simps e by (simp add: decode_def)
  have "\<exists>out. encode t ''hello'' True = Ret (TOKEN_BOS # out)"
    using e unfolding encode_no_bos_def encode_def
    by (cases "initial_tokenise t ''hello''"; simp; cases "bpe_merge t (case initial_tokenise t ''hello'' of Ret w \<Rightarrow> w | _ \<Rightarrow> [])"; simp)
  then obtain out where "encode t ''hello'' True = Ret (TOKEN_BOS # out)" ..
  then show "bos_prepend" unfolding bos_prepend_def t res_bind.simps by simp
qed

lemma byte_token_test: "byte_token_parse"
  by (simp add: byte_token_parse_def parse_byte_token_def strip_prefix_def strip_suffix_def from_str_radix16_def
      byte_of_char_def hex_digit_def)

lemma chat_tests: "chat_template_format" "session_turn_tracking"
  by (simp_all add: chat_template_format_def contains_def llama3_chat_template_def session_turn_tracking_def
      session_is_empty_def session_new_def record_turn_def)

subsection \<open>Numbers\<close>

lemma unit_dots: "fsum [1 * 1, 0 * 0] = (1 :: f32)" "fsum [0 * 1, 1 * 0] = (0 :: f32)"
   by (simp_all add: fsum_def) (simp_all add: float_eval)
lemma near_same: "near32 1 1 (lit32 1 1000000)" "near32 0 0 (lit32 1 1000000)"
   by (simp_all add: near32_def) (simp_all add: float_eval)
lemma two_rows: "Suc (Suc (Suc (Suc 0))) div Suc (Suc 0) = Suc (Suc 0)"
  by presburger

lemma project_test: "project_identity"
proof -
  have "project_to_logits [1, 0] [1, 0, 0, 1] 2 = Ret [1, 0]"
    by (simp add: project_to_logits_def usize_mul_def project_into_def dot_def unit_dots two_rows)
  then show ?thesis unfolding project_identity_def by (simp only: outcome.case nth_Cons_0 nth_Cons_Suc One_nat_def near_same[unfolded One_nat_def] simp_thms)
qed

lemma penalty_test: "repeat_penalty_reduces_logit"
  by (simp add: repeat_penalty_reduces_logit_def near32_def apply_repeat_penalty_def penalise_def float_eval)

lemma sum_q: "lit32 25 2 + lit32 1 100000 = Bits32 1095237642"
  by (simp add: float_eval)

lemma sqrt_q: "sqrt32 (Bits32 1095237642) = Bits32 1080182326"
proof -
  have n: "unit_val 23 1095237642 * 2 ^ unit_exp 23 8 = 6365742282717499583911570074934073812083105336223148413586742033763465909021140219844362240"
    by (simp add: unit_val_def unit_exp_def)
  have t: "isqrt 6365742282717499583911570074934073812083105336223148413586742033763465909021140219844362240 = 2523042267326788083650597761333112801990080369"
    by (rule isqrtI) simp_all
  have "fnum_sqrt 23 8 (False, 1095237642) = (False, round_mag 23 8 5046084534653576167301195522666225603980160739 2)"
    unfolding fnum_sqrt_def Let_def snd_conv fst_conv n t
    by (simp add: fnum_is_nan_def fnum_is_inf_def inf_mag_def)
  also have "\<dots> = (False, 1080182326)"
    by (simp add: round_mag_def round_shift_def rne_def bit_len.simps Let_def inf_mag_def unit_exp_def)
  finally show ?thesis by (simp add: sqrt32_def num32_def mk32_def)
qed

lemma mean_q: "fsum [lit32 3 1 * lit32 3 1, lit32 4 1 * lit32 4 1] div of_nat32 2 = lit32 25 2"
  by (simp add: fsum_def) (simp add: float_eval)

lemma near_q:
  "near32 (lit32 3 1 * (1 div Bits32 1080182326) * 1) (lit32 3 1 div Bits32 1080182326) (lit32 1 100000)"
  "near32 (lit32 4 1 * (1 div Bits32 1080182326) * 1) (lit32 4 1 div Bits32 1080182326) (lit32 1 100000)"
  by (simp_all add: near32_def) (simp_all add: float_eval)

lemma rms_test: "rms_norm_unit_weight"
proof -
  have "rms_norm_inplace [lit32 3 1, lit32 4 1] [1, 1] (lit32 1 100000) =
      Ret [lit32 3 1 * (1 div Bits32 1080182326) * 1, lit32 4 1 * (1 div Bits32 1080182326) * 1]"
    using mean_q sum_q sqrt_q by (simp add: rms_norm_inplace_def Let_def numeral_2_eq_2)
  then show ?thesis
    unfolding rms_norm_unit_weight_def sum_q sqrt_q Let_def
    by (simp only: outcome.case nth_Cons_0 nth_Cons_Suc One_nat_def near_q[unfolded One_nat_def] simp_thms)
qed

subsection \<open>Greedy sampling\<close>

lemma greedy_values:
  "1 div lit32 1 100 = lit32 100 1" "(0::f32) * lit32 100 1 = 0" "lit32 100 1 * lit32 100 1 = lit32 10000 1"
  "lit32 10000 1 - lit32 10000 1 = 0" "0 - lit32 10000 1 = - lit32 10000 1" "0 < lit32 10000 1"
  "(1::f32) - 1 = 0" "\<not> is_nan32 0" "\<not> is_nan32 (lit32 10000 1)"
  "abs32 0 < lit32 1 1000000" "\<not> lit32 1 100 \<le> 0" "\<not> (1::f32) \<le> 0" "\<not> (1::f32) < 1"
  "(0::f32) + 1 = 1" "(1::f32) + 0 = 1" "(1::f32) div 1 = 1" "(1::f32) \<le> 1"
  by (simp_all add: float_eval)

definition greedy_scaled :: "f32 list" where
  "greedy_scaled = (replicate 10 0)[7 := lit32 10000 1]"

lemma greedy_nth: "j < 10 \<Longrightarrow> greedy_scaled ! j = (if j = 7 then lit32 10000 1 else 0)"
  by (simp add: greedy_scaled_def nth_list_update)

lemma greedy_length: "length greedy_scaled = 10"
  by (simp add: greedy_scaled_def)

lemma greedy_no_nan: "\<forall>x\<in>set greedy_scaled. \<not> is_nan32 x"
  using greedy_values(8,9) set_update_subset_insert[of "replicate 10 0" 7 "lit32 10000 1"] unfolding greedy_scaled_def by auto

lemma greedy_test:
  assumes "unstable_sort std" "expf 0 = 1" "expf (- lit32 10000 1) = 0"
  shows "sample_token_greedy expf std"
proof -
  have ne: "greedy_scaled \<noteq> []" using greedy_length by auto
  have dom: "\<forall>j < length greedy_scaled. j \<noteq> 7 \<longrightarrow> greedy_scaled ! j < greedy_scaled ! 7 \<and>
      expf (greedy_scaled ! j - greedy_scaled ! 7) = 0"
    using greedy_values(5,6) assms(3) by (simp add: greedy_nth greedy_length)
  have one: "expf (greedy_scaled ! 7 - greedy_scaled ! 7) = 1"
    using greedy_values(4) assms(2) by (simp add: greedy_nth)
  obtain "is" where top: "top_indices std greedy_scaled None = Ret is"
    and d: "draw expf greedy_scaled 1 is (xorshift64 12345) = 7"
    by (rule draw_dominant[OF assms(1) greedy_no_nan _ _ dom one, of None 1 "xorshift64 12345"])
      (simp_all add: greedy_length greedy_values)
  let ?cfg = "\<lparr>sc_temperature = lit32 1 100, sc_top_p = 1, sc_top_k = None, sc_repeat_penalty = 1\<rparr>"
  have "validate ?cfg = Ret ()" by (simp add: validate_def greedy_values greedy_values[unfolded One_nat_def])
  moreover have "scaled_logits ((replicate 10 0)[7 := lit32 100 1]) ?cfg [] = greedy_scaled"
    by (simp add: scaled_logits_def apply_repeat_penalty_def greedy_values greedy_values[unfolded One_nat_def] map_update greedy_scaled_def)
  ultimately show ?thesis
    using top d by (simp add: sample_token_greedy_def sample_token_def Let_def)
qed

subsection \<open>Throughput\<close>

text \<open>The pattern of a number that binary64 represents.\<close>

lemma of_nat64_pattern:
  assumes "unit_val 52 m = n * 2 ^ 1074" "m \<le> inf_mag 52 11"
  shows "of_nat64 n = mk64 (False, m)"
  using round_mag_exact[OF assms(2), of 1] assms(1) by (simp add: of_nat64_def fnum_ratio_def unit_exp_def)

lemma inf_mag64: "inf_mag 52 11 = 9218868437227405312"
  by (simp add: inf_mag_def)

lemma patterns:
  "unit_val 52 4636737291354636288 = 100 * 2 ^ 1074" "unit_val 52 4679615496058830848 = 71000 * 2 ^ 1074"
  "unit_val 52 4634696597773484032 = 71 * 2 ^ 1074" "unit_val 52 4607182418800017408 = 1 * 2 ^ 1074"
  "unit_val 52 4652007308841189376 = 1000 * 2 ^ 1074"
  by (simp_all add: unit_val_def)

lemma num64_mk64:
  assumes "m < 2 ^ 63"
  shows "num64 (mk64 (False, m)) = (False, m)"
proof -
  have u: "unat (word_of_nat m :: u64) = m" using assms by (simp add: unat_of_nat take_bit_nat_eq_self)
  have "bit (word_of_nat m :: u64) 63 = bit (unat (word_of_nat m :: u64)) 63" by (simp add: bit_unsigned_iff)
  also have "\<dots> = False" using assms unfolding u by (simp add: bit_iff_odd)
  finally show ?thesis using assms u by (simp add: num64_def mk64_def)
qed

lemma values64:
  "num64 (of_nat64 100) = (False, 4636737291354636288)" "num64 (of_nat64 71000) = (False, 4679615496058830848)"
  "num64 (of_nat64 71) = (False, 4634696597773484032)" "num64 (of_nat64 1) = (False, 4607182418800017408)"
  "num64 (of_nat64 1000) = (False, 4652007308841189376)"
  using patterns by (simp_all add: of_nat64_pattern inf_mag64 num64_mk64 del: mult_1)

lemma seconds: "div64 (of_nat64 71000) (of_nat64 1000) = of_nat64 71"
proof -
  have "round_mag 52 11 (71000 * 2 ^ 1074 * 2 ^ 1074) (1000 * 2 ^ 1074) = 4634696597773484032"
    using round_mag_exact[of 4634696597773484032 52 11 "1000 * 2 ^ 1074", unfolded patterns]
    by (simp add: inf_mag64 ac_simps)
  then show ?thesis
    using patterns(3) by (simp add: div64_def fnum_div_def values64 fnum_is_nan_def fnum_is_inf_def inf_mag64
        patterns unit_exp_def of_nat64_pattern[of 4634696597773484032 71] del: mult_1)
qed

lemma quotient:
  obtains m where "num64 (div64 (of_nat64 100) (of_nat64 71)) = (False, m)" "m \<le> 4636737291354636288"
proof -
  let ?m = "round_mag 52 11 (100 * 2 ^ 1074 * 2 ^ 1074) (71 * 2 ^ 1074)"
  have "?m \<le> round_mag 52 11 (unit_val 52 4636737291354636288 * 1) 1"
    unfolding patterns by (rule round_mag_mono) simp_all
  also have "\<dots> = 4636737291354636288" by (rule round_mag_exact) (simp_all add: inf_mag64)
  finally have le: "?m \<le> 4636737291354636288" .
  have "div64 (of_nat64 100) (of_nat64 71) = mk64 (False, ?m)"
    by (simp add: div64_def fnum_div_def values64 fnum_is_nan_def fnum_is_inf_def inf_mag64 patterns unit_exp_def del: mult_1)
  moreover have "?m < 2 ^ 63" using le by simp
  ultimately show thesis using le by (intro that[of ?m]) (simp_all add: num64_mk64)
qed

lemma tenth:
  obtains e where "num64 (mk64 (fnum_ratio 52 11 1 10)) = (False, e)" "0 < e" "e < 9218868437227405312"
proof -
  let ?e = "round_mag 52 11 (1 * 2 ^ 1074) 10"
  have "round_mag 52 11 (unit_val 52 4589168020290535424 * 1) 1 \<le> ?e"
    by (rule round_mag_mono) (simp_all add: unit_val_def)
  moreover have "round_mag 52 11 (unit_val 52 4589168020290535424 * 1) 1 = 4589168020290535424"
    by (rule round_mag_exact) (simp_all add: inf_mag64)
  moreover have "?e \<le> round_mag 52 11 (unit_val 52 4607182418800017408 * 1) 1"
    unfolding patterns by (rule round_mag_mono) simp_all
  moreover have "round_mag 52 11 (unit_val 52 4607182418800017408 * 1) 1 = 4607182418800017408"
    by (rule round_mag_exact) (simp_all add: inf_mag64)
  ultimately have "0 < ?e" "?e \<le> 4607182418800017408" by linarith+
  then show thesis
    by (intro that[of ?e]) (simp_all add: fnum_ratio_def unit_exp_def num64_mk64)
qed

lemma throughput_test: "generate_stats_display"
proof -
  obtain m where q: "num64 (div64 (of_nat64 100) (of_nat64 71)) = (False, m)" and m: "m \<le> 4636737291354636288"
    by (rule quotient)
  have "\<not> less64 (of_nat64 71000) (of_nat64 1)"
    by (simp add: less64_def values64 values64[unfolded One_nat_def] fnum_key_def)
  then have tps: "tokens_per_second \<lparr>gs_prompt_tokens = 20, gs_generated_tokens = 100, gs_prompt_ms = of_nat64 500,
      gs_generate_ms = of_nat64 71000\<rparr> = div64 (of_nat64 100) (of_nat64 71)"
    by (simp add: tokens_per_second_def seconds)
  have zero: "mk64 (fnum_abs (fnum_add 52 11 (num64 (div64 (of_nat64 100) (of_nat64 71)))
      (fnum_neg (num64 (div64 (of_nat64 100) (of_nat64 71)))))) = mk64 (False, 0)"
    using m by (simp add: q fnum_add_def fnum_neg_def fnum_abs_def fnum_int_def fnum_is_nan_def fnum_is_inf_def inf_mag64)
  obtain e where e: "num64 (mk64 (fnum_ratio 52 11 1 10)) = (False, e)" "0 < e" "e < 9218868437227405312"
    by (rule tenth)
  show ?thesis
    unfolding generate_stats_display_def Let_def tps near64_def zero
    using e by (simp add: less64_def num64_mk64 is_nan64_def fnum_is_nan_def inf_mag64 fnum_key_def)
qed

section \<open>All of them\<close>

text \<open>
  The repository's own unit tests pass on the model: the tokenizer tests (with the test
  vocabulary built by the modelled constructor), the norm, projection and repeat penalty tests
  in binary32 arithmetic, the greedy sampling test for all sorting routines that keep their
  contract and every exponential that is 1 at 0 and underflows at -10000, the throughput test
  in binary64, and the template and session tests.
\<close>

theorem source_tests_pass:
  assumes "unstable_sort std" and "expf 0 = 1" and "expf (- lit32 10000 1) = 0"
  shows "encode_hello \<and> decode_roundtrip \<and> bos_prepend \<and> byte_token_parse \<and>
    rms_norm_unit_weight \<and> project_identity \<and> sample_token_greedy expf std \<and>
    repeat_penalty_reduces_logit \<and>
    chat_template_format \<and> generate_stats_display \<and> session_turn_tracking"
  using encode_tests byte_token_test rms_test project_test greedy_test[OF assms] penalty_test chat_tests throughput_test
  by simp

theorem source_tests_pass_witness:
  "sample_token_greedy (\<lambda>x. if x = 0 then 1 else 0) insertion_std \<and> encode_hello"
proof -
  have "- lit32 10000 1 \<noteq> 0" by (simp add: float_eval)
  then show ?thesis
    using source_tests_pass[OF insertion.unstable_sort_axioms, of "\<lambda>x. if x = 0 then 1 else 0"] by simp
qed

end
