(* ===== verification/Build.thy ===== *)
theory Build imports Prelude begin

text \<open>
  The build script \<^verbatim>\<open>src/build.rs\<close>: which C sources of the vendored ggml are compiled into the
  static library, with which include paths and flags, and what cargo is told. Which paths exist
  is a parameter; what the compiler does with the plan is not modelled.
\<close>

section \<open>The plan\<close>

record c_build =
  cb_include :: "string list"
  cb_flags :: "string list"
  cb_files :: "string list"

definition join_path :: "string \<Rightarrow> string \<Rightarrow> string" where
  "join_path d p = d @ ''/'' @ p"

definition c_sources :: "string list" where
  "c_sources = [''ggml.c'', ''ggml-alloc.c'', ''ggml-backend.c'', ''ggml-quants.c'', ''ggml-aarch64.c'']"

definition ggml_src :: string where
  "ggml_src = join_path ''vendor/llama.cpp'' ''ggml/src''"

definition new_build :: c_build where
  "new_build =
     \<lparr>cb_include = [ggml_src, join_path ''vendor/llama.cpp'' ''ggml/include'', join_path ''vendor/llama.cpp'' ''include''],
      cb_flags = [''-O3'', ''-march=native'', ''-DNDEBUG'', ''-D_GNU_SOURCE'', ''-Wno-unused-function''],
      cb_files = []\<rparr>"

text \<open>A missing source is only warned about.\<close>

fun add_sources :: "(string \<Rightarrow> bool) \<Rightarrow> string list \<Rightarrow> c_build \<Rightarrow> c_build" where
  "add_sources exists [] b = b"
| "add_sources exists (src # srcs) b =
     (let file = join_path ggml_src src in
      add_sources exists srcs (if exists file then b\<lparr>cb_files := cb_files b @ [file]\<rparr> else b))"

definition directives :: "string list" where
  "directives = [''cargo:rustc-link-lib=static=ggml_c'', ''cargo:rerun-if-changed=vendor/llama.cpp'', ''cargo:rerun-if-changed=build.rs'']"

definition build_main :: "(string \<Rightarrow> bool) \<Rightarrow> (c_build \<times> string list, unit) outcome" where
  "build_main exists =
     (if \<not> exists ggml_src then Panic
      else Ret (add_sources exists c_sources new_build, directives))"

section \<open>What is built\<close>

lemma add_sources_files:
  "cb_files (add_sources exists srcs b) = cb_files b @ filter exists (map (join_path ggml_src) srcs) \<and>
   cb_include (add_sources exists srcs b) = cb_include b \<and> cb_flags (add_sources exists srcs b) = cb_flags b"
  by (induction srcs arbitrary: b) (simp_all add: Let_def)

lemma all_sources: "\<forall>s\<in>set srcs. exists (d s) \<Longrightarrow> filter exists (map d srcs) = map d srcs"
  by (induction srcs) simp_all

lemma c_sources_distinct: "distinct c_sources"
  by (simp add: c_sources_def)

lemma join_inj: "inj_on (join_path d) A"
  by (simp add: inj_on_def join_path_def)

text \<open>
  The script stops without the checkout; otherwise it compiles the sources that exist, in order,
  and all five of them, each once, when the checkout is complete.
\<close>

lemma build_stops: "build_main exists = Panic \<longleftrightarrow> \<not> exists ggml_src"
  by (simp add: build_main_def)

lemma build_files:
  assumes "build_main exists = Ret (b, ds)"
  shows "cb_files b = filter exists (map (join_path ggml_src) c_sources)"
    and "\<forall>s\<in>set c_sources. exists (join_path ggml_src s) \<Longrightarrow>
      cb_files b = map (join_path ggml_src) c_sources \<and> distinct (cb_files b)"
proof -
  have b: "b = add_sources exists c_sources new_build" using assms by (simp add: build_main_def split: if_splits)
  have f: "cb_files b = filter exists (map (join_path ggml_src) c_sources)"
    unfolding b using add_sources_files[of "exists" c_sources new_build] by (simp add: new_build_def)
  from f show "cb_files b = filter exists (map (join_path ggml_src) c_sources)" .
  show "cb_files b = map (join_path ggml_src) c_sources \<and> distinct (cb_files b)"
    if "\<forall>s\<in>set c_sources. exists (join_path ggml_src s)"
    unfolding f all_sources[where d = "join_path ggml_src" and exists = "exists", OF that] using c_sources_distinct join_inj by (simp add: distinct_map)
qed

end
