(* ===== verification/Diagnostics.thy ===== *)
theory Diagnostics imports Program "HOL-Library.Char_ord" "HOL-Library.List_Lexorder" "HOL-Library.Multiset" begin

text \<open>
  What the program says about itself: the \<^verbatim>\<open>Display\<close> texts of the error types (\<^verbatim>\<open>tokenizer.rs\<close>,
  \<^verbatim>\<open>logits.rs\<close>, \<^verbatim>\<open>graph.rs\<close>, \<^verbatim>\<open>generate.rs\<close>), the summaries of a header and of the loaded tensors
  (\<^verbatim>\<open>gguf.rs\<close>, \<^verbatim>\<open>loader.rs\<close>), and the switch for traces. Texts are UTF-8, one character per byte.
\<close>

section \<open>Numbers\<close>

definition show_int :: "int \<Rightarrow> string" where
  "show_int i = (if i < 0 then ''-'' else []) @ dec_digits (nat \<bar>i\<bar>)"

text \<open>
  \<^verbatim>\<open>{}\<close> of a float: the fewest digits that read back as the same number, the nearest such
  decimal, never with an exponent. The number is \<open>m / 2 ^ 149\<close>, the decimal \<open>d * 10 ^ e\<close>.
\<close>

definition below_decimal :: "nat \<Rightarrow> int \<Rightarrow> nat" where
  "below_decimal m e = (if 0 \<le> e then m div (2 ^ 149 * 10 ^ nat e) else m * 10 ^ nat (- e) div 2 ^ 149)"

text \<open>Whether \<open>d\<close> is at least as near as \<open>d + 1\<close>.\<close>

definition lower_is_nearer :: "nat \<Rightarrow> nat \<Rightarrow> int \<Rightarrow> bool" where
  "lower_is_nearer m d e =
     (if 0 \<le> e then 2 * m \<le> (2 * d + 1) * (2 ^ 149 * 10 ^ nat e)
      else 2 * (m * 10 ^ nat (- e)) \<le> (2 * d + 1) * 2 ^ 149)"

fun shortest :: "f32 \<Rightarrow> nat \<Rightarrow> int list \<Rightarrow> nat \<times> int" where
  "shortest x m [] = (0, 0)"
| "shortest x m (e # es) =
     (let d = below_decimal m e; lo = decimal32 d e = x; hi = decimal32 (Suc d) e = x
      in if lo \<and> (hi \<longrightarrow> lower_is_nearer m d e) then (d, e)
         else if hi then (Suc d, e)
         else shortest x m es)"

definition place_point :: "nat \<Rightarrow> int \<Rightarrow> string" where
  "place_point d e =
     (let ds = dec_digits d; k = nat (- e)
      in if 0 \<le> e then ds @ replicate (nat e) (CHR ''0'')
         else if k < length ds then take (length ds - k) ds @ ''.'' @ drop (length ds - k) ds
         else ''0.'' @ replicate (k - length ds) (CHR ''0'') @ ds)"

definition show_f32 :: "f32 \<Rightarrow> string" where
  "show_f32 x =
     (let (neg, mag) = num32 x in
      if is_nan32 x then ''NaN''
      else (if neg then ''-'' else []) @
        (if mag = inf_mag 23 8 then ''inf''
         else if mag = 0 then ''0''
         else case shortest (mk32 (False, mag)) (unit_val 23 mag) (rev [- 45..38]) of (d, e) \<Rightarrow> place_point d e))"

section \<open>Errors\<close>

definition show_logit_error :: "logit_error \<Rightarrow> string" where
  "show_logit_error e =
     (case e of
        ShapeMismatch expected got \<Rightarrow> ''logit shape mismatch: expected '' @ dec_digits expected @ '', got '' @ dec_digits got
      | EmptyLogits \<Rightarrow> ''logit slice is empty''
      | InvalidTemperature t \<Rightarrow> ''temperature must be > 0.0, got '' @ show_f32 t
      | InvalidTopP p \<Rightarrow> ''top_p must be in (0.0, 1.0], got '' @ show_f32 p)"

text \<open>
  The texts of a decoding error and of a quoted string are the standard library's; no code
  makes these two errors.
\<close>

definition show_tokenizer_error :: "string \<Rightarrow> (string \<Rightarrow> string) \<Rightarrow> tokenizer_error \<Rightarrow> string" where
  "show_tokenizer_error utf8_text quoted e =
     (case e of
        MissingVocab \<Rightarrow> ''GGUF metadata missing tokenizer.ggml.tokens''
      | MissingMerges \<Rightarrow> ''GGUF metadata missing tokenizer.ggml.merges''
      | VocabSizeMismatch tokens scores \<Rightarrow>
          ''vocab size mismatch: '' @ dec_digits tokens @ '' tokens vs '' @ dec_digits scores @ '' scores''
      | InvalidUtf8 \<Rightarrow> ''UTF-8 decode error: '' @ utf8_text
      | UnknownToken s \<Rightarrow> ''unknown token: '' @ quoted s)"

text \<open>The messages of \<^verbatim>\<open>bail!\<close>, which name the phase: a prefill or a decode step.\<close>

datatype phase = Prefilling | Decoding

definition phase_tag :: "phase \<Rightarrow> string" where
  "phase_tag ph = (case ph of Prefilling \<Rightarrow> ''[Z.1 Graph] '' | Decoding \<Rightarrow> ''[Z.1 Decode] '')"

definition show_graph_error :: "phase \<Rightarrow> graph_error \<Rightarrow> string" where
  "show_graph_error ph e =
     (case e of
        BackendInit \<Rightarrow> ''[Z.1 Graph] ggml_backend_cpu_init failed''
      | InputBufferAlloc \<Rightarrow> phase_tag ph @ (if ph = Decoding then ''input buffer alloc failed'' else ''ggml_backend_alloc_buffer failed'')
      | InputCtxAlloc \<Rightarrow> phase_tag ph @ ''inp_ctx alloc failed''
      | GraphCtxAlloc \<Rightarrow> phase_tag ph @ ''graph ctx alloc failed''
      | TensorNotFound name \<Rightarrow> name @ '' not found''
      | KvOverflow kv_len n_ctx \<Rightarrow> ''[Z.1 Graph] KV cache overflow: '' @ show_int kv_len @ '' > '' @ show_int n_ctx
      | KvFull head n_ctx \<Rightarrow> ''[Z.1 Decode] KV cache full ('' @ show_int head @ ''/'' @ show_int n_ctx @ '')''
      | GallocrNew \<Rightarrow> phase_tag ph @ ''gallocr_new failed''
      | GallocrAlloc \<Rightarrow> phase_tag ph @ ''gallocr_alloc_graph failed''
      | ComputeStatus status \<Rightarrow> phase_tag ph @ ''compute failed status='' @ show_int status)"

definition show_alloc_msg :: "phase \<Rightarrow> alloc_msg \<Rightarrow> string" where
  "show_alloc_msg ph msg =
     (case msg of EmptyTokenSequence \<Rightarrow> ''empty token sequence'' | GraphMsg e \<Rightarrow> show_graph_error ph e)"

definition show_forward_error :: "phase \<Rightarrow> forward_error \<Rightarrow> string" where
  "show_forward_error ph e =
     (case e of
        FShapeMismatch expected got \<Rightarrow> ''shape mismatch: expected '' @ dec_digits expected @ '', got '' @ dec_digits got
      | FMissingTensor name \<Rightarrow> ''missing tensor: '' @ name
      | FComputeFailed status \<Rightarrow> ''compute failed with status '' @ show_int status
      | FAllocationFailed msg \<Rightarrow> ''allocation failed: '' @ show_alloc_msg ph msg)"

text \<open>The text of an input or output error is the operating system's.\<close>

definition em_dash :: string where
  "em_dash = [CHR 0xE2, CHR 0x80, CHR 0x94]"

definition show_generate_error :: "string \<Rightarrow> phase \<Rightarrow> generate_error \<Rightarrow> string" where
  "show_generate_error io_text ph e =
     (case e of
        GForward fe \<Rightarrow> ''forward pass error: '' @ show_forward_error ph fe
      | GLogit le \<Rightarrow> ''logit error: '' @ show_logit_error le
      | GIo \<Rightarrow> ''I/O error: '' @ io_text
      | GEmptyPrompt \<Rightarrow> ''prompt is empty''
      | GContextLengthExceeded max_len \<Rightarrow> ''context length exceeded (max '' @ dec_digits max_len @ '' tokens)''
      | GContextFull used max_len \<Rightarrow>
          ''conversation context full ('' @ show_int used @ ''/'' @ show_int max_len @ '' tokens) '' @ em_dash @
          '' use /reset to start a new conversation'')"

section \<open>Summaries and traces\<close>

datatype log_level = Info | Debug

definition rule_char :: string where
  "rule_char = [CHR 0xE2, CHR 0x94, CHR 0x80]"

definition print_summary :: "gguf_header \<Rightarrow> (log_level \<times> string) list" where
  "print_summary h =
     map (Pair Info)
      [concat (replicate 2 rule_char) @ '' GGUF Header '' @ concat (replicate 30 rule_char),
       ''  Version    : '' @ dec_digits (unat (gh_version h)),
       ''  Model      : '' @ unwrap_or (model_name h) ''unknown'',
       ''  Arch       : '' @ unwrap_or (architecture h) ''unknown'',
       ''  Layers     : '' @ dec_digits (unat (unwrap_or (layer_count h) 0)),
       ''  Context    : '' @ dec_digits (unat (unwrap_or (context_length h) 0)),
       ''  Tensors    : '' @ dec_digits (unat (gh_n_tensors h)),
       ''  Data offset: '' @ dec_digits (unat (gh_data_offset h)) @ '' bytes'',
       concat (replicate 45 rule_char)]"

text \<open>The keys come in any order and are sorted, byte by byte.\<close>

definition print_tensor_summary :: "string list \<Rightarrow> (log_level \<times> string) list" where
  "print_tensor_summary keys =
     (let names = sort keys in
      [(Info, ''[Z.1 Loader] '' @ dec_digits (length keys) @ '' tensors loaded.'')] @
      map (\<lambda>name. (Debug, ''[Z.1 Loader]   '' @ name)) (take 10 names) @
      (if 10 < length names then [(Debug, ''[Z.1 Loader]   ... and '' @ dec_digits (length names - 10) @ '' more.'')] else []))"

definition trace_enabled :: "(string \<Rightarrow> string option) \<Rightarrow> bool" where
  "trace_enabled var = (var ''Z1_TRACE'' = Some ''1'')"


text \<open>The map's iteration order does not show, and at most twelve lines are logged.\<close>

lemma tensor_summary_order:
  assumes "mset keys = mset keys'"
  shows "print_tensor_summary keys = print_tensor_summary keys'"
proof -
  have "sort keys = sort keys'" by (rule properties_for_sort) (use assms in simp_all)
  moreover have "length keys = length keys'" by (rule mset_eq_length[OF assms])
  ultimately show ?thesis by (simp only: print_tensor_summary_def)
qed

lemma tensor_summary_length: "length (print_tensor_summary keys) \<le> 12"
  by (simp add: print_tensor_summary_def Let_def)

end
