(* ===== verification/Display_Properties.thy ===== *)
theory Display_Properties imports Diagnostics Command_Line begin

text \<open>
  The display of a binary32 number against the parser of the command line: the shortest
  decimal is found for every finite number, and reading it back gives the number.
\<close>

section \<open>The shortest decimal\<close>

lemma shortest_sound:
  assumes "shortest x m es = (d, e)"
    and "\<exists>e\<in>set es. decimal32 (below_decimal m e) e = x \<or> decimal32 (Suc (below_decimal m e)) e = x"
  shows "decimal32 d e = x"
  using assms
proof (induction es)
  case (Cons e' es)
  then show ?case by (auto simp: Let_def split: if_splits)
qed simp

text \<open>Among the multiples of \<open>10 ^ -45\<close> there is always one near enough.\<close>

lemma near_multiple:
  fixes m :: nat
  defines "n \<equiv> m * 10 ^ 45 div 2 ^ 149"
  obtains k where "k = n \<or> k = Suc n" "2 * (m * 10 ^ 45) < 2 * (k * 2 ^ 149) + 10 ^ 45" "2 * (k * 2 ^ 149) < 2 * (m * 10 ^ 45) + 10 ^ 45"
proof -
  have "n * 2 ^ 149 \<le> m * 10 ^ 45" unfolding n_def by (rule div_times_less_eq_dividend)
  moreover have z: "(0 :: nat) < 2 ^ 149" by simp
  have "m * 10 ^ 45 < n * 2 ^ 149 + 2 ^ 149"
    unfolding n_def using dividend_less_div_times[OF z, of "m * 10 ^ 45"] by (simp only: add.commute)
  moreover have "(2 :: nat) ^ 149 < 10 ^ 45" by simp
  moreover have "Suc n * 2 ^ 149 = n * 2 ^ 149 + 2 ^ 149" by simp
  ultimately show thesis
    using that[of n] that[of "Suc n"] by (cases "2 * (m * 10 ^ 45) < 2 * (n * 2 ^ 149) + 10 ^ 45") (linarith+)
qed

lemma decimal_near:
  assumes "mag < inf_mag 23 8"
    and "2 * (unit_val 23 mag * 10 ^ 45) < 2 * (k * 2 ^ 149) + 10 ^ 45" "2 * (k * 2 ^ 149) < 2 * (unit_val 23 mag * 10 ^ 45) + 10 ^ 45"
  shows "decimal32 k (- 45) = mk32 (False, mag)"
proof -
  have "round_mag 23 8 (k * 2 ^ 149) (10 ^ 45) = mag"
    by (rule round_near) (use assms in \<open>simp_all only: order.strict_implies_order zero_less_power zero_less_numeral\<close>)
  moreover have "unit_exp 23 8 = 149" by (simp add: unit_exp_def)
  moreover have "decimal32 k (- 45) = lit32 k (10 ^ 45)" by (simp add: decimal32_def del: power_numeral)
  ultimately show ?thesis by (simp only: lit32_def fnum_ratio_def)
qed

lemma shortest_reads_back:
  assumes "mag < inf_mag 23 8" "shortest (mk32 (False, mag)) (unit_val 23 mag) (rev [- 45..38]) = (d, e)"
  shows "decimal32 d e = mk32 (False, mag)"
proof (rule shortest_sound[OF assms(2)])
  have b: "below_decimal m (- 45) = m * 10 ^ 45 div 2 ^ 149" for m by (simp add: below_decimal_def del: power_numeral)
  obtain k where k: "k = unit_val 23 mag * 10 ^ 45 div 2 ^ 149 \<or> k = Suc (unit_val 23 mag * 10 ^ 45 div 2 ^ 149)"
    and near: "2 * (unit_val 23 mag * 10 ^ 45) < 2 * (k * 2 ^ 149) + 10 ^ 45" "2 * (k * 2 ^ 149) < 2 * (unit_val 23 mag * 10 ^ 45) + 10 ^ 45"
    by (rule near_multiple)
  have "decimal32 k (- 45) = mk32 (False, mag)" by (rule decimal_near[OF assms(1) near])
  with k have "decimal32 (below_decimal (unit_val 23 mag) (- 45)) (- 45) = mk32 (False, mag) \<or>
      decimal32 (Suc (below_decimal (unit_val 23 mag) (- 45))) (- 45) = mk32 (False, mag)"
    unfolding b by auto
  moreover have "- 45 \<in> set (rev [- 45..38 :: int])" by (simp only: set_rev set_upto) simp
  ultimately show "\<exists>e\<in>set (rev [- 45..38]). decimal32 (below_decimal (unit_val 23 mag) e) e = mk32 (False, mag) \<or>
      decimal32 (Suc (below_decimal (unit_val 23 mag) e)) e = mk32 (False, mag)" by blast
qed


section \<open>Reading a displayed number\<close>

text \<open>The digits of a positional decimal: whole part, then an optional point and fraction.\<close>

lemma zeros_val: "dec_val (replicate n (CHR ''0'')) = 0"
  unfolding dec_val_def by (induction n) simp_all

lemma zeros_dec: "list_all is_dec (replicate n (CHR ''0''))"
  by (simp add: list_all_iff is_dec_def)

lemma parse_whole:
  assumes "ds \<noteq> []" "list_all is_dec ds"
  shows "parse_decimal32 ds = Some (decimal32 (dec_val ds) 0)"
proof -
  have "takeWhile is_dec ds = ds" "dropWhile is_dec ds = []" using assms by (simp_all add: list_all_iff)
  then show ?thesis using assms(1) by (simp only: parse_decimal32_def parse_exponent_def Let_def list.case option.map
      append_is_Nil_conv simp_thms if_True if_False append_Nil2 list.size) simp
qed

lemma decimal_shift: "0 \<le> e \<Longrightarrow> decimal32 (d * 10 ^ nat e) 0 = decimal32 d e"
  by (simp add: decimal32_def)

lemma parse_placed:
  shows "parse_decimal32 (place_point d e) = Some (decimal32 d e)"
    and "\<exists>c r. place_point d e = c # r \<and> is_dec c"
proof -
  define ds where "ds = dec_digits d"
  have ds: "ds \<noteq> []" "list_all is_dec ds" "dec_val ds = d" using dec_digits_ok[of d] by (simp_all add: ds_def)
  have zero: "is_dec (CHR ''0'')" by (simp add: is_dec_def)
  consider (whole) "0 \<le> e" | (inside) "e < 0" "nat (- e) < length ds" | (small) "e < 0" "length ds \<le> nat (- e)" by linarith
  then have "parse_decimal32 (place_point d e) = Some (decimal32 d e) \<and> (\<exists>c r. place_point d e = c # r \<and> is_dec c)"
  proof cases
    case whole
    then have p: "place_point d e = ds @ replicate (nat e) (CHR ''0'')" by (simp add: place_point_def Let_def ds_def)
    have "dec_val (ds @ replicate (nat e) (CHR ''0'')) = d * 10 ^ nat e" by (simp add: dec_val_append zeros_val ds(3))
    then have "parse_decimal32 (place_point d e) = Some (decimal32 (d * 10 ^ nat e) 0)"
      using parse_whole[of "ds @ replicate (nat e) (CHR ''0'')"] ds zeros_dec[of "nat e"] by (simp add: p)
    then show ?thesis using decimal_shift[OF whole] ds p by (cases ds) auto
  next
    case inside
    define ip fp where "ip = take (length ds - nat (- e)) ds" and "fp = drop (length ds - nat (- e)) ds"
    have p: "place_point d e = ip @ CHR ''.'' # fp" using inside by (simp add: place_point_def Let_def ds_def ip_def fp_def)
    have split: "ip @ fp = ds" by (simp add: ip_def fp_def)
    then have val: "dec_val (ip @ fp) = d" and dec: "list_all is_dec ip" "list_all is_dec fp" using ds by auto
    have len: "- int (length fp) = e" and ip: "ip \<noteq> []" using inside ds(1) by (simp_all add: fp_def ip_def)
    have "parse_decimal32 (place_point d e) = Some (decimal32 d e)"
      using parse_decimal_point[OF ip dec] by (simp only: p val len)
    moreover obtain c r where "ip = c # r" "is_dec c" using ip dec(1) by (cases ip) auto
    ultimately show ?thesis using p by simp
  next
    case small
    let ?z = "replicate (nat (- e) - length ds) (CHR ''0'')"
    have p: "place_point d e = [CHR ''0''] @ CHR ''.'' # (?z @ ds)" using small by (simp add: place_point_def Let_def ds_def)
    have "dec_val ([CHR ''0''] @ ?z @ ds) = d"
      using zeros_val[of "Suc (nat (- e) - length ds)"] dec_val_append[of "CHR ''0'' # ?z" ds] ds(3) by simp
    moreover have "- int (length (?z @ ds)) = e" using small by simp
    moreover have "list_all is_dec (?z @ ds)" using zeros_dec ds(2) by simp
    ultimately show ?thesis using parse_decimal_point[of "[CHR ''0'']" "?z @ ds"] zero p by simp
  qed
  then show "parse_decimal32 (place_point d e) = Some (decimal32 d e)" "\<exists>c r. place_point d e = c # r \<and> is_dec c" by auto
qed


lemma zero_digit: "dec_digits 0 = ''0''"
  by code_simp

lemma parse_f32_placed:
  assumes "decimal32 d e = mk32 (False, mag)" "mag < inf_mag 23 8"
  shows "parse_f32 ((if neg then ''-'' else []) @ place_point d e) = Some (mk32 (neg, mag))"
  using parse_placed[of d e] assms parse_f32_signed[of "place_point d e" _ _ mag neg] by auto

lemma show_f32_reads_back:
  assumes "\<not> is_nan32 x"
  shows "parse_f32 (show_f32 x) = Some x"
proof -
  obtain neg mag where n: "num32 x = (neg, mag)" by fastforce
  have le: "mag \<le> inf_mag 23 8" using assms n by (simp add: is_nan32_def fnum_is_nan_def)
  have x: "mk32 (neg, mag) = x" using mk32_num32[of x] n by simp
  consider (inf) "mag = inf_mag 23 8" | (zero) "mag = 0" "mag \<noteq> inf_mag 23 8" | (other) "mag \<noteq> 0" "mag < inf_mag 23 8"
    using le by linarith
  then show ?thesis
  proof cases
    case inf
    then have "show_f32 x = (if neg then ''-'' else []) @ ''inf''" using assms n by (simp add: show_f32_def)
    moreover have "num32 (mk32 (False, inf_mag 23 8)) = (False, inf_mag 23 8)" by (rule num32_mk32) (simp add: inf_mag32)
    ultimately show ?thesis using inf x
      by (auto simp: parse_f32_def split_sign_def to_lower_def Let_def fnum_neg_def)
  next
    case zero
    have "show_f32 x = (if neg then ''-'' else []) @ place_point 0 0" using zero assms n zero_digit by (simp add: show_f32_def place_point_def)
    moreover have "decimal32 0 0 = mk32 (False, 0)" by (simp add: decimal32_def lit32_def fnum_ratio_def round_mag_def round_shift_def rne_def)
    ultimately show ?thesis using parse_f32_placed[of 0 0 0 neg] zero x by simp
  next
    case other
    obtain d e where de: "shortest (mk32 (False, mag)) (unit_val 23 mag) (rev [- 45..38]) = (d, e)" by fastforce
    have "show_f32 x = (if neg then ''-'' else []) @ place_point d e"
      using other assms n by (simp add: show_f32_def de del: upto_rec_numeral)
    then show ?thesis using parse_f32_placed[OF shortest_reads_back[OF other(2) de], of neg] other x by simp
  qed
qed

section \<open>Property\<close>

text \<open>
  C23: a number the sampler rejects is displayed exactly: for every binary32 value but NaN the
  displayed text (the shortest decimal) is read back by the command line's parser as that very
  value, sign of zero and infinities included, and this is the text that ends the error messages
  for a temperature and for \<open>top_p\<close>.
\<close>

theorem rejected_value_reads_back:
  assumes "\<not> is_nan32 x"
  shows "parse_f32 (show_f32 x) = Some x \<and>
    show_logit_error (InvalidTemperature x) = ''temperature must be > 0.0, got '' @ show_f32 x \<and>
    show_logit_error (InvalidTopP x) = ''top_p must be in (0.0, 1.0], got '' @ show_f32 x"
proof -
  have "parse_f32 (show_f32 x) = Some x"
    using show_f32_reads_back[OF assms] .
  then show ?thesis by (simp add: show_logit_error_def)
qed


theorem rejected_value_reads_back_witness:
  "parse_f32 (show_f32 (Bits32 0xBF000000)) = Some (Bits32 0xBF000000)"
proof -
  have "\<not> is_nan32 (Bits32 0xBF000000)" by (simp add: float_eval)
  from rejected_value_reads_back[OF this] show ?thesis by simp
qed

end
