(* ===== verification/Spec2Isabelle.thy ===== *)
theory Spec2Isabelle imports Prelude Ieee_Float Gguf Gguf_Wire Tokenizer Tokenizer_Alphabet Tokenizer_Facts Tokenizer_Properties
  Logits Logits_Facts Logits_Properties
  Mapper Mapper_Properties Ggml Loader Graph Sm_Spec Ggml_Facts Graph_Facts Graph_Decode Graph_Engine Graph_Total Graph_New
  Graph_Properties Graph_Runs Generate Program Generate_Facts Generate_Properties Generate_Live
  Loader_Properties Program_Properties Command_Line Graph_Limits Source_Tests Build Diagnostics Display_Properties begin

text \<open>
  Z.1, a local inference engine for Llama 3.1 (Rust, \<^verbatim>\<open>src/src\<close>), over the vendored ggml
  library.

  The program. \<^verbatim>\<open>main.rs\<close> reads the arguments, loads a GGUF file twice (the header for the
  vocabulary and the configuration, then the model), builds the tokenizer and the inference
  graph, and runs one prompt, a chat REPL or a benchmark. \<^verbatim>\<open>loader.rs\<close> maps the file
  (\<^verbatim>\<open>mapper.rs\<close>) and points one tensor descriptor per known tensor into the mapping.
  \<^verbatim>\<open>graph.rs\<close> owns the key-value cache and computes logits, for a whole prompt (\<^verbatim>\<open>prefill\<close>) or
  for one token over a graph that is built once (\<^verbatim>\<open>decode_one\<close>). \<^verbatim>\<open>logits.rs\<close> samples a token,
  \<^verbatim>\<open>tokenizer.rs\<close> turns text into tokens and back, \<^verbatim>\<open>generate.rs\<close> is the loop that ties them
  together.

  Theories, and the file each models.
  \<^item> \<open>Prelude\<close>: results (\<open>Ret\<close>, \<open>Fail\<close> for an \<^verbatim>\<open>Err\<close>, \<open>Panic\<close> for a panic, an abort of the
    library or undefined behaviour), state-passing code over them (\<open>bnd\<close>, \<open>loop\<close>), bytes and
    strings, decimal digits. \<open>Ieee_Float\<close>: binary32 and binary64 with their rounding, as far
    as the program computes with them. \<open>Sm_Spec\<close>: specifications of state-passing code.
  \<^item> \<open>Gguf\<close> (\<^verbatim>\<open>gguf.rs\<close>): the reader, on the list of bytes that are left; the allocator is a
    parameter. \<open>Gguf_Wire\<close>: the format from the writer's side, and the reader against it.
  \<^item> \<open>Tokenizer\<close> (\<^verbatim>\<open>tokenizer.rs\<close>): tables, construction, the GPT-2 byte alphabet, longest
    match and byte-pair merges, decoding. \<open>Tokenizer_Alphabet\<close>, \<open>Tokenizer_Facts\<close> and
    \<open>Tokenizer_Properties\<close>: the alphabet as an encoding, what the loops keep, the properties.
  \<^item> \<open>Logits\<close> (\<^verbatim>\<open>logits.rs\<close>): projection, norm, penalty, sampler, random generator. The
    exponential and the sorting routines are parameters. \<open>Logits_Facts\<close> states the contract
    of the sorts (locale \<open>unstable_sort\<close>), \<open>Logits_Properties\<close> the properties.
  \<^item> \<open>Mapper\<close> (\<^verbatim>\<open>mapper.rs\<close>): the mapping, windows and advice over a process state, and the
    prefetch thread and the end of its owner as step relations over every interleaving.
    \<open>Mapper_Properties\<close>: advice, shutdown, and the mapping outliving the thread.
  \<^item> \<open>Ggml\<close> (\<^verbatim>\<open>ggml_ffi.rs\<close> and the parts of the library behind it): tensors with shapes,
    strides and views, the checks of each operation, tensor data as words, and the ledger of
    live resources, in which giving back what is not live leaves a mark (\<open>RDoubleFree\<close>). Which allocations succeed, base addresses, status codes and the values
    that a computation gives are parameters. \<open>Ggml_Facts\<close>: the rules for reasoning about it.
  \<^item> \<open>Loader\<close> (\<^verbatim>\<open>loader.rs\<close>): \<open>mapped_model_load\<close>, lookups and drop.
    \<open>Loader_Properties\<close>: its ledger, and where every weight lies.
  \<^item> \<open>Graph\<close> (\<^verbatim>\<open>graph.rs\<close>): hyperparameters, cache, decode graph, prefill, public interface.
    \<open>Graph_Facts\<close>, \<open>Graph_Decode\<close>, \<open>Graph_Engine\<close> and \<open>Graph_New\<close> follow its calls with a frame
    of resources and tensor data; \<open>Graph_Total\<close> shows that no check fails over well-shaped
    weights; \<open>Graph_Properties\<close> has the refinements, \<open>Graph_Runs\<close> whole runs, \<open>Graph_Limits\<close> the
    number of tensors each graph creates and the bytes they take of each context's pool.
  \<^item> \<open>Generate\<close> (\<^verbatim>\<open>generate.rs\<close>): the loop over the operations of a forward pass
    (\<open>engine_ops\<close>, of which \<open>graph_ops\<close> are the graph's), entry points, chat template, session.
    \<open>Generate_Facts\<close>: the contract of a forward pass (locale \<open>forward_pass\<close>) and what follows
    from it; \<open>Generate_Properties\<close> and \<open>Generate_Live\<close>: the properties, the latter over a
    forward pass that answers (locale \<open>live_pass\<close>).
  \<^item> \<open>Program\<close> (\<^verbatim>\<open>main.rs\<close>): arguments, vocabulary extraction, modes, \<open>main_program\<close>.
    \<open>Command_Line\<close>: settings spelled as arguments and read back. \<open>Program_Properties\<close>: the
    ledger of the whole program.
  \<^item> \<open>Build\<close> (\<^verbatim>\<open>build.rs\<close>): the plan of the build script. \<open>Source_Tests\<close>: the repository's unit
    tests, run on the model.
  \<^item> \<open>Diagnostics\<close> (the \<^verbatim>\<open>Display\<close> implementations of all error types, \<^verbatim>\<open>trace_enabled\<close>,
    \<^verbatim>\<open>print_summary\<close> and \<^verbatim>\<open>print_tensor_summary\<close>): the text a user sees, with Rust's shortest
    decimal form of a binary32 value. \<open>Display_Properties\<close>: a value printed in an error
    message is read back exactly by the argument parser.

  What the lemmas show.
  \<^item> The file format is read back as it was written, and no proper prefix of a header is
    accepted; tensor data is aligned.
  \<^item> The tokenizer's construction gives well-formed tables; encoding loses nothing; the merge
    loop ends with nothing left to merge; streaming gives the text back.
  \<^item> The sampler returns one of the \<open>k\<close> best tokens, and always a token of the vocabulary.
  \<^item> On the abstract cache (a list of key rows and of value rows for each layer) a prefill
    appends as many rows as tokens and a decode step appends one; over weights of the right
    shapes no check of the library fails; every reachable engine is well formed, and its drop
    gives back all it acquired but for the leaks listed in the findings, none of it twice.
  \<^item> A generation is the autoregressive chain of sampler and decode steps, within the budget
    of tokens and rows; it returns whenever the library answers; the chat REPL keeps its
    invariant over any input; the whole program exits with 0 or 1 and leaves no resource.

  Bounds and fuel. No definition has fuel: the generation loop is measured by the tokens that
  are left of \<^verbatim>\<open>max_new_tokens\<close>, the encoder by the bytes left and the merge loop by the ids
  left. The cache has 512 rows, the penalty window 64 tokens. The node limits of the
  graphs (8192 and 16384) are not checks of the model; \<open>Graph_Limits\<close> shows that up to 177 layers
  no build creates as many tensors, and that up to the same depth every
  context's pool holds all the descriptors and the graph that are placed in it.

  Machine integers. Words are used where the code computes on them (header fields, offsets,
  random numbers, positions, window addresses). The graph's dimensions and sizes are integers,
  with the wrap-around written out in the cache's layout (\<open>kv_bytes_per\<close>, \<open>k_addr\<close>); the
  signed 64-bit products of other shapes are not wrapped.

  Not modelled. The progress lines on standard error and the \<^verbatim>\<open>Z1_TRACE\<close> output (which no
  result depends on); the numeric kernels of ggml (a node's value is a parameter); the
  pools as allocators (only their sizes are bounded, in \<open>Graph_Limits\<close>); the \<^verbatim>\<open>Send\<close> and
  \<^verbatim>\<open>Sync\<close> markers; the rest of the vendored llama.cpp, which the program does not call.
\<close>

end
